(* ===== verification/Prelude.thy ===== *)
theory Prelude
  imports Complex_Main "HOL-Library.Char_ord" "HOL-Library.List_Lexorder" "HOL-Library.Sublist"
begin

text \<open>
  Shared vocabulary of the development: byte strings and the parts of Go's \<open>strings\<close>,
  \<open>strconv\<close> and \<open>unicode/utf8\<close> packages the program relies on, and the generic lemmas on
  lists and options the component theories use.

  A Go string is a sequence of bytes, and so is an Isabelle \<^typ>\<open>string\<close> (a \<^typ>\<open>char\<close> is
  one of 256 values), so every length and index below counts bytes as the code does. A Go
  \<open>error\<close> result is a value of a sum type, \<open>Inl\<close> carrying the error.
\<close>

named_theorems go_str "defining equations of the modelled Go string functions"
named_theorems res_split "case splits on results"

declare sum.splits [res_split] and option.splits [res_split] and prod.splits [res_split]

type_synonym path = "string list"

section \<open>Results\<close>

definition bind_res :: "'e + 'a \<Rightarrow> ('a \<Rightarrow> 'e + 'b) \<Rightarrow> 'e + 'b" where
  "bind_res m k = (case m of Inl e \<Rightarrow> Inl e | Inr x \<Rightarrow> k x)"

lemma bind_res_simps [simp]:
  "bind_res (Inl e) k = Inl e"
  "bind_res (Inr x) k = k x"
  by (simp_all add: bind_res_def)

lemma bind_res_Inr: "bind_res m k = Inr y \<longleftrightarrow> (\<exists>x. m = Inr x \<and> k x = Inr y)"
  by (cases m) simp_all

lemma bind_res_Inl: "bind_res m k = Inl e \<longleftrightarrow> m = Inl e \<or> (\<exists>x. m = Inr x \<and> k x = Inl e)"
  by (cases m) simp_all

section \<open>Lists\<close>

lemma dropWhile_eq_Nil: "dropWhile P xs = [] \<longleftrightarrow> (\<forall>x \<in> set xs. P x)"
  by (induction xs) auto

lemma hd_dropWhile_not: "dropWhile P xs \<noteq> [] \<Longrightarrow> \<not> P (hd (dropWhile P xs))"
  by (induction xs) auto

lemma set_dropWhile_subset: "set (dropWhile P xs) \<subseteq> set xs"
  by (auto dest: set_dropWhileD)

lemma distinct_map_filterI: "distinct (map f xs) \<Longrightarrow> distinct (map f (filter P xs))"
  by (induction xs) auto

lemma map_of_filter_key:
  "map_of (filter (\<lambda>p. P (fst p)) xs) k = (if P k then map_of xs k else None)"
  by (induction xs) auto

fun pick :: "('a \<Rightarrow> 'b option) \<Rightarrow> 'a list \<Rightarrow> 'b list" where
  "pick f [] = []"
| "pick f (x # xs) = (case f x of None \<Rightarrow> pick f xs | Some y \<Rightarrow> y # pick f xs)"

lemma pick_append [simp]: "pick f (xs @ ys) = pick f xs @ pick f ys"
  by (induction xs) (auto split: option.split)

lemma pick_cong: "(\<And>x. x \<in> set xs \<Longrightarrow> f x = g x) \<Longrightarrow> pick f xs = pick g xs"
  by (induction xs) (auto split: option.split)

lemma set_pick: "set (pick f xs) = {y. \<exists>x \<in> set xs. f x = Some y}"
  by (induction xs) (auto split: option.splits)

lemma map_pick: "map h (pick f xs) = pick (\<lambda>x. map_option h (f x)) xs"
  by (induction xs) (auto split: option.split)

lemma pick_Nil_iff: "pick f xs = [] \<longleftrightarrow> (\<forall>x \<in> set xs. f x = None)"
  by (induction xs) (auto split: option.splits)

lemma pick_all: "(\<And>x. x \<in> set xs \<Longrightarrow> f x = Some (g x)) \<Longrightarrow> pick f xs = map g xs"
  by (induction xs) auto

section \<open>Trimming\<close>

definition trim_by :: "(char \<Rightarrow> bool) \<Rightarrow> string \<Rightarrow> string" where
  "trim_by P s = rev (dropWhile P (rev (dropWhile P s)))"

lemma trim_by_Nil [simp]: "trim_by P [] = []"
  by (simp add: trim_by_def)

lemma set_trim_by: "set (trim_by P s) \<subseteq> set s"
  unfolding trim_by_def by (metis set_dropWhile_subset set_rev subset_trans)

lemma trim_by_hd: "trim_by P s \<noteq> [] \<Longrightarrow> \<not> P (hd (trim_by P s))"
proof -
  assume ne: "trim_by P s \<noteq> []"
  obtain ys where ys: "dropWhile P s = trim_by P s @ ys"
    unfolding trim_by_def
    by (metis rev_append rev_rev_ident takeWhile_dropWhile_id)
  with ne have "hd (trim_by P s) = hd (dropWhile P s)" by simp
  moreover have "dropWhile P s \<noteq> []" using ys ne by simp
  ultimately show ?thesis by (metis hd_dropWhile)
qed

lemma trim_by_last: "trim_by P s \<noteq> [] \<Longrightarrow> \<not> P (last (trim_by P s))"
  unfolding trim_by_def by (metis hd_dropWhile last_rev rev_is_Nil_conv)

lemma trim_by_id: "s = [] \<or> (\<not> P (hd s) \<and> \<not> P (last s)) \<Longrightarrow> trim_by P s = s"
proof -
  assume a: "s = [] \<or> (\<not> P (hd s) \<and> \<not> P (last s))"
  show ?thesis
  proof (cases "s = []")
    case False
    with a have "dropWhile P s = s" by (cases s) auto
    moreover from False a have "dropWhile P (rev s) = rev s"
      by (cases "rev s") (auto simp: hd_rev dest: arg_cong [where f = hd])
    ultimately show ?thesis by (simp add: trim_by_def)
  qed simp
qed

lemma trim_by_idem [simp]: "trim_by P (trim_by P s) = trim_by P s"
  by (metis trim_by_hd trim_by_id trim_by_last)

lemma trim_by_eq_Nil: "trim_by P s = [] \<longleftrightarrow> (\<forall>c \<in> set s. P c)"
proof
  assume "trim_by P s = []"
  then have "\<forall>c \<in> set (dropWhile P s). P c"
    by (simp add: trim_by_def dropWhile_eq_Nil)
  moreover have "dropWhile P s = [] \<or> \<not> P (hd (dropWhile P s))"
    by (metis hd_dropWhile_not)
  ultimately have "dropWhile P s = []" by (metis list.set_sel(1))
  then show "\<forall>c \<in> set s. P c" by (simp add: dropWhile_eq_Nil)
qed (auto simp: trim_by_def dropWhile_eq_Nil dest: set_dropWhileD)

section \<open>UTF-8\<close>

text \<open>
  Go decodes a string rune by rune when it ranges over it. The model keeps a rune as the
  bytes that encode it, which is what \<open>WriteRune\<close> writes back; a byte that starts no valid
  encoding is one rune, U+FFFD, whose encoding is EF BF BD.
\<close>

definition byte :: "char \<Rightarrow> nat" where
  "byte c = of_char c"

text \<open>ASCII letters without their case.\<close>

definition ascii_fold :: "char \<Rightarrow> char" where
  "ascii_fold c = (if 65 \<le> byte c \<and> byte c \<le> 90 then char_of (byte c + 32) else c)"

definition cont_byte :: "nat \<Rightarrow> bool" where
  "cont_byte b \<longleftrightarrow> 128 \<le> b \<and> b \<le> 191"

definition replacement :: string where
  "replacement = [CHR 0xEF, CHR 0xBF, CHR 0xBD]"

definition rune_len :: "string \<Rightarrow> nat" where
  "rune_len s = (case map byte s of
     [] \<Rightarrow> 0
   | b0 # r \<Rightarrow>
      if b0 < 128 then 1
      else (case r of
         [] \<Rightarrow> 0
       | b1 # r1 \<Rightarrow>
          if 194 \<le> b0 \<and> b0 \<le> 223 \<and> cont_byte b1 then 2
          else (case r1 of
             [] \<Rightarrow> 0
           | b2 # r2 \<Rightarrow>
              if 224 \<le> b0 \<and> b0 \<le> 239 \<and> cont_byte b1 \<and> cont_byte b2 \<and>
                 (b0 = 224 \<longrightarrow> 160 \<le> b1) \<and> (b0 = 237 \<longrightarrow> b1 \<le> 159) then 3
              else (case r2 of
                 [] \<Rightarrow> 0
               | b3 # r3 \<Rightarrow>
                  if 240 \<le> b0 \<and> b0 \<le> 244 \<and> cont_byte b1 \<and> cont_byte b2 \<and> cont_byte b3 \<and>
                     (b0 = 240 \<longrightarrow> 144 \<le> b1) \<and> (b0 = 244 \<longrightarrow> b1 \<le> 143) then 4
                  else 0))))"

fun runes_fuel :: "nat \<Rightarrow> string \<Rightarrow> string list" where
  "runes_fuel n [] = []"
| "runes_fuel 0 s = []"
| "runes_fuel (Suc n) s =
     (if rune_len s = 0 then replacement # runes_fuel n (tl s)
      else take (rune_len s) s # runes_fuel n (drop (rune_len s) s))"

definition runes :: "string \<Rightarrow> string list" where
  "runes s = runes_fuel (length s) s"

section \<open>White space\<close>

text \<open>
  \<open>strings.TrimSpace\<close> removes the runes \<open>unicode.IsSpace\<close> accepts. Their encodings are listed,
  and a leading or trailing encoding is removed as long as there is one.
\<close>

definition space_runes :: "string list" where
  "space_runes =
     [[CHR 0x09], [CHR 0x0A], [CHR 0x0B], [CHR 0x0C], [CHR 0x0D], [CHR 0x20],
      [CHR 0xC2, CHR 0x85], [CHR 0xC2, CHR 0xA0],
      [CHR 0xE1, CHR 0x9A, CHR 0x80],
      [CHR 0xE2, CHR 0x80, CHR 0x80], [CHR 0xE2, CHR 0x80, CHR 0x81],
      [CHR 0xE2, CHR 0x80, CHR 0x82], [CHR 0xE2, CHR 0x80, CHR 0x83],
      [CHR 0xE2, CHR 0x80, CHR 0x84], [CHR 0xE2, CHR 0x80, CHR 0x85],
      [CHR 0xE2, CHR 0x80, CHR 0x86], [CHR 0xE2, CHR 0x80, CHR 0x87],
      [CHR 0xE2, CHR 0x80, CHR 0x88], [CHR 0xE2, CHR 0x80, CHR 0x89],
      [CHR 0xE2, CHR 0x80, CHR 0x8A], [CHR 0xE2, CHR 0x80, CHR 0xA8],
      [CHR 0xE2, CHR 0x80, CHR 0xA9], [CHR 0xE2, CHR 0x80, CHR 0xAF],
      [CHR 0xE2, CHR 0x81, CHR 0x9F], [CHR 0xE3, CHR 0x80, CHR 0x80]]"

definition strip_one :: "string list \<Rightarrow> string \<Rightarrow> string option" where
  "strip_one ps s = map_option (\<lambda>p. drop (length p) s) (find (\<lambda>p. p \<noteq> [] \<and> prefix p s) ps)"

lemma strip_one_shorter: "strip_one ps s = Some t \<Longrightarrow> length t < length s"
  by (auto simp: strip_one_def find_Some_iff prefix_def)

function strip_all :: "string list \<Rightarrow> string \<Rightarrow> string" where
  "strip_all ps s = (case strip_one ps s of None \<Rightarrow> s | Some t \<Rightarrow> strip_all ps t)"
  by pat_completeness auto
termination
  by (relation "measure (\<lambda>(ps, s). length s)") (auto dest: strip_one_shorter)

declare strip_all.simps [simp del]

definition trim_space :: "string \<Rightarrow> string" where
  "trim_space s =
     rev (strip_all (map rev space_runes) (rev (strip_all space_runes s)))"

lemma strip_all_done: "strip_one ps (strip_all ps s) = None"
proof (induction ps s rule: strip_all.induct)
  case (1 ps s)
  then show ?case
    by (subst strip_all.simps) (auto split: option.split simp: strip_all.simps [of ps s])
qed

lemma strip_all_id: "strip_one ps s = None \<Longrightarrow> strip_all ps s = s"
  by (simp add: strip_all.simps)

lemma trim_space_Nil [simp]: "trim_space [] = []"
  by (simp add: trim_space_def strip_all_id strip_one_def find_None_iff)

section \<open>Splitting and joining\<close>

text \<open>\<open>strings.Split(s, sep)\<close> and \<open>strings.Cut(s, sep)\<close> for a separator of one byte.\<close>

fun split_on :: "char \<Rightarrow> string \<Rightarrow> string list" where
  "split_on c [] = [[]]"
| "split_on c (x # xs) =
     (if x = c then [] # split_on c xs
      else (x # hd (split_on c xs)) # tl (split_on c xs))"

lemma split_on_code [code]:
  "split_on c [] = [[]]"
  "split_on c (x # xs) = (case split_on c xs of
      [] \<Rightarrow> [[x]]
    | y # ys \<Rightarrow> if x = c then [] # y # ys else (x # y) # ys)"
proof -
  have "split_on c xs \<noteq> []" by (induction xs) simp_all
  then show "split_on c (x # xs) = (case split_on c xs of
      [] \<Rightarrow> [[x]]
    | y # ys \<Rightarrow> if x = c then [] # y # ys else (x # y) # ys)"
    by (cases "split_on c xs") simp_all
qed simp

fun join :: "string \<Rightarrow> string list \<Rightarrow> string" where
  "join sep [] = []"
| "join sep [x] = x"
| "join sep (x # y # ys) = x @ sep @ join sep (y # ys)"

definition cut :: "char \<Rightarrow> string \<Rightarrow> string \<times> string \<times> bool" where
  "cut c s = (takeWhile (\<lambda>x. x \<noteq> c) s, tl (dropWhile (\<lambda>x. x \<noteq> c) s), c \<in> set s)"

lemma split_on_ne [simp]: "split_on c s \<noteq> []"
  by (cases s) auto

lemma join_Cons: "xs \<noteq> [] \<Longrightarrow> join sep (x # xs) = x @ sep @ join sep xs"
  by (cases xs) auto

lemma join_split [simp]: "join [c] (split_on c s) = s"
proof (induction s)
  case (Cons x xs)
  show ?case
  proof (cases "x = c")
    case True
    then show ?thesis using Cons by (simp add: join_Cons)
  next
    case False
    obtain y ys where "split_on c xs = y # ys" by (cases "split_on c xs") auto
    with Cons False show ?thesis by (cases ys) auto
  qed
qed simp

lemma split_on_parts: "p \<in> set (split_on c s) \<Longrightarrow> c \<notin> set p"
proof (induction s arbitrary: p)
  case (Cons x xs)
  obtain y ys where "split_on c xs = y # ys" by (cases "split_on c xs") auto
  with Cons show ?case by (auto split: if_splits)
qed simp

lemma split_on_no_sep: "c \<notin> set s \<Longrightarrow> split_on c s = [s]"
  by (induction s) auto

lemma split_on_append: "c \<notin> set s \<Longrightarrow> split_on c (s @ c # t) = s # split_on c t"
  by (induction s) auto

lemma split_on_join:
  "xs \<noteq> [] \<Longrightarrow> \<forall>x \<in> set xs. c \<notin> set x \<Longrightarrow> split_on c (join [c] xs) = xs"
proof (induction xs rule: induct_list012)
  case (3 x y zs)
  then show ?case by (simp add: split_on_append)
qed (simp_all add: split_on_no_sep)

lemma set_join_subset: "set (join sep xs) \<subseteq> set sep \<union> (\<Union>x \<in> set xs. set x)"
  by (induction sep xs rule: join.induct) auto

lemma cut_no_sep: "c \<notin> set s \<Longrightarrow> cut c s = (s, [], False)"
  by (induction s) (auto simp: cut_def)

lemma cut_sep: "c \<notin> set s \<Longrightarrow> cut c (s @ c # t) = (s, t, True)"
  by (induction s) (auto simp: cut_def)

section \<open>Decimal numbers\<close>

text \<open>
  \<open>dec_int\<close> is \<open>fmt\<close>'s \<^verbatim>\<open>%d\<close>; \<open>parse_int64\<close> is \<open>strconv.ParseInt(s, 10, 64)\<close>: an optional
  sign, then digits only and at least one of them, and an error out of the 64-bit range.
\<close>

definition digit_char :: "nat \<Rightarrow> char" where
  "digit_char n = char_of (48 + n)"

definition is_digit :: "char \<Rightarrow> bool" where
  "is_digit c \<longleftrightarrow> 48 \<le> byte c \<and> byte c \<le> 57"

fun dec_nat :: "nat \<Rightarrow> string" where
  "dec_nat n = (if n < 10 then [digit_char n] else dec_nat (n div 10) @ [digit_char (n mod 10)])"

declare dec_nat.simps [simp del]

definition dec_int :: "int \<Rightarrow> string" where
  "dec_int i = (if i < 0 then CHR ''-'' # dec_nat (nat (- i)) else dec_nat (nat i))"

definition digits_val :: "string \<Rightarrow> nat" where
  "digits_val s = foldl (\<lambda>n c. 10 * n + (byte c - 48)) 0 s"

definition in_int64 :: "int \<Rightarrow> bool" where
  "in_int64 i \<longleftrightarrow> - (2 ^ 63) \<le> i \<and> i < 2 ^ 63"

definition parse_int64 :: "string \<Rightarrow> int option" where
  "parse_int64 s =
     (let (neg, ds) = (case s of
            [] \<Rightarrow> (False, s)
          | c # r \<Rightarrow> if c = CHR ''-'' then (True, r)
                     else if c = CHR ''+'' then (False, r) else (False, s));
          i = (if neg then - int (digits_val ds) else int (digits_val ds))
      in if ds \<noteq> [] \<and> list_all is_digit ds \<and> in_int64 i then Some i else None)"

lemma byte_digit_char: "n < 10 \<Longrightarrow> byte (digit_char n) = 48 + n"
  by (simp add: byte_def digit_char_def)

lemma is_digit_digit_char: "n < 10 \<Longrightarrow> is_digit (digit_char n)"
  by (simp add: is_digit_def byte_digit_char)

lemma dec_nat_digits: "c \<in> set (dec_nat n) \<Longrightarrow> is_digit c"
proof (induction n rule: dec_nat.induct)
  case (1 n)
  then show ?case
    by (subst (asm) dec_nat.simps) (auto simp: is_digit_digit_char split: if_splits)
qed

lemma dec_nat_ne [simp]: "dec_nat n \<noteq> []"
  by (subst dec_nat.simps) simp

lemma digits_val_snoc: "digits_val (s @ [c]) = 10 * digits_val s + (byte c - 48)"
  by (simp add: digits_val_def)

lemma digits_val_dec_nat [simp]: "digits_val (dec_nat n) = n"
proof (induction n rule: dec_nat.induct)
  case (1 n)
  show ?case
  proof (cases "n < 10")
    case True
    then show ?thesis
      by (subst dec_nat.simps) (simp add: digits_val_def byte_digit_char)
  next
    case False
    with 1 show ?thesis
      by (subst dec_nat.simps) (simp add: digits_val_snoc byte_digit_char)
  qed
qed

lemma not_digit_simps [simp]: "\<not> is_digit (CHR ''-'')" "\<not> is_digit (CHR ''+'')"
  "\<not> is_digit (CHR '')'')" "\<not> is_digit (CHR ''('')" "\<not> is_digit (CHR ''/'')" "\<not> is_digit (CHR '' '')"
  "\<not> is_digit (CHR ''.'')"
  by (simp_all add: is_digit_def byte_def)

lemma parse_int64_dec_int: "in_int64 i \<Longrightarrow> parse_int64 (dec_int i) = Some i"
proof -
  assume r: "in_int64 i"
  have all: "list_all is_digit (dec_nat n)" for n
    by (auto simp: list_all_iff dec_nat_digits)
  obtain c cs where c: "dec_nat (nat i) = c # cs" by (cases "dec_nat (nat i)") auto
  then have "is_digit c" using dec_nat_digits [of c "nat i"] by simp
  then have "c \<noteq> CHR ''-''" "c \<noteq> CHR ''+''" by auto
  with c have "0 \<le> i \<Longrightarrow> ?thesis"
    using r all [of "nat i"] digits_val_dec_nat [of "nat i"]
    by (simp add: parse_int64_def dec_int_def)
  moreover have "i < 0 \<Longrightarrow> ?thesis"
    using r all by (simp add: parse_int64_def dec_int_def)
  ultimately show ?thesis by linarith
qed

lemma dec_int_inject: "in_int64 i \<Longrightarrow> in_int64 j \<Longrightarrow> dec_int i = dec_int j \<Longrightarrow> i = j"
  using parse_int64_dec_int by (metis option.inject)

end
