(* ===== verification/Naming.thy ===== *)
theory Naming
  imports Prelude
begin

text \<open>
  \<^verbatim>\<open>internal/util/naming/naming.go\<close>: the two character rules that turn metadata into file
  names, \<open>fat_component\<close> (for a FAT volume) and \<open>path_component\<close> (for one POSIX or 9P path
  component), and the total functions built on them. The lemmas show what a result never
  contains, that it names exactly one component below its directory, and that applying a rule
  twice changes nothing.
\<close>

definition fat_forbidden :: string where
  "fat_forbidden = [CHR ''/'', CHR 0x5C, CHR '':'', CHR ''*'', CHR ''?'', CHR 0x22, CHR ''<'',
     CHR ''>'', CHR ''|'']"

definition trimmed :: "char \<Rightarrow> bool" where
  "trimmed c \<longleftrightarrow> c = CHR ''.'' \<or> c = CHR '' '' \<or> c = CHR 0x09"

definition fat_rune :: "string \<Rightarrow> string" where
  "fat_rune r = (case r of
      [c] \<Rightarrow> if c \<in> set fat_forbidden then ''-''
             else if byte c < 32 then [] else r
    | _ \<Rightarrow> r)"

definition fat_component :: "string \<Rightarrow> string" where
  "fat_component s = trim_by trimmed (concat (map fat_rune (runes s)))"

definition path_component :: "string \<Rightarrow> string" where
  "path_component s =
     trim_by trimmed (map (\<lambda>c. if c = CHR ''/'' then CHR ''-'' else c)
       (filter (\<lambda>c. c \<noteq> CHR 0x00) s))"

definition for_fat :: "string \<Rightarrow> string" where
  "for_fat s = (let out = fat_component s in if out \<noteq> [] then out else ''_'')"

definition path_safe :: "string \<Rightarrow> string" where
  "path_safe s = (let out = path_component s in if out \<noteq> [] then out else ''_'')"

definition names_nothing :: "string \<Rightarrow> bool" where
  "names_nothing s \<longleftrightarrow> path_component s = []"

section \<open>One path component\<close>

text \<open>What a directory entry may be called: not empty, no separator, no NUL, and not a name
  that \<open>filepath.Join\<close> resolves to the directory itself or its parent.\<close>

definition component_ok :: "string \<Rightarrow> bool" where
  "component_ok s \<longleftrightarrow> s \<noteq> [] \<and> CHR ''/'' \<notin> set s \<and> CHR 0x00 \<notin> set s \<and> s \<noteq> ''.'' \<and> s \<noteq> ''..''"

lemma component_okI:
  assumes "s \<noteq> []" "CHR ''/'' \<notin> set s" "CHR 0x00 \<notin> set s" "\<not> trimmed (hd s) \<or> \<not> trimmed (last s)"
  shows "component_ok s"
  using assms by (auto simp: component_ok_def trimmed_def)

lemma set_path_component: "c \<in> set (path_component s) \<Longrightarrow> c \<noteq> CHR ''/'' \<and> c \<noteq> CHR 0x00"
  unfolding path_component_def by (auto dest!: set_trim_by [THEN subsetD] split: if_splits)

lemma path_component_ends:
  "path_component s \<noteq> [] \<Longrightarrow> \<not> trimmed (hd (path_component s)) \<and> \<not> trimmed (last (path_component s))"
  unfolding path_component_def by (simp add: trim_by_hd trim_by_last)

lemma path_component_ok: "path_component s \<noteq> [] \<Longrightarrow> component_ok (path_component s)"
  using set_path_component path_component_ends by (intro component_okI) blast+

lemma component_ok_underscore: "component_ok ''_''"
  by (simp add: component_ok_def)

lemma path_safe_ok: "component_ok (path_safe s)"
  by (simp add: path_safe_def Let_def path_component_ok component_ok_underscore)

lemma path_safe_no_slash: "CHR ''/'' \<notin> set (path_safe s)"
  using path_safe_ok by (simp add: component_ok_def)

lemma path_component_fixed: 
  assumes "CHR ''/'' \<notin> set s" "CHR 0x00 \<notin> set s" "s = [] \<or> \<not> trimmed (hd s) \<and> \<not> trimmed (last s)"
  shows "path_component s = s"
proof -
  have "filter (\<lambda>c. c \<noteq> CHR 0x00) s = s" using assms(2) by (auto simp: filter_id_conv)
  moreover have "map (\<lambda>c. if c = CHR ''/'' then CHR ''-'' else c) s = s"
    using assms(1) by (auto intro: map_idI)
  ultimately show ?thesis using assms(3) by (simp add: path_component_def trim_by_id)
qed

lemma path_component_idem: "path_component (path_component s) = path_component s"
  using set_path_component path_component_ends by (intro path_component_fixed) blast+

lemma path_safe_idem: "path_safe (path_safe s) = path_safe s"
proof (cases "path_component s = []")
  case True
  moreover have "path_component ''_'' = ''_''" by (intro path_component_fixed) (auto simp: trimmed_def)
  ultimately show ?thesis by (simp add: path_safe_def)
qed (simp add: path_safe_def path_component_idem)

lemma names_nothing_chars:
  "names_nothing s \<longleftrightarrow> (\<forall>c \<in> set s. trimmed c \<or> c = CHR 0x00)"
  unfolding names_nothing_def path_component_def
  by (auto simp: trim_by_eq_Nil trimmed_def)

section \<open>Runes of a string\<close>

definition rune_ok :: "string \<Rightarrow> bool" where
  "rune_ok r \<longleftrightarrow> r \<noteq> [] \<and> (\<forall>rest. rune_len (r @ rest) = length r) \<and>
     ((\<exists>c. r = [c]) \<or> (\<forall>c \<in> set r. 128 \<le> byte c))"

lemma rune_ok_ascii: "rune_ok r \<Longrightarrow> c \<in> set r \<Longrightarrow> byte c < 128 \<Longrightarrow> r = [c]"
  by (auto simp: rune_ok_def)

lemma byte_hex [simp]: "byte (CHR 0xEF) = 239" "byte (CHR 0xBF) = 191" "byte (CHR 0xBD) = 189"
  by (simp_all add: byte_def)

lemma rune_ok_replacement: "rune_ok replacement"
  by (simp add: rune_ok_def replacement_def rune_len_def cont_byte_def)

lemma rune_len_le: "rune_len s \<le> length s"
  by (auto simp: rune_len_def map_eq_Cons_conv split: list.split)

lemma rune_len_prefix_ok:
  assumes "rune_len s \<noteq> 0"
  shows "rune_ok (take (rune_len s) s)"
proof -
  let ?b = byte
  consider c r where "s = c # r" "?b c < 128"
    | c d r where "s = c # d # r" "194 \<le> ?b c" "?b c \<le> 223" "cont_byte (?b d)"
    | c d e r where "s = c # d # e # r" "224 \<le> ?b c" "?b c \<le> 239" "cont_byte (?b d)" "cont_byte (?b e)"
        "?b c = 224 \<longrightarrow> 160 \<le> ?b d" "?b c = 237 \<longrightarrow> ?b d \<le> 159"
    | c d e f r where "s = c # d # e # f # r" "240 \<le> ?b c" "?b c \<le> 244" "cont_byte (?b d)"
        "cont_byte (?b e)" "cont_byte (?b f)" "?b c = 240 \<longrightarrow> 144 \<le> ?b d" "?b c = 244 \<longrightarrow> ?b d \<le> 143"
    using assms by (auto simp: rune_len_def map_eq_Cons_conv split: list.splits if_splits)
  then show ?thesis
  proof cases
    case 1
    then show ?thesis by (simp add: rune_ok_def rune_len_def)
  next
    case 2
    then show ?thesis by (simp add: rune_ok_def rune_len_def cont_byte_def)
  next
    case 3
    then show ?thesis by (simp add: rune_ok_def rune_len_def cont_byte_def)
  next
    case 4
    then show ?thesis by (simp add: rune_ok_def rune_len_def cont_byte_def)
  qed
qed

lemma runes_fuel_ok: "r \<in> set (runes_fuel n s) \<Longrightarrow> rune_ok r"
proof (induction n s rule: runes_fuel.induct)
  case (3 n c s)
  then show ?case
    by (auto simp: rune_ok_replacement rune_len_prefix_ok split: if_splits simp del: rune_len_def)
qed auto

lemma runes_fuel_concat:
  "\<forall>r \<in> set rs. rune_ok r \<Longrightarrow> length (concat rs) \<le> n \<Longrightarrow> runes_fuel n (concat rs) = rs"
proof (induction rs arbitrary: n)
  case (Cons r rs)
  then have ok: "rune_ok r" by simp
  then obtain c cs where c: "r = c # cs" by (cases r) (auto simp: rune_ok_def)
  from Cons.prems c obtain m where m: "n = Suc m" by (cases n) auto
  have len: "rune_len (r @ concat rs) = length r" using ok by (simp add: rune_ok_def)
  have "runes_fuel n (r @ concat rs) = r # runes_fuel m (concat rs)"
    using len c m by (auto simp: Cons_eq_append_conv)
  with Cons m c show ?case by simp
qed simp

lemma runes_concat: "\<forall>r \<in> set rs. rune_ok r \<Longrightarrow> runes (concat rs) = rs"
  by (simp add: runes_def runes_fuel_concat)

lemma runes_ok: "r \<in> set (runes s) \<Longrightarrow> rune_ok r"
  by (auto simp: runes_def runes_fuel_ok)

section \<open>FAT names\<close>

definition fat_char_ok :: "char \<Rightarrow> bool" where
  "fat_char_ok c \<longleftrightarrow> c \<notin> set fat_forbidden \<and> 32 \<le> byte c"

lemma fat_forbidden_ascii: "c \<in> set fat_forbidden \<Longrightarrow> byte c < 128"
  by (auto simp: fat_forbidden_def byte_def)

lemma fat_char_ok_high: "128 \<le> byte c \<Longrightarrow> fat_char_ok c"
  using fat_forbidden_ascii by (force simp: fat_char_ok_def)

lemma fat_rune_ok: "rune_ok r \<Longrightarrow> c \<in> set (fat_rune r) \<Longrightarrow> fat_char_ok c"
proof -
  assume r: "rune_ok r" and c: "c \<in> set (fat_rune r)"
  have dash: "fat_char_ok (CHR ''-'')" by (simp add: fat_char_ok_def fat_forbidden_def byte_def)
  from r consider d where "r = [d]" | "\<forall>c \<in> set r. 128 \<le> byte c" "\<not> (\<exists>c. r = [c])"
    by (auto simp: rune_ok_def)
  then show ?thesis
  proof cases
    case 1
    with c dash show ?thesis by (auto simp: fat_rune_def fat_char_ok_def split: if_splits)
  next
    case 2
    then have "fat_rune r = r" by (auto simp: fat_rune_def split: list.split)
    with 2 c show ?thesis by (auto simp: fat_char_ok_high)
  qed
qed

lemma fat_component_chars: "c \<in> set (fat_component s) \<Longrightarrow> fat_char_ok c"
  unfolding fat_component_def using runes_ok fat_rune_ok
  by (fastforce dest!: set_trim_by [THEN subsetD])

lemma fat_component_ends:
  "fat_component s \<noteq> [] \<Longrightarrow> \<not> trimmed (hd (fat_component s)) \<and> \<not> trimmed (last (fat_component s))"
  unfolding fat_component_def by (simp add: trim_by_hd trim_by_last)

lemma fat_char_bad: "\<not> fat_char_ok (CHR ''/'')" "\<not> fat_char_ok (CHR 0x00)"
  by (simp_all add: fat_char_ok_def fat_forbidden_def byte_def)

lemma fat_char_ok_not: "fat_char_ok c \<Longrightarrow> c \<noteq> CHR ''/'' \<and> c \<noteq> CHR 0x00"
  using fat_char_bad by blast

lemma fat_char_ok_underscore: "fat_char_ok (CHR ''_'')"
  by (simp add: fat_char_ok_def fat_forbidden_def byte_def)

lemma for_fat_chars: "c \<in> set (for_fat s) \<Longrightarrow> fat_char_ok c"
  using fat_component_chars fat_char_ok_underscore
  by (auto simp: for_fat_def Let_def split: if_splits)

lemma for_fat_ends: "\<not> trimmed (hd (for_fat s)) \<and> \<not> trimmed (last (for_fat s))"
  using fat_component_ends [of s] by (simp add: for_fat_def Let_def trimmed_def)

lemma for_fat_ne: "for_fat s \<noteq> []"
  by (simp add: for_fat_def Let_def)

lemma for_fat_ok: "component_ok (for_fat s)"
proof (rule component_okI)
  show "CHR ''/'' \<notin> set (for_fat s)" "CHR 0x00 \<notin> set (for_fat s)"
    using for_fat_chars [of _ s] fat_char_ok_not by blast+
qed (simp_all add: for_fat_ne for_fat_ends)

lemma concat_filter_ne: "concat (filter (\<lambda>r. r \<noteq> []) rs) = concat rs"
  by (induction rs) auto

lemma trim_concat_left:
  "\<forall>r \<in> set rs. (\<exists>c. r = [c]) \<or> (r \<noteq> [] \<and> (\<forall>c \<in> set r. \<not> P c)) \<Longrightarrow>
   dropWhile P (concat rs) = concat (dropWhile (\<lambda>r. \<exists>c. r = [c] \<and> P c) rs)"
proof (induction rs)
  case (Cons r rs)
  then consider c where "r = [c]" | c cs where "r = c # cs" "\<not> P c" "cs \<noteq> []"
    by (cases r; cases "tl r") auto
  then show ?case using Cons by cases auto
qed simp

lemma trim_concat:
  assumes "\<forall>r \<in> set rs. (\<exists>c. r = [c]) \<or> (r \<noteq> [] \<and> (\<forall>c \<in> set r. \<not> P c))"
  shows "\<exists>rs'. set rs' \<subseteq> set rs \<and> trim_by P (concat rs) = concat rs'"
proof -
  let ?Q = "\<lambda>r. \<exists>c. r = [c] \<and> P c"
  let ?l = "dropWhile ?Q rs"
  have sub: "set ?l \<subseteq> set rs" by (rule set_dropWhile_subset)
  let ?r = "map rev (rev ?l)"
  have "\<forall>r \<in> set ?r. (\<exists>c. r = [c]) \<or> (r \<noteq> [] \<and> (\<forall>c \<in> set r. \<not> P c))"
    using assms sub by fastforce
  then have "dropWhile P (concat ?r) = concat (dropWhile ?Q ?r)" by (rule trim_concat_left)
  moreover have "rev (concat ?l) = concat ?r" by (simp add: rev_concat)
  ultimately have "trim_by P (concat rs) = rev (concat (dropWhile ?Q ?r))"
    using trim_concat_left [OF assms] by (simp add: trim_by_def)
  also have "\<dots> = concat (map rev (rev (dropWhile ?Q ?r)))" by (simp add: rev_concat)
  finally have eq: "trim_by P (concat rs) = concat (map rev (rev (dropWhile ?Q ?r)))" .
  have "set (map rev (rev (dropWhile ?Q ?r))) \<subseteq> rev ` set ?r"
    using set_dropWhile_subset [of ?Q ?r] by auto
  also have "\<dots> \<subseteq> set rs" using sub by auto
  finally show ?thesis using eq by blast
qed

lemma trimmed_ascii: "trimmed c \<Longrightarrow> byte c < 128"
  by (auto simp: trimmed_def byte_def)

lemma fat_component_fixed:
  assumes "\<forall>r \<in> set rs. rune_ok r" "\<forall>r \<in> set rs. fat_rune r = r"
    and "concat rs = [] \<or> \<not> trimmed (hd (concat rs)) \<and> \<not> trimmed (last (concat rs))"
  shows "fat_component (concat rs) = concat rs"
proof -
  have "map fat_rune rs = rs" using assms(2) by (simp add: map_idI)
  then show ?thesis using assms(1,3) by (simp add: fat_component_def runes_concat trim_by_id)
qed

lemma fat_rune_fixed: "\<forall>c \<in> set r. fat_char_ok c \<Longrightarrow> fat_rune r = r"
  by (auto simp: fat_rune_def fat_char_ok_def split: list.split)

lemma fat_rune_rune_ok: "rune_ok r \<Longrightarrow> fat_rune r = [] \<or> rune_ok (fat_rune r)"
proof -
  assume r: "rune_ok r"
  have "rune_ok ''-''" by (simp add: rune_ok_def rune_len_def byte_def)
  with r show ?thesis by (auto simp: fat_rune_def split: list.split)
qed

lemma fat_component_idem: "fat_component (fat_component s) = fat_component s"
proof -
  let ?rs = "filter (\<lambda>r. r \<noteq> []) (map fat_rune (runes s))"
  have c: "concat (map fat_rune (runes s)) = concat ?rs"
    by (rule concat_filter_ne [symmetric])
  have ok: "rune_ok r" if "r \<in> set ?rs" for r
    using that runes_ok fat_rune_rune_ok by fastforce
  have "\<forall>r \<in> set ?rs. (\<exists>c. r = [c]) \<or> (r \<noteq> [] \<and> (\<forall>c \<in> set r. \<not> trimmed c))"
    using ok trimmed_ascii by (fastforce simp: rune_ok_def)
  then obtain rs' where rs': "set rs' \<subseteq> set ?rs" "trim_by trimmed (concat ?rs) = concat rs'"
    using trim_concat by blast
  have fc: "fat_component s = concat rs'" by (simp add: fat_component_def c rs')
  have "fat_component (concat rs') = concat rs'"
  proof (rule fat_component_fixed)
    show "\<forall>r \<in> set rs'. rune_ok r" using rs'(1) ok by blast
    show "\<forall>r \<in> set rs'. fat_rune r = r"
      using fat_component_chars [of _ s] fc by (fastforce intro: fat_rune_fixed)
    show "concat rs' = [] \<or> \<not> trimmed (hd (concat rs')) \<and> \<not> trimmed (last (concat rs'))"
      using fat_component_ends [of s] fc by metis
  qed
  with fc show ?thesis by simp
qed

lemma for_fat_idem: "for_fat (for_fat s) = for_fat s"
proof (cases "fat_component s = []")
  case True
  have "fat_component (concat [''_'']) = concat [''_'']"
    by (rule fat_component_fixed)
       (simp_all add: rune_ok_def rune_len_def byte_def fat_rune_def fat_forbidden_def trimmed_def)
  with True show ?thesis by (simp add: for_fat_def)
qed (simp add: for_fat_def fat_component_idem)

section \<open>The contract of the two rules\<close>

text \<open>Whatever the metadata says, \<open>path_safe\<close> gives a name for exactly one directory entry: not empty,
  no separator, no NUL, neither of the two names \<^verbatim>\<open>filepath.Join\<close> resolves away; applying it to
  its own result changes nothing.\<close>

theorem path_safe_component: "component_ok (path_safe s) \<and> path_safe (path_safe s) = path_safe s"
  using path_safe_ok path_safe_idem by blast

text \<open>\<open>for_fat\<close> gives a component without any character a FAT volume forbids or any control character,
  on any bytes (invalid UTF-8 included), and is idempotent.\<close>

theorem for_fat_component:
  "component_ok (for_fat s) \<and> set (for_fat s) \<subseteq> {c. fat_char_ok c} \<and> for_fat (for_fat s) = for_fat s"
  using for_fat_ok for_fat_chars for_fat_idem by blast

end
