(* ===== verification/Paths.thy ===== *)
theory Paths
  imports Prelude
begin

text \<open>
  The part of Go's \<open>path/filepath\<close> (on Unix) the program uses to build and take apart library
  paths: \<open>Clean\<close>, \<open>Join\<close>, \<open>Dir\<close>, \<open>Base\<close> and \<open>Ext\<close>, on byte strings. The lemmas compute them on
  paths whose components are well formed, which is all the store ever builds.
\<close>

abbreviation slash :: char where
  "slash \<equiv> CHR ''/''"

fun clean_step :: "bool \<Rightarrow> string list \<Rightarrow> string \<Rightarrow> string list" where
  "clean_step rooted st c =
     (if c = [] \<or> c = ''.'' then st
      else if c = ''..'' then
        (if st \<noteq> [] \<and> last st \<noteq> ''..'' then butlast st
         else if rooted then st else st @ [c])
      else st @ [c])"

definition clean_comps :: "string \<Rightarrow> string list" where
  "clean_comps s = foldl (clean_step (s \<noteq> [] \<and> hd s = slash)) [] (split_on slash s)"

definition clean :: "string \<Rightarrow> string" where
  "clean s =
     (let rooted = (s \<noteq> [] \<and> hd s = slash); cs = clean_comps s
      in if rooted then slash # join ''/'' cs
         else if cs = [] then ''.'' else join ''/'' cs)"

definition join_path :: "string list \<Rightarrow> string" where
  "join_path ps =
     (let ne = filter (\<lambda>p. p \<noteq> []) ps in if ne = [] then [] else clean (join ''/'' ne))"

definition last_slash_split :: "string \<Rightarrow> string \<times> string" where
  "last_slash_split s =
     (rev (dropWhile (\<lambda>c. c \<noteq> slash) (rev s)), rev (takeWhile (\<lambda>c. c \<noteq> slash) (rev s)))"

definition dir_path :: "string \<Rightarrow> string" where
  "dir_path s = clean (fst (last_slash_split s))"

definition base_path :: "string \<Rightarrow> string" where
  "base_path s =
     (if s = [] then ''.''
      else (let t = rev (dropWhile (\<lambda>c. c = slash) (rev s))
            in if t = [] then ''/'' else snd (last_slash_split t)))"

definition ext_path :: "string \<Rightarrow> string" where
  "ext_path s =
     (let b = snd (last_slash_split s); r = rev b
      in if CHR ''.'' \<in> set b then CHR ''.'' # rev (takeWhile (\<lambda>c. c \<noteq> CHR ''.'') r) else [])"

section \<open>Plain components\<close>

definition plain :: "string \<Rightarrow> bool" where
  "plain c \<longleftrightarrow> c \<noteq> [] \<and> slash \<notin> set c \<and> c \<noteq> ''.'' \<and> c \<noteq> ''..''"

lemma foldl_clean_plain: "\<forall>c \<in> set cs. plain c \<Longrightarrow> foldl (clean_step r) st cs = st @ cs"
  by (induction cs arbitrary: st) (auto simp: plain_def)

lemma plain_no_slash: "plain c \<Longrightarrow> slash \<notin> set c"
  by (simp add: plain_def)

lemma plain_ne: "plain c \<Longrightarrow> c \<noteq> []"
  by (simp add: plain_def)

lemma hd_join: "cs \<noteq> [] \<Longrightarrow> hd cs \<noteq> [] \<Longrightarrow> hd (join sep cs) = hd (hd cs)"
  by (cases cs rule: list.exhaust; cases "tl cs") auto

lemma join_ne: "cs \<noteq> [] \<Longrightarrow> hd cs \<noteq> [] \<Longrightarrow> join sep cs \<noteq> []"
  by (cases cs rule: list.exhaust; cases "tl cs") auto

lemma plain_hd: "plain c \<Longrightarrow> hd c \<noteq> slash"
  by (cases c) (auto simp: plain_def)

lemma split_join_plain:
  "cs \<noteq> [] \<Longrightarrow> \<forall>c \<in> set cs. plain c \<Longrightarrow> split_on slash (join ''/'' cs) = cs"
  by (rule split_on_join) (auto simp: plain_def)

lemma clean_comps_plain:
  assumes "cs \<noteq> []" "\<forall>c \<in> set cs. plain c"
  shows "clean_comps (join ''/'' cs) = cs"
  using assms foldl_clean_plain [of cs] by (simp add: clean_comps_def split_join_plain)

lemma clean_plain:
  assumes "cs \<noteq> []" "\<forall>c \<in> set cs. plain c"
  shows "clean (join ''/'' cs) = join ''/'' cs"
proof -
  have "plain (hd cs)" using assms by simp
  then have "hd (join ''/'' cs) \<noteq> slash"
    using assms(1) by (simp add: hd_join plain_hd plain_ne)
  then show ?thesis using assms by (simp add: clean_def clean_comps_plain)
qed

lemma join_path_plain:
  assumes "cs \<noteq> []" "\<forall>c \<in> set cs. plain c"
  shows "join_path cs = join ''/'' cs"
proof -
  have "filter (\<lambda>p. p \<noteq> []) cs = cs" using assms(2) by (auto simp: plain_def filter_id_conv)
  then show ?thesis using assms by (simp add: join_path_def clean_plain)
qed

lemma split_on_snoc_join:
  "cs \<noteq> [] \<Longrightarrow> \<forall>c \<in> set cs. slash \<notin> set c \<Longrightarrow> split_on slash (join ''/'' cs @ ''/'') = cs @ [[]]"
proof (induction cs rule: induct_list012)
  case (2 x)
  then show ?case using split_on_append [of slash x "[]"] by simp
next
  case (3 x y zs)
  then show ?case by (simp add: split_on_append)
qed simp

lemma takeWhile_all: "slash \<notin> set xs \<Longrightarrow> takeWhile (\<lambda>c. c \<noteq> slash) xs = xs"
  by (induction xs) auto

lemma last_slash_split_append:
  "slash \<notin> set b \<Longrightarrow> last_slash_split (a @ slash # b) = (a @ ''/'', b)"
proof -
  assume "slash \<notin> set b"
  then have n: "\<And>c. c \<in> set (rev b) \<Longrightarrow> c \<noteq> slash" by auto
  have "takeWhile (\<lambda>c. c \<noteq> slash) (rev b @ slash # rev a) = rev b"
    using n by (subst takeWhile_append2) auto
  moreover have "dropWhile (\<lambda>c. c \<noteq> slash) (rev b @ slash # rev a) = slash # rev a"
    using n by (subst dropWhile_append2) auto
  ultimately show ?thesis by (simp add: last_slash_split_def)
qed

lemma dir_path_plain:
  assumes "cs \<noteq> []" "\<forall>c \<in> set cs. plain c" "plain f"
  shows "dir_path (join ''/'' (cs @ [f])) = join ''/'' cs"
proof -
  have j: "join ''/'' (cs @ [f]) = join ''/'' cs @ slash # f"
    using assms(1) by (induction cs rule: induct_list012) auto
  have "fst (last_slash_split (join ''/'' (cs @ [f]))) = join ''/'' cs @ ''/''"
    using assms(3) by (simp add: j last_slash_split_append plain_def)
  moreover have "clean_comps (join ''/'' cs @ ''/'') = cs"
    using assms(1,2) foldl_clean_plain [of cs]
    by (simp add: clean_comps_def split_on_snoc_join plain_no_slash)
  moreover have "hd (join ''/'' cs @ ''/'') \<noteq> slash"
    using assms(1,2) by (simp add: hd_append join_ne hd_join plain_hd plain_ne)
  ultimately show ?thesis using assms(1) by (simp add: dir_path_def clean_def)
qed

lemma base_path_plain:
  assumes "plain f"
  shows "base_path (join ''/'' (cs @ [f])) = f"
proof -
  have "last f \<noteq> slash" using assms last_in_set [of f] unfolding plain_def by metis
  have l: "dropWhile (\<lambda>c. c = slash) (rev (a @ f)) = rev (a @ f)" for a
    using assms \<open>last f \<noteq> slash\<close> by (cases f rule: rev_cases) (auto simp: plain_def)
  show ?thesis
  proof (cases "cs = []")
    case True
    have "last_slash_split f = ([], f)"
    proof -
      have n: "slash \<notin> set (rev f)" using plain_no_slash [OF assms] by simp
      then have "dropWhile (\<lambda>c. c \<noteq> slash) (rev f) = []" by (simp only: dropWhile_eq_Nil) metis
      with takeWhile_all [OF n] have "takeWhile (\<lambda>c. c \<noteq> slash) (rev f) = rev f"
        "dropWhile (\<lambda>c. c \<noteq> slash) (rev f) = []" by blast+
      then show ?thesis unfolding last_slash_split_def by (simp only: rev_rev_ident rev.simps)
    qed
    with True assms l [of "[]"] show ?thesis by (simp add: base_path_def plain_def)
  next
    case False
    have j: "join ''/'' (cs @ [f]) = join ''/'' cs @ slash # f"
      using False by (induction cs rule: induct_list012) auto
    have ls: "last_slash_split (join ''/'' cs @ slash # f) = (join ''/'' cs @ ''/'', f)"
      using assms by (simp add: last_slash_split_append plain_def)
    have d: "dropWhile (\<lambda>c. c = slash) (rev (join ''/'' cs @ slash # f)) = rev (join ''/'' cs @ slash # f)"
      using l [of "join ''/'' cs @ ''/''"] by simp
    show ?thesis unfolding j base_path_def d by (simp add: ls)
  qed
qed

section \<open>Components of cleaned paths\<close>

text \<open>What \<open>clean_comps\<close> returns: leading \<open>..\<close> only in a relative path, and plain components.\<close>

definition clean_list :: "bool \<Rightarrow> string list \<Rightarrow> bool" where
  "clean_list r cs \<longleftrightarrow> (\<exists>k ps. cs = replicate k ''..'' @ ps \<and> (\<forall>c \<in> set ps. plain c) \<and> (r \<longrightarrow> k = 0))"

lemma split_on_append_any: "split_on c (s @ c # t) = split_on c s @ split_on c t"
proof (induction s)
  case (Cons x s)
  have "split_on c (s @ c # t) = hd (split_on c s) # (tl (split_on c s) @ split_on c t)"
    using Cons.IH by (cases "split_on c s") auto
  then show ?case by (cases "split_on c s") auto
qed simp

lemma clean_list_step:
  assumes "clean_list r st" "slash \<notin> set c"
  shows "clean_list r (clean_step r st c)"
proof -
  from assms(1) obtain k ps where st: "st = replicate k ''..'' @ ps" "\<forall>c \<in> set ps. plain c" "r \<longrightarrow> k = 0"
    by (auto simp: clean_list_def)
  consider "c = [] \<or> c = ''.''" | (up) "c = ''..''" | (down) "plain c" using assms(2) by (auto simp: plain_def)
  then show ?thesis
  proof cases
    case up
    show ?thesis
    proof (cases "ps = []")
      case True
      have last: "k > 0 \<Longrightarrow> last (replicate k ''..'') = ''..''" by (cases k) simp_all
      have "\<not> r \<Longrightarrow> clean_list r (replicate (Suc k) ''..'' @ [])"
        unfolding clean_list_def by (intro exI [of _ "Suc k"] exI [of _ "[]"]) simp
      then have "\<not> r \<Longrightarrow> clean_list r (replicate k ''..'' @ [''..''])"
        by (simp add: replicate_append_same)
      then show ?thesis using up True st last assms(1) by auto
    next
      case False
      then have "last ps \<in> set ps" by simp
      with st(2) have "plain (last ps)" by blast
      then have "last st \<noteq> ''..''" using False st(1) by (simp add: plain_def)
      then have "clean_step r st c = replicate k ''..'' @ butlast ps"
        using up False st(1) by (simp add: butlast_append)
      then show ?thesis using st(2,3) unfolding clean_list_def by (metis in_set_butlastD)
    qed
  next
    case down
    then have "clean_step r st c = replicate k ''..'' @ ps @ [c]" using st by (simp add: plain_def)
    moreover have "\<forall>x \<in> set (ps @ [c]). plain x" using st(2) down by simp
    ultimately show ?thesis using st(3) unfolding clean_list_def by blast
  qed (use assms in auto)
qed

lemma clean_list_foldl:
  "clean_list r st \<Longrightarrow> \<forall>c \<in> set cs. slash \<notin> set c \<Longrightarrow> clean_list r (foldl (clean_step r) st cs)"
  by (induction cs arbitrary: st) (simp_all add: clean_list_step del: clean_step.simps)

lemma clean_list_comps: "clean_list (s \<noteq> [] \<and> hd s = slash) (clean_comps s)"
  unfolding clean_comps_def using split_on_parts
  by (intro clean_list_foldl) (auto simp: clean_list_def)

lemma foldl_clean_list:
  assumes "clean_list r cs"
  shows "foldl (clean_step r) [] cs = cs"
proof -
  from assms obtain k ps where cs: "cs = replicate k ''..'' @ ps" "\<forall>c \<in> set ps. plain c" "r \<longrightarrow> k = 0"
    by (auto simp: clean_list_def)
  have "foldl (clean_step r) (replicate j ''..'') (replicate k ''..'') = replicate (j + k) ''..''" if "k = 0 \<or> \<not> r" for j
    using that
  proof (induction k arbitrary: j)
    case (Suc k)
    have "clean_step r (replicate j ''..'') ''..'' = replicate (Suc j) ''..''"
      using Suc.prems by (cases j) (auto simp: replicate_append_same)
    then show ?case using Suc.IH [of "Suc j"] Suc.prems by (simp del: clean_step.simps)
  qed simp
  from this [of 0] cs(3) have "foldl (clean_step r) [] (replicate k ''..'') = replicate k ''..''" by auto
  with cs(1) foldl_clean_plain [OF cs(2)] show ?thesis by simp
qed

lemma clean_list_no_slash: "clean_list r cs \<Longrightarrow> c \<in> set cs \<Longrightarrow> slash \<notin> set c \<and> c \<noteq> []"
proof -
  assume a: "clean_list r cs" "c \<in> set cs"
  then obtain k ps where "cs = replicate k ''..'' @ ps" "\<forall>c \<in> set ps. plain c" by (auto simp: clean_list_def)
  with a(2) consider "c = ''..''" | "plain c" by (auto simp del: replicate.simps)
  then show ?thesis by cases (simp_all add: plain_def)
qed

lemma join_hd_not_slash: "clean_list r cs \<Longrightarrow> cs \<noteq> [] \<Longrightarrow> join ''/'' cs \<noteq> [] \<and> hd (join ''/'' cs) \<noteq> slash"
proof -
  assume a: "clean_list r cs" "cs \<noteq> []"
  then have h: "hd cs \<noteq> []" "slash \<notin> set (hd cs)" using clean_list_no_slash [of r cs "hd cs"] by simp_all
  then have "hd (hd cs) \<noteq> slash" by (cases "hd cs") auto
  with h a show ?thesis by (simp add: join_ne hd_join)
qed

lemma comps_join_list: "clean_list r cs \<Longrightarrow> clean_comps (if r then slash # join ''/'' cs else join ''/'' cs) = cs"
proof (cases "cs = []")
  case False
  assume c: "clean_list r cs"
  have sp: "split_on slash (join ''/'' cs) = cs"
    using False clean_list_no_slash [OF c] by (intro split_on_join) auto
  have "split_on slash (slash # join ''/'' cs) = [] # cs" using sp split_on_append [of slash "[]"] by simp
  with c False sp join_hd_not_slash [OF c False] foldl_clean_list [OF c] show ?thesis
    by (auto simp: clean_comps_def)
qed (auto simp: clean_comps_def)

lemma clean_comps_clean [simp]: "clean_comps (clean s) = clean_comps s"
proof -
  let ?r = "s \<noteq> [] \<and> hd s = slash" and ?cs = "clean_comps s"
  note c = clean_list_comps [of s]
  show ?thesis
  proof (cases "?r \<or> ?cs \<noteq> []")
    case True
    then have "clean s = (if ?r then slash # join ''/'' ?cs else join ''/'' ?cs)"
      by (auto simp: clean_def Let_def)
    with comps_join_list [OF c] show ?thesis by simp
  next
    case False
    then have "clean s = ''.''" by (auto simp: clean_def)
    with False show ?thesis by (simp add: clean_comps_def)
  qed
qed

lemma clean_comps_append:
  assumes "a \<noteq> []"
  shows "clean_comps (a @ slash # b) = foldl (clean_step (hd a = slash)) (clean_comps a) (split_on slash b)"
  using assms by (simp add: clean_comps_def split_on_append_any)

lemma comps_join_plain:
  assumes "cs \<noteq> []" "\<forall>c \<in> set cs. plain c"
  shows "clean_comps (join_path [a, join ''/'' cs]) = clean_comps a @ cs"
proof (cases "a = []")
  case True
  have "join ''/'' cs \<noteq> []" using assms by (simp add: join_ne plain_ne)
  with True assms clean_comps_plain [OF assms] show ?thesis
    by (simp add: join_path_def) (simp add: clean_comps_def)
next
  case False
  have "join ''/'' cs \<noteq> []" using assms by (simp add: join_ne plain_ne)
  with False have "join_path [a, join ''/'' cs] = clean (a @ slash # join ''/'' cs)"
    by (simp add: join_path_def)
  with False assms clean_comps_append [OF False, of "join ''/'' cs"] foldl_clean_plain [OF assms(2)]
  show ?thesis by (simp add: split_join_plain)
qed

lemma comps_join_one: "plain c \<Longrightarrow> clean_comps (join_path [a, c]) = clean_comps a @ [c]"
  using comps_join_plain [of "[c]" a] by simp

lemma join_path_clean: "\<exists>s. join_path [a, join ''/'' cs] = clean s" if "cs \<noteq> []" "\<forall>c \<in> set cs. plain c"
proof -
  have "join ''/'' cs \<noteq> []" using that by (simp add: join_ne plain_ne)
  then show ?thesis by (auto simp: join_path_def)
qed

lemma clean_list_butlast: "clean_list r (cs @ [f]) \<Longrightarrow> plain f \<Longrightarrow> clean_list r cs"
proof -
  assume a: "clean_list r (cs @ [f])" "plain f"
  then obtain k ps where k: "cs @ [f] = replicate k ''..'' @ ps" "\<forall>c \<in> set ps. plain c" "r \<longrightarrow> k = 0"
    by (auto simp: clean_list_def)
  have "ps \<noteq> []"
  proof
    assume "ps = []"
    then have "f \<in> set (replicate k ''..'')" using k(1) by (metis append_Nil2 in_set_conv_decomp)
    with a(2) show False by (auto simp: plain_def)
  qed
  then have "cs = replicate k ''..'' @ butlast ps" using k(1) by (metis butlast_append butlast_snoc)
  with k(2,3) show ?thesis unfolding clean_list_def by (metis in_set_butlastD)
qed

lemma clean_comps_slash: "a \<noteq> [] \<Longrightarrow> clean_comps (a @ ''/'') = clean_comps a"
  using clean_comps_append [of a "[]"] by simp

lemma last_slash_none: "slash \<notin> set f \<Longrightarrow> last_slash_split f = ([], f)"
proof -
  assume "slash \<notin> set f"
  then have n: "slash \<notin> set (rev f)" by simp
  then have "dropWhile (\<lambda>c. c \<noteq> slash) (rev f) = []" by (simp only: dropWhile_eq_Nil) metis
  with takeWhile_all [OF n] show ?thesis unfolding last_slash_split_def by (simp only: rev_rev_ident rev.simps)
qed

lemma last_split_clean:
  assumes "clean_comps t = cs @ [f]" "plain f"
  shows "\<exists>pre. last_slash_split (clean t) = (pre, f) \<and> clean_comps pre = cs \<and> clean t = pre @ f"
proof -
  let ?r = "t \<noteq> [] \<and> hd t = slash"
  have cl: "clean_list ?r (cs @ [f])" using clean_list_comps [of t] assms(1) by simp
  then have cl': "clean_list ?r cs" using clean_list_butlast assms(2) by blast
  have t: "clean t = (if ?r then slash # join ''/'' (cs @ [f]) else join ''/'' (cs @ [f]))"
    using assms(1) by (simp add: clean_def Let_def)
  have f: "slash \<notin> set f" using assms(2) by (simp add: plain_def)
  show ?thesis
  proof (cases "cs = []")
    case True
    show ?thesis
    proof (cases ?r)
      case r: True
      have "last_slash_split ([] @ slash # f) = ([] @ ''/'', f)" by (rule last_slash_split_append [OF f])
      with r True t show ?thesis by (simp add: clean_comps_def)
    next
      case r: False
      with True t last_slash_none [OF f] show ?thesis by (simp add: clean_comps_def)
    qed
  next
    case False
    let ?p = "if ?r then slash # join ''/'' cs else join ''/'' cs"
    have "join ''/'' (cs @ [f]) = join ''/'' cs @ slash # f"
      using False by (induction cs rule: induct_list012) auto
    then have "clean t = ?p @ slash # f" using t by simp
    moreover have "?p \<noteq> []" using join_hd_not_slash [OF cl' False] by simp
    ultimately show ?thesis
      using last_slash_split_append [OF f, of ?p] comps_join_list [OF cl'] clean_comps_slash [of ?p] by auto
  qed
qed

lemma comps_dir_path:
  assumes "clean_comps t = cs @ [f]" "plain f"
  shows "clean_comps (dir_path (clean t)) = cs"
  using last_split_clean [OF assms] by (auto simp: dir_path_def)

lemma base_path_clean:
  assumes "clean_comps t = cs @ [f]" "plain f"
  shows "base_path (clean t) = f"
proof -
  obtain pre where p: "last_slash_split (clean t) = (pre, f)" "clean t = pre @ f"
    using last_split_clean [OF assms] by blast
  have f: "f \<noteq> []" "last f \<noteq> slash" using assms(2) last_in_set [of f] unfolding plain_def by metis+
  then have "dropWhile (\<lambda>c. c = slash) (rev (pre @ f)) = rev (pre @ f)"
    by (cases f rule: rev_cases) auto
  with p f show ?thesis by (simp add: base_path_def)
qed

end
