(* ===== verification/Book.thy ===== *)
theory Book
  imports Naming Paths
begin

text \<open>
  \<^verbatim>\<open>internal/book/book.go\<close> and \<^verbatim>\<open>immutable.go\<close>: the book record and the small operations on
  it. Field names are the source's. A Go map is an association list (one iteration order of
  the map), a \<open>time.Time\<close> is its distance in nanoseconds from Go's zero time, and a \<open>float64\<close>
  is an exact rational or one of the three values that are not numbers to compare with.
\<close>

type_synonym time = int
type_synonym bytes = string

datatype float64 = Fin rat | PosInf | NegInf | NaN

record author =
  AID :: int
  AName :: string
  ASortName :: string

record series_ref =
  SID :: int
  SName :: string
  SIndex :: string

record contributor =
  CName :: string
  CRole :: string

record bib =
  Title :: string
  SortTitle :: string
  Authors :: "author list"
  Series :: "series_ref option"
  Language :: string
  Publisher :: string
  Rights :: string
  Pubdate :: string
  Description :: string
  Subjects :: "string list"
  Contributors :: "contributor list"
  Identifiers :: "(string \<times> string) list"
  CoverPath :: string
  OpfSize :: int
  CoverSize :: int

record location =
  EpubPath :: string

definition loc_dir :: "location \<Rightarrow> string" where
  "loc_dir l = dir_path (EpubPath l)"

definition loc_filename :: "location \<Rightarrow> string" where
  "loc_filename l = base_path (EpubPath l)"

record meta =
  MID :: int
  DateAdded :: time
  DateModified :: time
  Status :: string
  Rating :: float64
  Tags :: "string list"

record book =
  Loc :: location
  Bib :: bib
  Meta :: meta
  EpubSize :: int

section \<open>Statuses\<close>

definition status_unread :: string where "status_unread = ''unread''"

definition status_reading :: string where "status_reading = ''reading''"

definition status_read :: string where "status_read = ''read''"

definition status_abandoned :: string where "status_abandoned = ''abandoned''"

definition default_status :: string where "default_status = status_unread"

definition statuses :: "string list" where
  "statuses = [status_unread, status_reading, status_read, status_abandoned]"

definition is_valid_status :: "string \<Rightarrow> bool" where
  "is_valid_status s \<longleftrightarrow> s \<in> set statuses"

definition status_list :: string where
  "status_list = join '', '' (butlast statuses) @ '', or '' @ last statuses"

lemmas status_defs = status_unread_def status_reading_def status_read_def status_abandoned_def
  default_status_def statuses_def

section \<open>Authors\<close>

definition unknown_author :: string where "unknown_author = ''Unknown''"

definition author_sep :: string where "author_sep = '' & ''"

definition join_authors :: "author list \<Rightarrow> string \<Rightarrow> string" where
  "join_authors as sep =
     (let names = filter (\<lambda>n. n \<noteq> []) (map AName as)
      in if names = [] then unknown_author else join sep names)"

section \<open>Construction\<close>

definition new_book :: "time \<Rightarrow> bib \<Rightarrow> meta \<Rightarrow> location \<Rightarrow> book" where
  "new_book now b m loc =
     \<lparr>Loc = loc, Bib = b,
      Meta = m\<lparr>DateAdded := (if DateAdded m = 0 then now else DateAdded m),
               DateModified := (if DateModified m = 0 then now else DateModified m),
               Status := (if Status m = [] then default_status else Status m)\<rparr>,
      EpubSize = 0\<rparr>"

fun first_of_seen :: "'k list \<Rightarrow> ('a \<Rightarrow> 'k) \<Rightarrow> 'a list \<Rightarrow> 'a list" where
  "first_of_seen seen key [] = []"
| "first_of_seen seen key (x # xs) =
     (if key x \<in> set seen then first_of_seen seen key xs
      else x # first_of_seen (key x # seen) key xs)"

definition first_of :: "'a list \<Rightarrow> ('a \<Rightarrow> 'k) \<Rightarrow> 'a list" where
  "first_of xs key = first_of_seen [] key xs"

definition has_series :: "book option \<Rightarrow> bool" where
  "has_series b = (case b of None \<Rightarrow> False | Some b \<Rightarrow> Series (Bib b) \<noteq> None)"

definition series_name :: "book option \<Rightarrow> string" where
  "series_name b = (case b of None \<Rightarrow> [] | Some b \<Rightarrow>
     (case Series (Bib b) of None \<Rightarrow> [] | Some s \<Rightarrow> SName s))"

definition series_index :: "book \<Rightarrow> string" where
  "series_index b = (case Series (Bib b) of None \<Rightarrow> [] | Some s \<Rightarrow> SIndex s)"

section \<open>First occurrences\<close>

lemma set_first_of_seen:
  "key ` set (first_of_seen seen key xs) = key ` set xs - set seen"
  by (induction seen key xs rule: first_of_seen.induct) auto

lemma subseq_first_of_seen: "subseq (first_of_seen seen key xs) xs"
  by (induction seen key xs rule: first_of_seen.induct) auto

lemma distinct_first_of_seen: "distinct (map key (first_of_seen seen key xs))"
proof (induction seen key xs rule: first_of_seen.induct)
  case (2 seen key x xs)
  then show ?case using set_first_of_seen [of key "key x # seen" xs] by auto
qed simp

lemma first_of_seen_id:
  "distinct (map key xs) \<Longrightarrow> key ` set xs \<inter> set seen = {} \<Longrightarrow> first_of_seen seen key xs = xs"
  by (induction seen key xs rule: first_of_seen.induct) auto

lemma distinct_first_of [simp]: "distinct (map key (first_of xs key))"
  by (simp add: first_of_def distinct_first_of_seen)

lemma keys_first_of: "key ` set (first_of xs key) = key ` set xs"
  by (simp add: first_of_def set_first_of_seen)

lemma subseq_first_of: "subseq (first_of xs key) xs"
  by (simp add: first_of_def subseq_first_of_seen)

lemma first_of_id: "distinct (map key xs) \<Longrightarrow> first_of xs key = xs"
  by (simp add: first_of_def first_of_seen_id)

lemma first_of_ne: "xs \<noteq> [] \<Longrightarrow> first_of xs key \<noteq> []"
  using keys_first_of [of key xs] by auto

lemma distinct_first_of_ident [simp]: "distinct (first_of xs (\<lambda>x. x))"
  using distinct_first_of [of "\<lambda>x. x" xs] by simp

lemma join_authors_ne: "sep \<noteq> [] \<Longrightarrow> join_authors as sep \<noteq> []"
proof -
  assume "sep \<noteq> []"
  let ?n = "filter (\<lambda>n. n \<noteq> []) (map AName as)"
  have "?n \<noteq> [] \<Longrightarrow> hd ?n \<noteq> []" using hd_in_set [of ?n] by simp
  then show ?thesis by (simp add: join_authors_def Let_def unknown_author_def join_ne)
qed

end
