(* ===== verification/Layout.thy ===== *)
theory Layout
  imports Book
begin

text \<open>
  \<^verbatim>\<open>pkg/library/internal/store/path.go\<close>: where a book lives below the library root and what its
  epub is called. The lemmas show that a location has exactly three plain components, so it
  never leaves the root, and that the id written into the directory name is read back.
\<close>

definition epub_filename :: "author list \<Rightarrow> string \<Rightarrow> string" where
  "epub_filename as t =
     (let fat_title = for_fat t
      in if length as = 0 then fat_title @ ''.epub''
         else fat_title @ '' - '' @ for_fat (join_authors as author_sep) @ ''.epub'')"

definition author_dir_name :: "author list \<Rightarrow> string" where
  "author_dir_name as = path_safe (join_authors as author_sep)"

definition title_dir_name :: "string \<Rightarrow> int \<Rightarrow> string" where
  "title_dir_name t i = path_safe t @ '' ('' @ dec_int i @ '')''"

definition canonical_dir :: "author list \<Rightarrow> string \<Rightarrow> int \<Rightarrow> string" where
  "canonical_dir as t i = join_path [author_dir_name as, title_dir_name t i]"

definition layout :: "author list \<Rightarrow> string \<Rightarrow> int \<Rightarrow> location" where
  "layout as t i =
     (let lib_path = canonical_dir as t i; filename = epub_filename as t
      in \<lparr>EpubPath = join_path [lib_path, filename]\<rparr>)"

definition last_index :: "string \<Rightarrow> string \<Rightarrow> nat option" where
  "last_index sub s = find (\<lambda>i. prefix sub (drop i s)) (rev [0..<Suc (length s)])"

definition id_from_path :: "string \<Rightarrow> int option" where
  "id_from_path library_path =
     (let base = base_path library_path
      in if \<not> suffix '')'' base then None
         else (case last_index '' ('' base of
             None \<Rightarrow> None
           | Some open_at \<Rightarrow>
               (case parse_int64 (drop (open_at + 2) (take (length base - 1) base)) of
                   None \<Rightarrow> None
                 | Some i \<Rightarrow> if i \<le> 0 then None else Some i)))"

section \<open>Components\<close>

lemma component_ok_plain: "component_ok s \<Longrightarrow> plain s"
  by (simp add: component_ok_def plain_def)

lemma plain_author_dir: "plain (author_dir_name as)"
  by (simp add: author_dir_name_def component_ok_plain path_safe_ok)

lemma dec_int_no_slash: "c \<in> set (dec_int i) \<Longrightarrow> is_digit c \<or> c = CHR ''-''"
  by (auto simp: dec_int_def dest: dec_nat_digits split: if_splits)

lemma dec_int_not: "slash \<notin> set (dec_int i)" "CHR '' '' \<notin> set (dec_int i)"
  using dec_int_no_slash [of slash i] dec_int_no_slash [of "CHR '' ''" i] by auto

lemma plain_title_dir: "plain (title_dir_name t i)"
  using path_safe_no_slash [of t] dec_int_not [of i]
  by (auto simp: plain_def title_dir_name_def append_eq_Cons_conv)

lemma for_fat_no_slash: "slash \<notin> set (for_fat s)"
  using for_fat_ok by (simp add: component_ok_def)

lemma plain_epub_filename: "plain (epub_filename as t)"
  using for_fat_no_slash [of t] for_fat_no_slash [of "join_authors as author_sep"]
  by (auto simp: plain_def epub_filename_def Let_def append_eq_Cons_conv)

lemma canonical_dir_eq: "canonical_dir as t i = join ''/'' [author_dir_name as, title_dir_name t i]"
  unfolding canonical_dir_def by (rule join_path_plain) (simp_all add: plain_author_dir plain_title_dir)

lemma layout_path:
  "EpubPath (layout as t i) =
     join ''/'' [author_dir_name as, title_dir_name t i, epub_filename as t]"
proof -
  have p: "\<forall>c \<in> set [author_dir_name as, title_dir_name t i, epub_filename as t]. plain c"
    by (simp add: plain_author_dir plain_title_dir plain_epub_filename)
  have ne: "author_dir_name as \<noteq> []" "epub_filename as t \<noteq> []"
    using plain_author_dir plain_epub_filename by (auto simp: plain_def)
  have "EpubPath (layout as t i) =
      clean (join ''/'' [author_dir_name as, title_dir_name t i, epub_filename as t])"
    using ne by (simp add: layout_def Let_def join_path_def canonical_dir_eq)
  then show ?thesis using clean_plain [OF _ p] by simp
qed

lemma layout_dir: "loc_dir (layout as t i) = canonical_dir as t i"
  using dir_path_plain [of "[author_dir_name as, title_dir_name t i]" "epub_filename as t"]
  by (simp add: loc_dir_def layout_path canonical_dir_eq plain_author_dir plain_title_dir plain_epub_filename)

lemma layout_filename: "loc_filename (layout as t i) = epub_filename as t"
  using base_path_plain [of "epub_filename as t" "[author_dir_name as, title_dir_name t i]"]
  by (simp add: loc_filename_def layout_path plain_epub_filename)

lemma layout_split:
  "split_on slash (EpubPath (layout as t i)) = [author_dir_name as, title_dir_name t i, epub_filename as t]"
  unfolding layout_path
  by (rule split_join_plain) (simp_all add: plain_author_dir plain_title_dir plain_epub_filename)

section \<open>Reading the id back\<close>

lemma last_index_last:
  assumes "\<And>i. length a < i \<Longrightarrow> \<not> prefix sub (drop i (a @ sub @ b))"
  shows "last_index sub (a @ sub @ b) = Some (length a)"
proof -
  let ?s = "a @ sub @ b"
  have at: "prefix sub (drop (length a) ?s)" by simp
  have split: "[0..<Suc (length ?s)] = [0..<length a] @ length a # [Suc (length a)..<Suc (length ?s)]"
    using upt_add_eq_append [of 0 "length a" "Suc (length (sub @ b))"]
      upt_conv_Cons [of "length a" "length a + Suc (length (sub @ b))"] by simp
  have none: "find (\<lambda>i. prefix sub (drop i ?s)) (rev [Suc (length a)..<Suc (length ?s)]) = None"
  proof -
    have "\<forall>i \<in> set (rev [Suc (length a)..<Suc (length ?s)]). \<not> prefix sub (drop i ?s)"
      using assms by (metis Suc_le_eq atLeastLessThan_iff set_rev set_upt)
    then show ?thesis unfolding find_None_iff by blast
  qed
  have "find P (xs @ y # ys) = Some y" if "find P xs = None" "P y" for P :: "nat \<Rightarrow> bool" and xs y ys
    using that by (induction xs) (auto split: if_splits)
  from this [OF none at] show ?thesis unfolding last_index_def split by simp
qed

lemma no_open_in_digits:
  assumes "length a < i"
  shows "\<not> prefix '' ('' (drop i (a @ '' ('' @ dec_int n @ '')''))"
proof -
  obtain k where k: "i = Suc (length a + k)" using assms less_imp_Suc_add by blast
  have "set (drop i (a @ '' ('' @ dec_int n @ '')'')) \<subseteq> set (''('' @ dec_int n @ '')'')"
    unfolding k by (auto dest: in_set_dropD)
  then have "CHR '' '' \<notin> set (drop i (a @ '' ('' @ dec_int n @ '')''))"
    using dec_int_not(2) by auto
  then show ?thesis
    using set_mono_prefix [of "'' (''" "drop i (a @ '' ('' @ dec_int n @ '')'')"]
    by (metis in_mono list.set_intros(1))
qed

lemma id_from_title_dir:
  assumes "0 < i" "in_int64 i"
  shows "base_path (canonical_dir as t i) = title_dir_name t i"
    and "id_from_path (canonical_dir as t i) = Some i"
proof -
  show b: "base_path (canonical_dir as t i) = title_dir_name t i"
    using base_path_plain [of "title_dir_name t i" "[author_dir_name as]"]
    by (simp add: canonical_dir_eq plain_title_dir)
  have "last_index '' ('' (title_dir_name t i) = Some (length (path_safe t))"
    unfolding title_dir_name_def by (rule last_index_last) (rule no_open_in_digits)
  moreover have "drop (length (path_safe t) + 2)
      (take (length (title_dir_name t i) - 1) (title_dir_name t i)) = dec_int i"
    by (simp add: title_dir_name_def)
  moreover have "suffix '')'' (title_dir_name t i)"
    by (simp add: title_dir_name_def suffix_def)
  ultimately show "id_from_path (canonical_dir as t i) = Some i"
    using assms by (simp add: id_from_path_def b parse_int64_dec_int)
qed

text \<open>The canonical place of a book is always three directory levels below the library's root,
  <author>/<title> (<id>)/<file>.epub, whatever characters its authors and title hold, so no metadata
  can name a file outside the root or in another book's directory.\<close>

theorem layout_three_levels:
  "split_on slash (EpubPath (layout as t i)) = [author_dir_name as, title_dir_name t i, epub_filename as t] \<and>
   plain (author_dir_name as) \<and> plain (title_dir_name t i) \<and> plain (epub_filename as t) \<and>
   loc_dir (layout as t i) = canonical_dir as t i \<and> loc_filename (layout as t i) = epub_filename as t"
  using layout_split layout_dir layout_filename plain_author_dir plain_title_dir plain_epub_filename by simp

text \<open>C40: the id in a canonical directory's name is read back by \<^verbatim>\<open>IDFromPath\<close>, even when the title
  itself ends in a parenthesised number.\<close>

theorem id_from_layout: "0 < i \<Longrightarrow> in_int64 i \<Longrightarrow> id_from_path (loc_dir (layout as t i)) = Some i"
  unfolding layout_dir by (rule id_from_title_dir)

theorem id_from_layout_witness:
  "id_from_path (loc_dir (layout [\<lparr>AID = 0, AName = ''Ann'', ASortName = []\<rparr>] ''Vol (7)'' 12)) = Some 12"
  by (rule id_from_layout) (simp_all add: in_int64_def)

end
