(* ===== verification/Edits.thy ===== *)
theory Edits
  imports Book
begin

text \<open>
  \<^verbatim>\<open>internal/book/edits.go\<close>: a partial update of a book and its validation. A nil pointer of
  the source is \<open>None\<close>. A validator returns \<open>None\<close> where the source returns the empty message,
  and a value of \<open>edit_msg\<close> (one constructor per message format, carrying its arguments) where
  it returns text. Whether a language tag is recognised is decided by golang.org/x/text, which is
  not part of the repository: it is the parameter \<open>lang_ok\<close>.
\<close>

record edits =
  EdTitle :: "string option"
  EdSortTitle :: "string option"
  EdDescription :: "string option"
  EdLanguage :: "string option"
  EdPublisher :: "string option"
  EdRights :: "string option"
  EdAuthors :: "author list option"
  EdSeries :: "string option"
  EdSeriesIndex :: "string option"
  EdSubjects :: "string list option"
  EdContributors :: "contributor list option"
  EdCover :: "bytes option"
  EdStatus :: "string option"
  EdRating :: "float64 option"
  EdTags :: "string list option"

definition no_edits :: edits where
  "no_edits = \<lparr>EdTitle = None, EdSortTitle = None, EdDescription = None, EdLanguage = None,
     EdPublisher = None, EdRights = None, EdAuthors = None, EdSeries = None, EdSeriesIndex = None,
     EdSubjects = None, EdContributors = None, EdCover = None, EdStatus = None, EdRating = None,
     EdTags = None\<rparr>"

text \<open>\<open>math.Round\<close> rounds half away from zero.\<close>

definition go_round :: "rat \<Rightarrow> int" where
  "go_round q = (if q < 0 then - \<lfloor>- q + 1 / 2\<rfloor> else \<lfloor>q + 1 / 2\<rfloor>)"

fun round2 :: "float64 \<Rightarrow> float64" where
  "round2 (Fin q) = Fin (of_int (go_round (q * 100)) / 100)"
| "round2 x = x"

definition normalized :: "edits \<Rightarrow> edits" where
  "normalized e = e\<lparr>EdRating := map_option round2 (EdRating e)\<rparr>"

definition has_bib_edits :: "edits \<Rightarrow> bool" where
  "has_bib_edits e \<longleftrightarrow> EdTitle e \<noteq> None \<or> EdSortTitle e \<noteq> None \<or> EdDescription e \<noteq> None \<or>
     EdLanguage e \<noteq> None \<or> EdPublisher e \<noteq> None \<or> EdRights e \<noteq> None \<or>
     EdAuthors e \<noteq> None \<or> EdSeries e \<noteq> None \<or> EdSeriesIndex e \<noteq> None \<or>
     EdSubjects e \<noteq> None \<or> EdContributors e \<noteq> None"

definition has_cover_edit :: "edits \<Rightarrow> bool" where
  "has_cover_edit e \<longleftrightarrow> EdCover e \<noteq> None"

section \<open>Messages\<close>

datatype edit_msg =
    InvalidStatus string
  | InvalidRating float64
  | TitleEmpty
  | AuthorsRequired
  | AuthorEmpty nat
  | AuthorDuplicates nat string
  | TagEmpty nat
  | TagUnnameable nat string
  | TagDuplicates nat string
  | SubjectDuplicates nat string
  | ContributorDuplicates nat string
  | ContributorRoleDuplicates nat string string
  | LanguageEmpty
  | LanguageUnknown string
  | CoverEmpty
  | NoCoverToReplace
  | BadSeriesIndex string
  | IndexWhileClearing
  | NoSeriesForIndex

type_synonym field_error = "string \<times> edit_msg"

section \<open>Repeats\<close>

fun first_repeat_from :: "nat \<Rightarrow> 'k list \<Rightarrow> ('a \<Rightarrow> 'k) \<Rightarrow> 'a list \<Rightarrow> nat option" where
  "first_repeat_from i seen key [] = None"
| "first_repeat_from i seen key (x # xs) =
     (if key x \<in> set seen then Some i else first_repeat_from (Suc i) (key x # seen) key xs)"

definition first_repeat :: "'a list \<Rightarrow> ('a \<Rightarrow> 'k) \<Rightarrow> nat option" where
  "first_repeat xs key = first_repeat_from 0 [] key xs"

section \<open>Series positions\<close>

definition valid_series_index :: "string \<Rightarrow> bool" where
  "valid_series_index s \<longleftrightarrow> list_all (\<lambda>p. p \<noteq> [] \<and> list_all is_digit p) (split_on (CHR ''.'') s)"

section \<open>Validators\<close>

definition validate_status :: "edits \<Rightarrow> edit_msg option" where
  "validate_status e = (case EdStatus e of
      Some s \<Rightarrow> if \<not> is_valid_status s then Some (InvalidStatus s) else None
    | None \<Rightarrow> None)"

fun rating_bad :: "float64 \<Rightarrow> bool" where
  "rating_bad NaN = True"
| "rating_bad NegInf = True"
| "rating_bad PosInf = True"
| "rating_bad (Fin q) = (q < 0 \<or> q > 5)"

definition validate_rating :: "edits \<Rightarrow> edit_msg option" where
  "validate_rating e = (case EdRating e of
      None \<Rightarrow> None
    | Some r \<Rightarrow> if rating_bad r then Some (InvalidRating r) else None)"

definition validate_title :: "edits \<Rightarrow> edit_msg option" where
  "validate_title e = (case EdTitle e of
      Some t \<Rightarrow> if trim_space t = [] then Some TitleEmpty else None
    | None \<Rightarrow> None)"

fun empty_author :: "nat \<Rightarrow> author list \<Rightarrow> edit_msg option" where
  "empty_author i [] = None"
| "empty_author i (a # as) =
     (if trim_space (AName a) = [] then Some (AuthorEmpty (i + 1)) else empty_author (i + 1) as)"

definition validate_authors :: "edits \<Rightarrow> edit_msg option" where
  "validate_authors e = (case EdAuthors e of
      None \<Rightarrow> None
    | Some as \<Rightarrow>
        if length as = 0 then Some AuthorsRequired
        else (case empty_author 0 as of
            Some m \<Rightarrow> Some m
          | None \<Rightarrow>
            (case first_repeat as (\<lambda>a. trim_space (AName a)) of
                Some i \<Rightarrow> Some (AuthorDuplicates (i + 1) (trim_space (AName (as ! i))))
              | None \<Rightarrow> None)))"

fun bad_tag :: "nat \<Rightarrow> string list \<Rightarrow> edit_msg option" where
  "bad_tag i [] = None"
| "bad_tag i (t # ts) =
     (if trim_space t = [] then Some (TagEmpty (i + 1))
      else if names_nothing t then Some (TagUnnameable (i + 1) t)
      else bad_tag (i + 1) ts)"

definition validate_tags :: "edits \<Rightarrow> edit_msg option" where
  "validate_tags e = (case EdTags e of
      None \<Rightarrow> None
    | Some ts \<Rightarrow>
        (case bad_tag 0 ts of
            Some m \<Rightarrow> Some m
          | None \<Rightarrow>
            (case first_repeat ts trim_space of
                Some i \<Rightarrow> Some (TagDuplicates (i + 1) (trim_space (ts ! i)))
              | None \<Rightarrow> None)))"

definition validate_subjects :: "edits \<Rightarrow> edit_msg option" where
  "validate_subjects e = (case EdSubjects e of
      None \<Rightarrow> None
    | Some ss \<Rightarrow>
        (case first_repeat ss trim_space of
            Some i \<Rightarrow> Some (SubjectDuplicates (i + 1) (trim_space (ss ! i)))
          | None \<Rightarrow> None))"

definition validate_contributors :: "edits \<Rightarrow> edit_msg option" where
  "validate_contributors e = (case EdContributors e of
      None \<Rightarrow> None
    | Some cs \<Rightarrow>
        (case first_repeat cs (\<lambda>c. c) of
            None \<Rightarrow> None
          | Some i \<Rightarrow>
              if CRole (cs ! i) = [] then Some (ContributorDuplicates (i + 1) (CName (cs ! i)))
              else Some (ContributorRoleDuplicates (i + 1) (CName (cs ! i)) (CRole (cs ! i)))))"

definition validate_language :: "(string \<Rightarrow> bool) \<Rightarrow> edits \<Rightarrow> edit_msg option" where
  "validate_language lang_ok e = (case EdLanguage e of
      None \<Rightarrow> None
    | Some l \<Rightarrow>
        let v = trim_space l
        in if v = [] then Some LanguageEmpty
           else if \<not> lang_ok v then Some (LanguageUnknown l) else None)"

definition validate_cover :: "book \<Rightarrow> edits \<Rightarrow> edit_msg option" where
  "validate_cover b e = (case EdCover e of
      None \<Rightarrow> None
    | Some c \<Rightarrow>
        if length c = 0 then Some CoverEmpty
        else if CoverPath (Bib b) = [] then Some NoCoverToReplace else None)"

definition validate_series_index :: "book \<Rightarrow> edits \<Rightarrow> edit_msg option" where
  "validate_series_index b e = (case EdSeriesIndex e of
      None \<Rightarrow> None
    | Some i \<Rightarrow>
        if \<not> valid_series_index i then Some (BadSeriesIndex i)
        else if EdSeries e = Some [] then Some IndexWhileClearing
        else if EdSeries e = None \<and> Series (Bib b) = None then Some NoSeriesForIndex
        else None)"

definition validators :: "(string \<Rightarrow> bool) \<Rightarrow> edits \<Rightarrow> book \<Rightarrow> (string \<times> edit_msg option) list" where
  "validators lang_ok e b =
     [(''status'', validate_status e), (''rating'', validate_rating e),
      (''title'', validate_title e), (''authors'', validate_authors e),
      (''tags'', validate_tags e), (''subjects'', validate_subjects e),
      (''contributors'', validate_contributors e), (''language'', validate_language lang_ok e),
      (''cover'', validate_cover b e), (''series_index'', validate_series_index b e)]"

definition validate :: "(string \<Rightarrow> bool) \<Rightarrow> edits \<Rightarrow> book \<Rightarrow> field_error list option" where
  "validate lang_ok e b =
     (let ve = pick (\<lambda>(f, m). map_option (Pair f) m) (validators lang_ok e b)
      in if length ve = 0 then None else Some ve)"

section \<open>Rounding\<close>

lemma go_round_of_int [simp]: "go_round (of_int n) = n"
proof -
  have "\<lfloor>of_int m + 1 / 2 :: rat\<rfloor> = m" for m :: int by (rule floor_unique) simp_all
  from this [of n] this [of "- n"] show ?thesis by (simp add: go_round_def)
qed

lemma round2_idem [simp]: "round2 (round2 r) = round2 r"
  by (cases r) simp_all

lemma normalized_idem: "normalized (normalized e) = normalized e"
  by (simp add: normalized_def option.map_comp o_def)

lemma go_round_close: "\<bar>of_int (go_round q) - q\<bar> \<le> 1 / 2"
proof -
  have "of_int \<lfloor>q + 1 / 2\<rfloor> \<le> q + 1 / 2" "q + 1 / 2 < of_int \<lfloor>q + 1 / 2\<rfloor> + 1"
    "of_int \<lfloor>- q + 1 / 2\<rfloor> \<le> - q + 1 / 2" "- q + 1 / 2 < of_int \<lfloor>- q + 1 / 2\<rfloor> + 1"
    by linarith+
  then show ?thesis unfolding go_round_def by (auto simp: abs_if) linarith+
qed

section \<open>Repeats, characterised\<close>

lemma first_repeat_from_None:
  "first_repeat_from i seen key xs = None \<longleftrightarrow> distinct (map key xs) \<and> key ` set xs \<inter> set seen = {}"
  by (induction i seen key xs rule: first_repeat_from.induct) auto

lemma first_repeat_None: "first_repeat xs key = None \<longleftrightarrow> distinct (map key xs)"
  by (simp add: first_repeat_def first_repeat_from_None)

lemma first_repeat_from_Some:
  "first_repeat_from i seen key xs = Some j \<Longrightarrow>
   i \<le> j \<and> j - i < length xs \<and>
   (key (xs ! (j - i)) \<in> set seen \<or> key (xs ! (j - i)) \<in> key ` set (take (j - i) xs)) \<and>
   distinct (map key (take (j - i) xs)) \<and> key ` set (take (j - i) xs) \<inter> set seen = {}"
proof (induction i seen key xs rule: first_repeat_from.induct)
  case (2 i seen key x xs)
  show ?case
  proof (cases "key x \<in> set seen")
    case True
    with 2 show ?thesis by simp
  next
    case False
    with 2 have ih: "Suc i \<le> j \<and> j - Suc i < length xs \<and>
      (key (xs ! (j - Suc i)) \<in> set (key x # seen) \<or> key (xs ! (j - Suc i)) \<in> key ` set (take (j - Suc i) xs)) \<and>
      distinct (map key (take (j - Suc i) xs)) \<and> key ` set (take (j - Suc i) xs) \<inter> set (key x # seen) = {}"
      by simp
    then have "j - i = Suc (j - Suc i)" by linarith
    with ih False show ?thesis by auto
  qed
qed simp

lemma first_repeat_Some:
  assumes "first_repeat xs key = Some i"
  shows "i < length xs" "\<exists>j < i. key (xs ! j) = key (xs ! i)" "distinct (map key (take i xs))"
proof -
  from first_repeat_from_Some [OF assms [unfolded first_repeat_def]]
  have a: "i < length xs" "key (xs ! i) \<in> key ` set (take i xs)" "distinct (map key (take i xs))"
    by simp_all
  then show "i < length xs" "distinct (map key (take i xs))" by simp_all
  from a(2) show "\<exists>j < i. key (xs ! j) = key (xs ! i)"
    by (auto simp: in_set_conv_nth) (metis)
qed

section \<open>Validation, characterised\<close>

text \<open>What \<open>Validate\<close> promises: the condition on each field, with no order and no messages.\<close>

definition edits_ok :: "(string \<Rightarrow> bool) \<Rightarrow> edits \<Rightarrow> book \<Rightarrow> bool" where
  "edits_ok lang_ok e b \<longleftrightarrow>
     (\<forall>s. EdStatus e = Some s \<longrightarrow> s \<in> {''unread'', ''reading'', ''read'', ''abandoned''}) \<and>
     (\<forall>r. EdRating e = Some r \<longrightarrow> (\<exists>q. r = Fin q \<and> 0 \<le> q \<and> q \<le> 5)) \<and>
     (\<forall>t. EdTitle e = Some t \<longrightarrow> trim_space t \<noteq> []) \<and>
     (\<forall>as. EdAuthors e = Some as \<longrightarrow> as \<noteq> [] \<and> (\<forall>a \<in> set as. trim_space (AName a) \<noteq> []) \<and>
        distinct (map (\<lambda>a. trim_space (AName a)) as)) \<and>
     (\<forall>ts. EdTags e = Some ts \<longrightarrow>
        (\<forall>t \<in> set ts. trim_space t \<noteq> [] \<and> path_component t \<noteq> []) \<and> distinct (map trim_space ts)) \<and>
     (\<forall>ss. EdSubjects e = Some ss \<longrightarrow> distinct (map trim_space ss)) \<and>
     (\<forall>cs. EdContributors e = Some cs \<longrightarrow> distinct cs) \<and>
     (\<forall>l. EdLanguage e = Some l \<longrightarrow> trim_space l \<noteq> [] \<and> lang_ok (trim_space l)) \<and>
     (\<forall>c. EdCover e = Some c \<longrightarrow> c \<noteq> [] \<and> CoverPath (Bib b) \<noteq> []) \<and>
     (\<forall>i. EdSeriesIndex e = Some i \<longrightarrow> valid_series_index i \<and> EdSeries e \<noteq> Some [] \<and>
        (EdSeries e = None \<longrightarrow> Series (Bib b) \<noteq> None))"

lemma empty_author_None: "empty_author i as = None \<longleftrightarrow> (\<forall>a \<in> set as. trim_space (AName a) \<noteq> [])"
  by (induction i as rule: empty_author.induct) auto

lemma bad_tag_None:
  "bad_tag i ts = None \<longleftrightarrow> (\<forall>t \<in> set ts. trim_space t \<noteq> [] \<and> \<not> names_nothing t)"
  by (induction i ts rule: bad_tag.induct) auto

lemma rating_ok: "\<not> rating_bad r \<longleftrightarrow> (\<exists>q. r = Fin q \<and> 0 \<le> q \<and> q \<le> 5)"
  by (cases r) auto

lemma validate_status_None:
  "validate_status e = None \<longleftrightarrow>
     (\<forall>s. EdStatus e = Some s \<longrightarrow> s \<in> {''unread'', ''reading'', ''read'', ''abandoned''})"
  by (auto simp: validate_status_def is_valid_status_def status_defs split: option.split)

lemma validate_rating_None:
  "validate_rating e = None \<longleftrightarrow> (\<forall>r. EdRating e = Some r \<longrightarrow> (\<exists>q. r = Fin q \<and> 0 \<le> q \<and> q \<le> 5))"
  by (simp add: validate_rating_def rating_ok [symmetric] split: option.split)

lemma validate_title_None:
  "validate_title e = None \<longleftrightarrow> (\<forall>t. EdTitle e = Some t \<longrightarrow> trim_space t \<noteq> [])"
  by (simp add: validate_title_def split: option.split)

lemma validate_authors_None:
  "validate_authors e = None \<longleftrightarrow> (\<forall>as. EdAuthors e = Some as \<longrightarrow> as \<noteq> [] \<and>
     (\<forall>a \<in> set as. trim_space (AName a) \<noteq> []) \<and> distinct (map (\<lambda>a. trim_space (AName a)) as))"
  using empty_author_None [of 0] first_repeat_None [of _ "\<lambda>a. trim_space (AName a)"]
  by (cases "EdAuthors e") (simp_all add: validate_authors_def, fastforce split: option.splits)

lemma validate_tags_None:
  "validate_tags e = None \<longleftrightarrow> (\<forall>ts. EdTags e = Some ts \<longrightarrow>
     (\<forall>t \<in> set ts. trim_space t \<noteq> [] \<and> path_component t \<noteq> []) \<and> distinct (map trim_space ts))"
  unfolding names_nothing_def [symmetric]
  using bad_tag_None [of 0] first_repeat_None [of _ trim_space]
  by (cases "EdTags e") (simp_all add: validate_tags_def, fastforce split: option.splits)

lemma validate_subjects_None:
  "validate_subjects e = None \<longleftrightarrow> (\<forall>ss. EdSubjects e = Some ss \<longrightarrow> distinct (map trim_space ss))"
  by (auto simp: validate_subjects_def first_repeat_None [symmetric] split: option.split)

lemma validate_contributors_None:
  "validate_contributors e = None \<longleftrightarrow> (\<forall>cs. EdContributors e = Some cs \<longrightarrow> distinct cs)"
proof (cases "EdContributors e")
  case (Some cs)
  show ?thesis
    using first_repeat_None [of cs "\<lambda>c. c"]
    by (cases "first_repeat cs (\<lambda>c. c)") (simp_all add: validate_contributors_def Some)
qed (simp add: validate_contributors_def)

lemma validate_language_None:
  "validate_language lang_ok e = None \<longleftrightarrow>
     (\<forall>l. EdLanguage e = Some l \<longrightarrow> trim_space l \<noteq> [] \<and> lang_ok (trim_space l))"
  by (simp add: validate_language_def Let_def split: option.split)

lemma validate_cover_None:
  "validate_cover b e = None \<longleftrightarrow> (\<forall>c. EdCover e = Some c \<longrightarrow> c \<noteq> [] \<and> CoverPath (Bib b) \<noteq> [])"
  by (simp add: validate_cover_def split: option.split)

lemma validate_series_index_None:
  "validate_series_index b e = None \<longleftrightarrow>
     (\<forall>i. EdSeriesIndex e = Some i \<longrightarrow> valid_series_index i \<and> EdSeries e \<noteq> Some [] \<and>
        (EdSeries e = None \<longrightarrow> Series (Bib b) \<noteq> None))"
  by (auto simp: validate_series_index_def split: option.split)

lemmas validators_None = validate_status_None validate_rating_None validate_title_None
  validate_authors_None validate_tags_None validate_subjects_None validate_contributors_None
  validate_language_None validate_cover_None validate_series_index_None

lemma validate_None_all: "validate lang_ok e b = None \<longleftrightarrow> (\<forall>v \<in> set (validators lang_ok e b). snd v = None)"
  by (simp add: validate_def Let_def pick_Nil_iff case_prod_beta)

lemma validate_None: "validate lang_ok e b = None \<longleftrightarrow> edits_ok lang_ok e b"
  unfolding validate_None_all edits_ok_def validators_def
  by (simp add: validators_None conj_assoc)

text \<open>\<^verbatim>\<open>Validate\<close> accepts exactly the edits whose every set field meets its condition: a known
  status, a finite rating from 0 to 5, non-blank title and author names, no repeats up to surrounding
  space, taggable tags, a recognised language, a cover only where one is to be replaced, a series index
  only where there is a series and only in the grammar of indices.\<close>

theorem validate_accepts: "validate lang_ok e b = None \<longleftrightarrow> edits_ok lang_ok e b"
  by (rule validate_None)

end
