(* ===== verification/Query.thy ===== *)
theory Query
  imports Book
begin

text \<open>
  \<^verbatim>\<open>pkg/library/internal/index/query.go\<close>, the search request, and \<^verbatim>\<open>internal/fs/textfmt\<close>, the text
  a 9P client writes to make one (\<open>parse_query\<close>) or to name an author (\<open>parse_author\<close>).
\<close>

datatype order = OrderSortTitle | OrderDateAdded | OrderDateModified | OrderRating | OrderPubdate
  | OrderOther int

record query =
  QAuthors :: "string list"
  QTags :: "string list"
  QSeries :: "string list"
  QStatus :: "string list"
  QIDs :: "int list"
  QTitles :: "string list"
  QExactTitles :: bool
  QOrder :: order
  QLimit :: int

definition empty_query :: query where
  "empty_query = \<lparr>QAuthors = [], QTags = [], QSeries = [], QStatus = [], QIDs = [], QTitles = [],
     QExactTitles = False, QOrder = OrderSortTitle, QLimit = 0\<rparr>"

record facet =
  FName :: string
  FCount :: int

datatype query_error =
    InvalidTerm string
  | InvalidId string string
  | UnknownPrefix string string

text \<open>One iteration of the loop of \<open>ParseQuery\<close>.\<close>

definition parse_term :: "query \<Rightarrow> string \<Rightarrow> query_error + query" where
  "parse_term q part =
     (case cut (CHR '':'') part of
        (pre, val, found) \<Rightarrow>
          if \<not> found then Inl (InvalidTerm part)
          else if pre = ''author'' then Inr (q\<lparr>QAuthors := QAuthors q @ [val]\<rparr>)
          else if pre = ''tag'' then Inr (q\<lparr>QTags := QTags q @ [val]\<rparr>)
          else if pre = ''series'' then Inr (q\<lparr>QSeries := QSeries q @ [val]\<rparr>)
          else if pre = ''status'' then Inr (q\<lparr>QStatus := QStatus q @ [val]\<rparr>)
          else if pre = ''id'' then
            (case parse_int64 val of
               None \<Rightarrow> Inl (InvalidId val part)
             | Some i \<Rightarrow> Inr (q\<lparr>QIDs := QIDs q @ [i]\<rparr>))
          else if pre = ''title'' then Inr (q\<lparr>QTitles := QTitles q @ [val]\<rparr>)
          else Inl (UnknownPrefix pre part))"

fun parse_terms :: "query \<Rightarrow> string list \<Rightarrow> query_error + query" where
  "parse_terms q [] = Inr q"
| "parse_terms q (p # ps) = bind_res (parse_term q p) (\<lambda>q'. parse_terms q' ps)"

definition parse_query :: "string \<Rightarrow> query_error + query" where
  "parse_query s = parse_terms empty_query (split_on (CHR ''+'') s)"

definition parse_author :: "string \<Rightarrow> author" where
  "parse_author spec =
     (case cut (CHR ''|'') spec of
        (name, sort_name, _) \<Rightarrow> \<lparr>AID = 0, AName = trim_space name, ASortName = trim_space sort_name\<rparr>)"

section \<open>Rendering a query back\<close>

text \<open>The terms of a query, in the order of the fields; the inverse of the parser on values
  that hold no \<open>+\<close>.\<close>

definition query_terms :: "query \<Rightarrow> string list" where
  "query_terms q =
     map (\<lambda>v. ''author:'' @ v) (QAuthors q) @ map (\<lambda>v. ''tag:'' @ v) (QTags q) @
     map (\<lambda>v. ''series:'' @ v) (QSeries q) @ map (\<lambda>v. ''status:'' @ v) (QStatus q) @
     map (\<lambda>i. ''id:'' @ dec_int i) (QIDs q) @ map (\<lambda>v. ''title:'' @ v) (QTitles q)"

definition render_query :: "query \<Rightarrow> string" where
  "render_query q = join ''+'' (query_terms q)"

definition user_query :: "query \<Rightarrow> bool" where
  "user_query q \<longleftrightarrow> \<not> QExactTitles q \<and> QOrder q = OrderSortTitle \<and> QLimit q = 0"

lemma parse_terms_append:
  "parse_terms q (ps @ qs) = bind_res (parse_terms q ps) (\<lambda>q'. parse_terms q' qs)"
  by (induction ps arbitrary: q) (auto simp: bind_res_def split: sum.split)

lemma cut_prefix: "CHR '':'' \<notin> set p \<Longrightarrow> cut (CHR '':'') (p @ CHR '':'' # v) = (p, v, True)"
  by (rule cut_sep)

lemma parse_term_simps:
  "parse_term q (''author:'' @ v) = Inr (q\<lparr>QAuthors := QAuthors q @ [v]\<rparr>)"
  "parse_term q (''tag:'' @ v) = Inr (q\<lparr>QTags := QTags q @ [v]\<rparr>)"
  "parse_term q (''series:'' @ v) = Inr (q\<lparr>QSeries := QSeries q @ [v]\<rparr>)"
  "parse_term q (''status:'' @ v) = Inr (q\<lparr>QStatus := QStatus q @ [v]\<rparr>)"
  "parse_term q (''title:'' @ v) = Inr (q\<lparr>QTitles := QTitles q @ [v]\<rparr>)"
  "in_int64 i \<Longrightarrow> parse_term q (''id:'' @ dec_int i) = Inr (q\<lparr>QIDs := QIDs q @ [i]\<rparr>)"
  using cut_prefix [of "''author''" v] cut_prefix [of "''tag''" v] cut_prefix [of "''series''" v]
    cut_prefix [of "''status''" v] cut_prefix [of "''title''" v] cut_prefix [of "''id''" "dec_int i"]
  by (simp_all add: parse_term_def parse_int64_dec_int)

lemma parse_terms_field:
  "parse_terms q (map (\<lambda>v. ''author:'' @ v) vs) = Inr (q\<lparr>QAuthors := QAuthors q @ vs\<rparr>)"
  "parse_terms q (map (\<lambda>v. ''tag:'' @ v) vs) = Inr (q\<lparr>QTags := QTags q @ vs\<rparr>)"
  "parse_terms q (map (\<lambda>v. ''series:'' @ v) vs) = Inr (q\<lparr>QSeries := QSeries q @ vs\<rparr>)"
  "parse_terms q (map (\<lambda>v. ''status:'' @ v) vs) = Inr (q\<lparr>QStatus := QStatus q @ vs\<rparr>)"
  "parse_terms q (map (\<lambda>v. ''title:'' @ v) vs) = Inr (q\<lparr>QTitles := QTitles q @ vs\<rparr>)"
  by (induction vs arbitrary: q) (simp_all add: parse_term_simps del: append.simps)

lemma parse_terms_ids:
  "\<forall>i \<in> set is. in_int64 i \<Longrightarrow>
   parse_terms q (map (\<lambda>i. ''id:'' @ dec_int i) is) = Inr (q\<lparr>QIDs := QIDs q @ is\<rparr>)"
  by (induction "is" arbitrary: q) (simp_all add: parse_term_simps del: append.simps)

lemma parse_query_terms:
  assumes "user_query q" "\<forall>i \<in> set (QIDs q). in_int64 i"
  shows "parse_terms empty_query (query_terms q) = Inr q"
  using assms
  by (simp add: query_terms_def parse_terms_append parse_terms_field parse_terms_ids empty_query_def
      user_query_def del: append.simps)

lemma dec_int_no_plus: "CHR ''+'' \<notin> set (dec_int i)"
proof -
  have "CHR ''+'' \<notin> set (dec_nat n)" for n
    using dec_nat_digits [of "CHR ''+''" n] by (auto simp: is_digit_def byte_def)
  then show ?thesis by (simp add: dec_int_def)
qed

text \<open>The values of a query that its textual form can carry.\<close>

definition plain_query :: "query \<Rightarrow> bool" where
  "plain_query q \<longleftrightarrow> user_query q \<and> query_terms q \<noteq> [] \<and> (\<forall>i \<in> set (QIDs q). in_int64 i) \<and>
     (\<forall>v \<in> set (QAuthors q @ QTags q @ QSeries q @ QStatus q @ QTitles q). CHR ''+'' \<notin> set v)"

lemma query_terms_no_plus:
  "plain_query q \<Longrightarrow> t \<in> set (query_terms q) \<Longrightarrow> CHR ''+'' \<notin> set t"
  using dec_int_no_plus by (auto simp: plain_query_def query_terms_def)

text \<open>Every query the text form can carry is parsed back from its rendering: each term lands in its
  own field, in order, and ids keep their value.\<close>

theorem parse_render_query: "plain_query q \<Longrightarrow> parse_query (render_query q) = Inr q"
proof -
  assume q: "plain_query q"
  then have "split_on (CHR ''+'') (render_query q) = query_terms q"
    unfolding render_query_def using query_terms_no_plus [OF q]
    by (intro split_on_join) (auto simp: plain_query_def)
  then show ?thesis using q parse_query_terms by (simp add: parse_query_def plain_query_def)
qed

theorem parse_render_query_witness:
  "parse_query (render_query (empty_query\<lparr>QAuthors := [''Ann''], QIDs := [12]\<rparr>)) =
     Inr (empty_query\<lparr>QAuthors := [''Ann''], QIDs := [12]\<rparr>)"
  by (rule parse_render_query)
     (simp add: plain_query_def user_query_def empty_query_def query_terms_def in_int64_def)

end
