(* ===== verification/Drift.thy ===== *)
theory Drift
  imports Book
begin

text \<open>
  \<^verbatim>\<open>pkg/library/internal/drift/drift.go\<close>: the observed state of a book's two files, which the
  store reads and the index keeps.
\<close>

record path_info =
  PSize :: int
  EpubMtime :: time
  MetaSize :: int
  MetaMtime :: time

definition unobserved :: path_info where
  "unobserved = \<lparr>PSize = 0, EpubMtime = 0, MetaSize = 0, MetaMtime = 0\<rparr>"

definition is_unobserved :: "path_info \<Rightarrow> bool" where
  "is_unobserved p \<longleftrightarrow> EpubMtime p = 0 \<and> MetaMtime p = 0"

definition path_info_equal :: "path_info \<Rightarrow> path_info \<Rightarrow> bool" where
  "path_info_equal p o' \<longleftrightarrow> PSize p = PSize o' \<and> MetaSize p = MetaSize o' \<and>
     EpubMtime p = EpubMtime o' \<and> MetaMtime p = MetaMtime o'"

lemma path_info_equal_iff: "path_info_equal p q \<longleftrightarrow> p = q"
  by (cases p; cases q) (auto simp: path_info_equal_def)

end
