(* ===== verification/Entity_Links.thy ===== *)
theory Entity_Links
  imports Prelude
begin

text \<open>
  The shape four pairs of index tables share (\<^verbatim>\<open>authors\<close>/\<^verbatim>\<open>book_authors\<close>, \<^verbatim>\<open>tags\<close>/\<^verbatim>\<open>book_tags\<close>,
  \<^verbatim>\<open>subjects\<close>/\<^verbatim>\<open>book_subjects\<close>, \<^verbatim>\<open>contributors\<close>/\<^verbatim>\<open>book_contributors\<close> of \<^verbatim>\<open>schema.sql\<close>): a table of
  entities with an AUTOINCREMENT id and a UNIQUE key, and a table of links whose PRIMARY KEY is
  (book, entity) and whose two columns are foreign keys. \<open>ERows\<close> holds (id, key, other column)
  and \<open>ESeq\<close> is the table's row of \<^verbatim>\<open>sqlite_sequence\<close>, the largest id ever used; \<open>Links\<close> holds
  (book, entity, position).

  The locale \<open>entity_insert\<close> states what the statements that insert an entity promise; the loop
  that links a book to a list of entities is proved correct inside it.
\<close>

datatype db_error = Constraint string | NoRows | IOFail string

record ('k, 'v, 'p) relation =
  ERows :: "(int \<times> 'k \<times> 'v) list"
  ESeq :: int
  Links :: "(int \<times> int \<times> 'p) list"

definition empty_relation :: "('k, 'v, 'p) relation" where
  "empty_relation = \<lparr>ERows = [], ESeq = 0, Links = []\<rparr>"

section \<open>Statements\<close>

definition entity_ids :: "('k, 'v, 'p) relation \<Rightarrow> int list" where
  "entity_ids r = map fst (ERows r)"

definition entity_keys :: "('k, 'v, 'p) relation \<Rightarrow> 'k list" where
  "entity_keys r = map (\<lambda>x. fst (snd x)) (ERows r)"

text \<open>\<^verbatim>\<open>SELECT * FROM t WHERE key = ?\<close>\<close>

definition get_entity :: "'k \<Rightarrow> ('k, 'v, 'p) relation \<Rightarrow> (int \<times> 'k \<times> 'v) option" where
  "get_entity k r = find (\<lambda>x. fst (snd x) = k) (ERows r)"

definition entity_by_id :: "int \<Rightarrow> ('k, 'v, 'p) relation \<Rightarrow> ('k \<times> 'v) option" where
  "entity_by_id i r = map_of (ERows r) i"

text \<open>\<^verbatim>\<open>INSERT INTO t (key, ...) VALUES (...)\<close> of a key that is not there.\<close>

definition append_entity :: "'k \<Rightarrow> 'v \<Rightarrow> ('k, 'v, 'p) relation \<Rightarrow> ('k, 'v, 'p) relation" where
  "append_entity k v r = r\<lparr>ERows := ERows r @ [(ESeq r + 1, k, v)], ESeq := ESeq r + 1\<rparr>"

text \<open>\<^verbatim>\<open>INSERT OR IGNORE INTO t (key) VALUES (?)\<close>\<close>

definition insert_or_ignore :: "'k \<Rightarrow> ('k, unit, 'p) relation \<Rightarrow> ('k, unit, 'p) relation" where
  "insert_or_ignore k r = (if k \<in> set (entity_keys r) then r else append_entity k () r)"

text \<open>\<^verbatim>\<open>DELETE FROM book_t WHERE book_id = ?\<close>\<close>

definition delete_links :: "int \<Rightarrow> ('k, 'v, 'p) relation \<Rightarrow> ('k, 'v, 'p) relation" where
  "delete_links b r = r\<lparr>Links := filter (\<lambda>l. fst l \<noteq> b) (Links r)\<rparr>"

text \<open>\<^verbatim>\<open>INSERT INTO book_t (book_id, t_id, position) VALUES (?, ?, ?)\<close>; \<open>books\<close> are the ids of the
  books table.\<close>

definition insert_link ::
  "int list \<Rightarrow> int \<Rightarrow> int \<Rightarrow> 'p \<Rightarrow> ('k, 'v, 'p) relation \<Rightarrow> db_error + ('k, 'v, 'p) relation" where
  "insert_link books b e p r =
     (if b \<notin> set books \<or> e \<notin> set (entity_ids r) then Inl (Constraint ''FOREIGN KEY'')
      else if (b, e) \<in> set (map (\<lambda>l. (fst l, fst (snd l))) (Links r)) then Inl (Constraint ''PRIMARY KEY'')
      else Inr (r\<lparr>Links := Links r @ [(b, e, p)]\<rparr>))"

text \<open>\<^verbatim>\<open>DELETE FROM t WHERE id NOT IN (SELECT t_id FROM book_t)\<close>\<close>

definition delete_orphans :: "('k, 'v, 'p) relation \<Rightarrow> ('k, 'v, 'p) relation" where
  "delete_orphans r =
     r\<lparr>ERows := filter (\<lambda>x. fst x \<in> set (map (\<lambda>l. fst (snd l)) (Links r))) (ERows r)\<rparr>"

text \<open>The rows a join of the links of one book with its entities gives, in link order.\<close>

definition links_of :: "int \<Rightarrow> ('k, 'v, 'p) relation \<Rightarrow> (int \<times> 'p) list" where
  "links_of b r = map snd (filter (\<lambda>l. fst l = b) (Links r))"

definition joined :: "int \<Rightarrow> ('k, 'v, 'p) relation \<Rightarrow> (int \<times> 'k \<times> 'v \<times> 'p) list" where
  "joined b r = pick
     (\<lambda>(e, p). map_option (\<lambda>(k, v). (e, k, v, p)) (entity_by_id e r)) (links_of b r)"

text \<open>The loop the four \<open>replace\<close> functions of \<^verbatim>\<open>mutate.go\<close> share: insert the entity, read its id
  back, link the book to it.\<close>

fun link_items ::
  "('i \<Rightarrow> ('k, 'v, 'p) relation \<Rightarrow> ('k, 'v, 'p) relation) \<Rightarrow> ('i \<Rightarrow> 'k) \<Rightarrow> (nat \<Rightarrow> 'p) \<Rightarrow>
   int list \<Rightarrow> int \<Rightarrow> nat \<Rightarrow> 'i list \<Rightarrow> ('k, 'v, 'p) relation \<Rightarrow> db_error + ('k, 'v, 'p) relation" where
  "link_items ins key pos books b n [] r = Inr r"
| "link_items ins key pos books b n (x # xs) r =
     (let r1 = ins x r
      in case get_entity (key x) r1 of
           None \<Rightarrow> Inl NoRows
         | Some (e, _) \<Rightarrow>
             bind_res (insert_link books b e (pos n) r1)
               (\<lambda>r2. link_items ins key pos books b (Suc n) xs r2))"

definition replace_links ::
  "('i \<Rightarrow> ('k, 'v, 'p) relation \<Rightarrow> ('k, 'v, 'p) relation) \<Rightarrow> ('i \<Rightarrow> 'k) \<Rightarrow> (nat \<Rightarrow> 'p) \<Rightarrow>
   int list \<Rightarrow> int \<Rightarrow> 'i list \<Rightarrow> ('k, 'v, 'p) relation \<Rightarrow> db_error + ('k, 'v, 'p) relation" where
  "replace_links ins key pos books b xs r = link_items ins key pos books b 0 xs (delete_links b r)"

section \<open>Well-formed relations\<close>

definition relation_ok :: "('k, 'v, 'p) relation \<Rightarrow> bool" where
  "relation_ok r \<longleftrightarrow>
     distinct (entity_ids r) \<and> distinct (entity_keys r) \<and> (\<forall>i \<in> set (entity_ids r). i \<le> ESeq r) \<and>
     distinct (map (\<lambda>l. (fst l, fst (snd l))) (Links r)) \<and>
     (\<forall>l \<in> set (Links r). fst (snd l) \<in> set (entity_ids r))"

definition key_of :: "('k, 'v, 'p) relation \<Rightarrow> int \<Rightarrow> 'k option" where
  "key_of r i = map_option fst (entity_by_id i r)"

definition keys_of_book :: "int \<Rightarrow> ('k, 'v, 'p) relation \<Rightarrow> 'k list" where
  "keys_of_book b r = map (\<lambda>x. fst (snd x)) (joined b r)"

lemma relation_ok_empty [simp]: "relation_ok empty_relation"
  by (simp add: relation_ok_def empty_relation_def entity_ids_def entity_keys_def)

lemma get_entity_Some:
  "get_entity k r = Some (i, k', v) \<Longrightarrow> k' = k \<and> (i, k, v) \<in> set (ERows r)"
  unfolding get_entity_def find_Some_iff by (metis fst_conv nth_mem snd_conv)

lemma get_entity_None: "get_entity k r = None \<longleftrightarrow> k \<notin> set (entity_keys r)"
  by (force simp: get_entity_def find_None_iff entity_keys_def)

lemma key_of_get:
  "relation_ok r \<Longrightarrow> get_entity k r = Some (i, k', v) \<Longrightarrow> key_of r i = Some k"
  by (auto simp: key_of_def entity_by_id_def relation_ok_def entity_ids_def dest: get_entity_Some)

lemma get_entity_in: "get_entity k r = Some (i, y) \<Longrightarrow> i \<in> set (entity_ids r)"
  by (cases y) (force simp: entity_ids_def dest: get_entity_Some)

lemma key_of_None: "key_of r i = None \<longleftrightarrow> i \<notin> set (entity_ids r)"
  by (simp add: key_of_def entity_by_id_def entity_ids_def map_of_eq_None_iff)

lemma key_of_Some_rows: "key_of r i = Some k \<Longrightarrow> \<exists>v. (i, k, v) \<in> set (ERows r)"
  by (auto simp: key_of_def entity_by_id_def dest: map_of_SomeD)

lemma key_of_inj: "relation_ok r \<Longrightarrow> key_of r i = Some k \<Longrightarrow> key_of r j = Some k \<Longrightarrow> i = j"
proof -
  assume a: "relation_ok r" "key_of r i = Some k" "key_of r j = Some k"
  then obtain v w where vw: "(i, k, v) \<in> set (ERows r)" "(j, k, w) \<in> set (ERows r)"
    using key_of_Some_rows by metis
  have "inj_on (\<lambda>x. fst (snd x)) (set (ERows r))"
    using a(1) by (simp add: relation_ok_def entity_keys_def distinct_map)
  from inj_onD [OF this _ vw] show "i = j" by simp
qed

lemma keys_of_book_links:
  "keys_of_book b r = pick (\<lambda>l. key_of r (fst l)) (links_of b r)"
  unfolding keys_of_book_def joined_def map_pick
  by (rule pick_cong) (auto simp: key_of_def option.map_comp o_def case_prod_beta)

lemma delete_links_simps [simp]:
  "entity_ids (delete_links b r) = entity_ids r" "entity_keys (delete_links b r) = entity_keys r"
  "ERows (delete_links b r) = ERows r" "ESeq (delete_links b r) = ESeq r"
  "key_of (delete_links b r) = key_of r" "entity_by_id i (delete_links b r) = entity_by_id i r"
  by (simp_all add: delete_links_def entity_ids_def entity_keys_def key_of_def entity_by_id_def fun_eq_iff)

lemma links_of_delete_links: "links_of b' (delete_links b r) = (if b' = b then [] else links_of b' r)"
  by (auto simp: links_of_def delete_links_def filter_empty_conv intro!: arg_cong [where f = "map _"]
      filter_cong)

lemma relation_ok_delete_links [simp]: "relation_ok r \<Longrightarrow> relation_ok (delete_links b r)"
  by (auto simp: relation_ok_def delete_links_def entity_ids_def entity_keys_def
      intro: distinct_map_filterI)

lemma distinct_links_of:
  "distinct (map (\<lambda>l. (fst l, fst (snd l))) (Links r)) \<Longrightarrow> distinct (map fst (links_of b r))"
proof -
  have "distinct (map (\<lambda>l. (fst l, fst (snd l))) ls) \<Longrightarrow>
      distinct (map fst (map snd (filter (\<lambda>l. fst l = b) ls)))"
    for ls :: "(int \<times> int \<times> 'p) list"
    by (induction ls) force+
  then show "distinct (map (\<lambda>l. (fst l, fst (snd l))) (Links r)) \<Longrightarrow> distinct (map fst (links_of b r))"
    by (simp add: links_of_def)
qed

lemma links_have_keys:
  assumes "relation_ok r"
  shows "\<forall>l \<in> set (links_of b r). \<exists>k. key_of r (fst l) = Some k"
proof
  fix l assume "l \<in> set (links_of b r)"
  then have "fst l \<in> set (entity_ids r)"
    using assms unfolding relation_ok_def links_of_def by fastforce
  then show "\<exists>k. key_of r (fst l) = Some k" using key_of_None [of r "fst l"] by blast
qed

section \<open>Inserting entities\<close>

locale entity_insert =
  fixes ins :: "'i \<Rightarrow> ('k, 'v, 'p) relation \<Rightarrow> ('k, 'v, 'p) relation"
    and key :: "'i \<Rightarrow> 'k"
  assumes ins_ok: "relation_ok r \<Longrightarrow> relation_ok (ins x r)"
    and ins_links: "Links (ins x r) = Links r"
    and ins_key: "key x \<in> set (entity_keys (ins x r))"
    and ins_keeps: "relation_ok r \<Longrightarrow> key_of r i = Some k \<Longrightarrow> key_of (ins x r) i = Some k"
    and ins_only: "set (entity_keys (ins x r)) \<subseteq> insert (key x) (set (entity_keys r))"
begin

lemma links_of_ins [simp]: "links_of b (ins x r) = links_of b r"
  by (simp add: links_of_def ins_links)

lemma ins_get: "\<exists>e v. get_entity (key x) (ins x r) = Some (e, key x, v)"
proof -
  obtain e k v where "get_entity (key x) (ins x r) = Some (e, k, v)"
    using ins_key [of x r] get_entity_None [of "key x" "ins x r"] by (cases "get_entity (key x) (ins x r)") auto
  then show ?thesis using get_entity_Some by metis
qed

lemma insert_link_ok:
  assumes "relation_ok r" "insert_link books b e p r = Inr r'"
  shows "relation_ok r'" "entity_ids r' = entity_ids r" "key_of r' = key_of r" "entity_keys r' = entity_keys r"
    and "links_of b' r' = links_of b' r @ (if b' = b then [(e, p)] else [])"
proof -
  from assms(2) have e: "e \<in> set (entity_ids r)" and n: "(b, e) \<notin> set (map (\<lambda>l. (fst l, fst (snd l))) (Links r))"
    and r': "r' = r\<lparr>Links := Links r @ [(b, e, p)]\<rparr>"
    by (auto simp: insert_link_def split: if_splits)
  show i: "entity_ids r' = entity_ids r" "entity_keys r' = entity_keys r" "key_of r' = key_of r"
    by (simp_all add: r' entity_ids_def entity_keys_def key_of_def entity_by_id_def fun_eq_iff)
  show "relation_ok r'" using assms(1) e n unfolding relation_ok_def i by (simp add: r')
  show "links_of b' r' = links_of b' r @ (if b' = b then [(e, p)] else [])"
    by (simp add: r' links_of_def)
qed

text \<open>Whatever the loop did before it stopped, a success keeps the relation well formed, links the
  book to the keys in order, and leaves the other books alone.\<close>

lemma link_items_Inr:
  assumes "relation_ok r" "link_items ins key pos books b n xs r = Inr r'"
  shows "relation_ok r' \<and> keys_of_book b r' = keys_of_book b r @ map key xs \<and>
     map snd (links_of b r') = map snd (links_of b r) @ map pos [n..<n + length xs] \<and>
     (\<forall>b'. b' \<noteq> b \<longrightarrow> links_of b' r' = links_of b' r) \<and>
     (\<forall>i k. key_of r i = Some k \<longrightarrow> key_of r' i = Some k) \<and>
     set (entity_keys r') \<subseteq> set (entity_keys r) \<union> key ` set xs"
  using assms
proof (induction xs arbitrary: r n)
  case (Cons x xs)
  let ?r1 = "ins x r"
  obtain e v where g: "get_entity (key x) ?r1 = Some (e, key x, v)" using ins_get by blast
  then obtain r2 where l: "insert_link books b e (pos n) ?r1 = Inr r2"
    and rec: "link_items ins key pos books b (Suc n) xs r2 = Inr r'"
    using Cons.prems(2) by (auto simp: Let_def bind_res_Inr)
  have ok1: "relation_ok ?r1" using Cons.prems(1) by (rule ins_ok)
  note l2 = insert_link_ok [OF ok1 l]
  have ke: "key_of ?r1 e = Some (key x)" using key_of_get [OF ok1 g] .
  have old: "\<forall>l \<in> set (links_of b r). \<exists>k. key_of r (fst l) = Some k"
    using links_have_keys [OF Cons.prems(1)] .
  have "pick (\<lambda>l. key_of ?r1 (fst l)) (links_of b r) = pick (\<lambda>l. key_of r (fst l)) (links_of b r)"
    using old ins_keeps [OF Cons.prems(1)] by (intro pick_cong) fastforce
  then have k2: "keys_of_book b r2 = keys_of_book b r @ [key x]"
    using ke by (simp add: keys_of_book_links l2)
  from Cons.IH [OF l2(1) rec] k2 show ?case
    using ins_keeps [OF Cons.prems(1)] ins_only [of x r] upt_conv_Cons [of n "Suc (n + length xs)"]
    by (auto simp: l2 simp del: upt_Suc)
qed simp

text \<open>The loop succeeds exactly when no key repeats, within the list or against the links the book
  already has.\<close>

lemma link_items_total:
  assumes "relation_ok r" "b \<in> set books" "distinct (map key xs)"
    and "set (map key xs) \<inter> set (keys_of_book b r) = {}"
  shows "\<exists>r'. link_items ins key pos books b n xs r = Inr r'"
  using assms
proof (induction xs arbitrary: r n)
  case (Cons x xs)
  let ?r1 = "ins x r"
  obtain e v where g: "get_entity (key x) ?r1 = Some (e, key x, v)" using ins_get by blast
  have ok1: "relation_ok ?r1" using Cons.prems(1) by (rule ins_ok)
  have ke: "key_of ?r1 e = Some (key x)" using key_of_get [OF ok1 g] .
  have fresh: "(b, e) \<notin> (\<lambda>l. (fst l, fst (snd l))) ` set (Links ?r1)"
  proof
    assume "(b, e) \<in> (\<lambda>l. (fst l, fst (snd l))) ` set (Links ?r1)"
    then obtain p where p: "(e, p) \<in> set (links_of b r)"
      by (force simp: links_of_def ins_links)
    then obtain k where k: "key_of r e = Some k"
      using links_have_keys [OF Cons.prems(1)] by fastforce
    then have "k = key x" using ins_keeps [OF Cons.prems(1) k] ke by (metis option.inject)
    with k p have "key x \<in> set (keys_of_book b r)"
      by (force simp: keys_of_book_links set_pick)
    with Cons.prems(4) show False by simp
  qed
  then obtain r2 where l: "insert_link books b e (pos n) ?r1 = Inr r2"
    using Cons.prems(2) get_entity_in [OF g] by (auto simp: insert_link_def)
  have one: "link_items ins key pos books b n [x] r = Inr r2" using g l by simp
  have k2: "keys_of_book b r2 = keys_of_book b r @ [key x]" "relation_ok r2"
    using link_items_Inr [OF Cons.prems(1) one] by auto
  have "\<exists>r'. link_items ins key pos books b (Suc n) xs r2 = Inr r'"
    using Cons.prems k2 by (intro Cons.IH) auto
  with g l show ?case by (simp add: Let_def)
qed simp

lemma link_items_dup:
  assumes "relation_ok r" "distinct (keys_of_book b r)"
    and "link_items ins key pos books b n xs r = Inr r'"
  shows "distinct (keys_of_book b r')"
proof -
  have ok: "relation_ok r'" using link_items_Inr [OF assms(1,3)] by blast
  have d: "distinct (map fst (links_of b r'))"
    using ok by (simp add: relation_ok_def distinct_links_of)
  have "distinct (pick (\<lambda>l. key_of r' (fst l)) ls)" if "distinct (map fst ls)" for ls :: "(int \<times> 'p) list"
    using that
  proof (induction ls)
    case (Cons a ls)
    have "k \<notin> set (pick (\<lambda>l. key_of r' (fst l)) ls)" if k: "key_of r' (fst a) = Some k" for k
    proof
      assume "k \<in> set (pick (\<lambda>l. key_of r' (fst l)) ls)"
      then obtain l where l: "l \<in> set ls" "key_of r' (fst l) = Some k" by (auto simp: set_pick)
      with key_of_inj [OF ok k] have "fst l = fst a" by simp
      then have "fst a \<in> fst ` set ls" using l(1) by (metis image_eqI)
      with Cons.prems show False by simp
    qed
    with Cons show ?case by (simp split: option.split)
  qed simp
  with d show ?thesis by (simp add: keys_of_book_links)
qed

lemma replace_links_iff:
  assumes "relation_ok r" "b \<in> set books"
  shows "(\<exists>r'. replace_links ins key pos books b xs r = Inr r') \<longleftrightarrow> distinct (map key xs)"
proof
  let ?d = "delete_links b r"
  have ok: "relation_ok ?d" using assms(1) by simp
  have e: "keys_of_book b ?d = []"
    by (simp add: keys_of_book_links links_of_delete_links pick.simps)
  {
    assume "\<exists>r'. replace_links ins key pos books b xs r = Inr r'"
    then obtain r' where l: "link_items ins key pos books b 0 xs ?d = Inr r'"
      by (auto simp: replace_links_def)
    from link_items_Inr [OF ok l] link_items_dup [OF ok _ l] e show "distinct (map key xs)" by simp
  next
    assume "distinct (map key xs)"
    with link_items_total [OF ok assms(2)] e show "\<exists>r'. replace_links ins key pos books b xs r = Inr r'"
      by (simp add: replace_links_def)
  }
qed

lemma replace_links_Inr:
  assumes "relation_ok r" "replace_links ins key pos books b xs r = Inr r'"
  shows "relation_ok r'" "keys_of_book b r' = map key xs" "map snd (links_of b r') = map pos [0..<length xs]"
    and "b' \<noteq> b \<Longrightarrow> links_of b' r' = links_of b' r" "b' \<noteq> b \<Longrightarrow> keys_of_book b' r' = keys_of_book b' r"
    and "key_of r i = Some k \<Longrightarrow> key_of r' i = Some k"
proof -
  let ?d = "delete_links b r"
  have ok: "relation_ok ?d" using assms(1) by simp
  have e: "keys_of_book b ?d = []" "links_of b ?d = []"
    by (simp_all add: keys_of_book_links links_of_delete_links pick.simps)
  from assms(2) have l: "link_items ins key pos books b 0 xs ?d = Inr r'" by (simp add: replace_links_def)
  note I = link_items_Inr [OF ok l]
  show "relation_ok r'" "keys_of_book b r' = map key xs" "map snd (links_of b r') = map pos [0..<length xs]"
    using I e by simp_all
  show k: "key_of r i = Some k \<Longrightarrow> key_of r' i = Some k" for i k using I by simp
  show lk: "b' \<noteq> b \<Longrightarrow> links_of b' r' = links_of b' r" using I by (simp add: links_of_delete_links)
  assume nb: "b' \<noteq> b"
  have "\<forall>l \<in> set (links_of b' r). \<exists>k. key_of r (fst l) = Some k"
    using links_have_keys [OF assms(1)] .
  then have "pick (\<lambda>l. key_of r' (fst l)) (links_of b' r) = pick (\<lambda>l. key_of r (fst l)) (links_of b' r)"
    using k by (intro pick_cong) fastforce
  then show "keys_of_book b' r' = keys_of_book b' r"
    using lk [OF nb] by (simp add: keys_of_book_links)
qed

lemma replace_links_books:
  assumes "relation_ok r" "replace_links ins key pos books b xs r = Inr r'"
    and "\<And>j. j \<notin> set books \<Longrightarrow> links_of j r = []" and "j \<notin> set books"
  shows "links_of j r' = []"
proof (cases "j = b")
  case True
  have "xs = []"
  proof (cases xs)
    case (Cons x ys)
    obtain e v where "get_entity (key x) (ins x (delete_links b r)) = Some (e, key x, v)"
      using ins_get by blast
    with assms(2,4) True Cons show ?thesis by (simp add: replace_links_def insert_link_def)
  qed
  with replace_links_Inr(3) [OF assms(1,2)] True show ?thesis by simp
next
  case False
  with replace_links_Inr(4) [OF assms(1,2)] assms(3,4) show ?thesis by simp
qed

end

section \<open>Orphans\<close>

definition no_orphans :: "('k, 'v, 'p) relation \<Rightarrow> bool" where
  "no_orphans r \<longleftrightarrow> set (entity_ids r) \<subseteq> set (map (\<lambda>l. fst (snd l)) (Links r))"

lemma links_of_delete_orphans [simp]: "links_of b (delete_orphans r) = links_of b r"
  by (simp add: links_of_def delete_orphans_def)

lemma no_orphans_delete_orphans [simp]: "no_orphans (delete_orphans r)"
  by (auto simp: no_orphans_def delete_orphans_def entity_ids_def)

lemma entity_by_id_delete_orphans:
  "entity_by_id i (delete_orphans r) =
     (if i \<in> set (map (\<lambda>l. fst (snd l)) (Links r)) then entity_by_id i r else None)"
proof -
  show ?thesis
    using map_of_filter_key [of "\<lambda>i. i \<in> set (map (\<lambda>l. fst (snd l)) (Links r))" "ERows r" i]
    by (simp add: entity_by_id_def delete_orphans_def)
qed

lemma joined_delete_orphans [simp]: "joined b (delete_orphans r) = joined b r"
proof -
  have "entity_by_id e (delete_orphans r) = entity_by_id e r" if "(e, p) \<in> set (links_of b r)" for e p
    using that by (force simp: entity_by_id_delete_orphans links_of_def)
  then show ?thesis unfolding joined_def links_of_delete_orphans
    by (intro pick_cong) (auto split: prod.split)
qed

lemma keys_of_book_delete_orphans [simp]: "keys_of_book b (delete_orphans r) = keys_of_book b r"
  by (simp add: keys_of_book_def)

lemma relation_ok_delete_orphans [simp]: "relation_ok r \<Longrightarrow> relation_ok (delete_orphans r)"
proof -
  assume ok: "relation_ok r"
  let ?P = "\<lambda>x. fst x \<in> set (map (\<lambda>l. fst (snd l)) (Links r))"
  have rows: "ERows (delete_orphans r) = filter ?P (ERows r)" "Links (delete_orphans r) = Links r"
    "ESeq (delete_orphans r) = ESeq r" by (simp_all add: delete_orphans_def)
  have sub: "set (entity_ids (delete_orphans r)) \<subseteq> set (entity_ids r)"
    by (auto simp: entity_ids_def rows)
  have "fst (snd l) \<in> set (entity_ids (delete_orphans r))" if "l \<in> set (Links r)" for l
  proof -
    have "fst (snd l) \<in> fst ` set (ERows r)"
      using ok that by (simp add: relation_ok_def entity_ids_def)
    then obtain x where "x \<in> set (ERows r)" "fst x = fst (snd l)" by force
    with that show ?thesis by (force simp: entity_ids_def rows)
  qed
  moreover have "distinct (entity_ids (delete_orphans r))" "distinct (entity_keys (delete_orphans r))"
    using ok by (simp_all add: relation_ok_def entity_ids_def entity_keys_def rows distinct_map_filterI)
  ultimately show ?thesis using ok sub by (auto simp: relation_ok_def rows)
qed

section \<open>The insert statements\<close>

lemma relation_ok_append_entity:
  "relation_ok r \<Longrightarrow> k \<notin> set (entity_keys r) \<Longrightarrow> relation_ok (append_entity k v r)"
  by (fastforce simp: relation_ok_def append_entity_def entity_ids_def entity_keys_def)

lemma append_entity_simps [simp]:
  "Links (append_entity k v r) = Links r"
  "entity_keys (append_entity k v r) = entity_keys r @ [k]"
  by (simp_all add: append_entity_def entity_keys_def)

lemma key_of_append_entity:
  "relation_ok r \<Longrightarrow> key_of r i = Some k' \<Longrightarrow> key_of (append_entity k v r) i = Some k'"
  by (auto simp: key_of_def entity_by_id_def append_entity_def map_add_def)

lemma joined_positions:
  assumes "relation_ok r"
  shows "map (\<lambda>x. snd (snd (snd x))) (joined b r) = map snd (links_of b r)"
proof -
  have "pick (\<lambda>l. map_option (\<lambda>x. snd (snd (snd x)))
          ((\<lambda>(e, p). map_option (\<lambda>(k, v). (e, k, v, p)) (entity_by_id e r)) l)) (links_of b r) =
        map snd (links_of b r)"
  proof (rule pick_all)
    fix l assume "l \<in> set (links_of b r)"
    then obtain k where "key_of r (fst l) = Some k" using links_have_keys [OF assms] by blast
    then show "map_option (\<lambda>x. snd (snd (snd x)))
        ((\<lambda>(e, p). map_option (\<lambda>(k, v). (e, k, v, p)) (entity_by_id e r)) l) = Some (snd l)"
      by (cases l) (auto simp: key_of_def)
  qed
  then show ?thesis by (simp add: joined_def map_pick)
qed

interpretation ignore: entity_insert "insert_or_ignore" "\<lambda>k. k"
  by unfold_locales
     (auto simp: insert_or_ignore_def relation_ok_append_entity key_of_append_entity)

end
