(* ===== verification/Db.thy ===== *)
theory Db
  imports Entity_Links Drift Query "HOL-Library.Product_Lexorder" "HOL-Library.Option_ord"
begin

text \<open>
  The index database: the tables of \<^verbatim>\<open>schema.sql\<close> and one definition per statement of
  \<^verbatim>\<open>queries.sql\<close> (which sqlc copies into \<^verbatim>\<open>dbsqlc/queries.sql.go\<close>). A table is the list of its
  rows in rowid order, a statement that a constraint rejects returns \<open>Inl\<close>, and a text column is
  compared by bytes, as SQLite's default collation does. The two date columns hold RFC 3339 text
  of whole seconds; the model keeps the instant cut to seconds, which orders the same way for the
  years 0 to 9999.
\<close>

record book_row =
  RID :: int
  RTitle :: string
  RSortTitle :: "string option"
  RPubdate :: "string option"
  RDescription :: string
  RLanguage :: string
  RPublisher :: string
  RRights :: string
  REpubPath :: string
  RCoverPath :: string
  RStatus :: string
  RRating :: float64
  RDateAdded :: time
  RDateModified :: time
  RSeriesID :: "int option"
  RSeriesIndex :: "string option"
  ROpfSize :: int
  RCoverSize :: int
  REpubSize :: int
  REpubMtime :: int
  RMetaMtime :: int
  RMetaSize :: int

record skipped_row =
  KEpubPath :: string
  KEpubSize :: int
  KEpubMtime :: int
  KMetaMtime :: int
  KMetaSize :: int

record db =
  Books :: "book_row list"
  AuthorsR :: "(string, string, nat) relation"
  SeriesR :: "(string, unit, unit) relation"
  TagsR :: "(string, unit, unit) relation"
  IdentifiersT :: "(int \<times> string \<times> string) list"
  SubjectsR :: "(string, unit, unit) relation"
  ContributorsR :: "(string \<times> string, unit, nat) relation"
  BookIdRows :: "int list"
  BookIdSeq :: int
  SkippedBooks :: "skipped_row list"
  PendingOps :: "string list"
  UserVersion :: int

definition empty_tables :: "string list \<Rightarrow> int \<Rightarrow> db" where
  "empty_tables ops v = \<lparr>Books = [], AuthorsR = empty_relation, SeriesR = empty_relation,
     TagsR = empty_relation, IdentifiersT = [], SubjectsR = empty_relation,
     ContributorsR = empty_relation, BookIdRows = [], BookIdSeq = 0, SkippedBooks = [],
     PendingOps = ops, UserVersion = v\<rparr>"

definition book_ids :: "db \<Rightarrow> int list" where
  "book_ids d = map RID (Books d)"

section \<open>Books\<close>

definition insert_book_row :: "book_row \<Rightarrow> db \<Rightarrow> db_error + db" where
  "insert_book_row r d =
     (if RRating r = NaN then Inl (Constraint ''NOT NULL'')
      else if RID r \<in> set (book_ids d) then Inl (Constraint ''PRIMARY KEY'')
      else Inr (d\<lparr>Books := Books d @ [r]\<rparr>))"

definition upsert_book_row :: "book_row \<Rightarrow> db \<Rightarrow> db_error + db" where
  "upsert_book_row r d =
     (if RRating r = NaN then Inl (Constraint ''NOT NULL'')
      else if RID r \<in> set (book_ids d) then
        Inr (d\<lparr>Books := map (\<lambda>o'. if RID o' = RID r
               then r\<lparr>RSeriesID := RSeriesID o', RSeriesIndex := RSeriesIndex o'\<rparr> else o') (Books d)\<rparr>)
      else Inr (d\<lparr>Books := Books d @ [r]\<rparr>))"

definition delete_book_row :: "int \<Rightarrow> db \<Rightarrow> db" where
  "delete_book_row i d =
     (if i \<in> set (book_ids d) then
        d\<lparr>Books := filter (\<lambda>r. RID r \<noteq> i) (Books d),
          AuthorsR := delete_links i (AuthorsR d), TagsR := delete_links i (TagsR d),
          IdentifiersT := filter (\<lambda>x. fst x \<noteq> i) (IdentifiersT d),
          SubjectsR := delete_links i (SubjectsR d),
          ContributorsR := delete_links i (ContributorsR d)\<rparr>
      else d)"

definition update_book_series :: "int option \<Rightarrow> string option \<Rightarrow> int \<Rightarrow> db \<Rightarrow> db_error + db" where
  "update_book_series sid sidx i d =
     (if (case sid of None \<Rightarrow> False | Some s \<Rightarrow> s \<notin> set (entity_ids (SeriesR d))) \<and> i \<in> set (book_ids d)
      then Inl (Constraint ''FOREIGN KEY'')
      else Inr (d\<lparr>Books := map (\<lambda>r. if RID r = i then r\<lparr>RSeriesID := sid, RSeriesIndex := sidx\<rparr> else r)
                  (Books d)\<rparr>))"

section \<open>Authors\<close>

definition insert_author :: "string \<Rightarrow> string \<Rightarrow> (string, string, nat) relation \<Rightarrow> (string, string, nat) relation" where
  "insert_author name sort_name r =
     (if name \<in> set (entity_keys r) then
        r\<lparr>ERows := map (\<lambda>(i, n, s). if n = name \<and> sort_name \<noteq> [] \<and> s = [] then (i, n, sort_name) else (i, n, s))
             (ERows r)\<rparr>
      else append_entity name sort_name r)"

definition get_author_by_name :: "string \<Rightarrow> db \<Rightarrow> author option" where
  "get_author_by_name name d =
     map_option (\<lambda>(i, n, s). \<lparr>AID = i, AName = n, ASortName = s\<rparr>) (get_entity name (AuthorsR d))"

definition delete_book_authors :: "int \<Rightarrow> db \<Rightarrow> db" where
  "delete_book_authors i d = d\<lparr>AuthorsR := delete_links i (AuthorsR d)\<rparr>"

section \<open>Series, tags, subjects, contributors\<close>

definition insert_series :: "string \<Rightarrow> db \<Rightarrow> db" where
  "insert_series n d = d\<lparr>SeriesR := insert_or_ignore n (SeriesR d)\<rparr>"

definition get_series_by_name :: "string \<Rightarrow> db \<Rightarrow> (int \<times> string) option" where
  "get_series_by_name n d = map_option (\<lambda>(i, n, _). (i, n)) (get_entity n (SeriesR d))"

section \<open>Identifiers\<close>

definition delete_book_identifiers :: "int \<Rightarrow> db \<Rightarrow> db" where
  "delete_book_identifiers i d = d\<lparr>IdentifiersT := filter (\<lambda>x. fst x \<noteq> i) (IdentifiersT d)\<rparr>"

definition insert_identifier :: "int \<Rightarrow> string \<Rightarrow> string \<Rightarrow> db \<Rightarrow> db_error + db" where
  "insert_identifier i scheme val d =
     (if i \<notin> set (book_ids d) then Inl (Constraint ''FOREIGN KEY'')
      else if (i, scheme) \<in> set (map (\<lambda>x. (fst x, fst (snd x))) (IdentifiersT d))
      then Inl (Constraint ''UNIQUE'')
      else Inr (d\<lparr>IdentifiersT := IdentifiersT d @ [(i, scheme, val)]\<rparr>))"

section \<open>Loading\<close>

text \<open>The rows of a join of links and entities for a set of books, with the book first.\<close>

definition joined_rows :: "int list \<Rightarrow> ('k, 'v, 'p) relation \<Rightarrow> (int \<times> int \<times> 'k \<times> 'v \<times> 'p) list" where
  "joined_rows ids r =
     pick (\<lambda>l. map_option (\<lambda>kv. (fst l, fst (snd l), fst kv, snd kv, snd (snd l)))
                 (entity_by_id (fst (snd l)) r))
          (filter (\<lambda>l. fst l \<in> set ids) (Links r))"

definition get_authors_by_book_ids :: "int list \<Rightarrow> db \<Rightarrow> (int \<times> author) list" where
  "get_authors_by_book_ids ids d =
     map (\<lambda>(b, e, n, s, p). (b, \<lparr>AID = e, AName = n, ASortName = s\<rparr>))
       (sort_key (\<lambda>(b, e, n, s, p). (b, p)) (joined_rows ids (AuthorsR d)))"

definition get_tags_by_book_ids :: "int list \<Rightarrow> db \<Rightarrow> (int \<times> string) list" where
  "get_tags_by_book_ids ids d =
     map (\<lambda>(b, e, n, v, p). (b, n))
       (sort_key (\<lambda>(b, e, n, v, p). (b, n)) (joined_rows ids (TagsR d)))"

definition get_subjects_by_book_ids :: "int list \<Rightarrow> db \<Rightarrow> (int \<times> string) list" where
  "get_subjects_by_book_ids ids d =
     map (\<lambda>(b, e, n, v, p). (b, n))
       (sort_key (\<lambda>(b, e, n, v, p). (b, n)) (joined_rows ids (SubjectsR d)))"

definition get_contributors_by_book_ids :: "int list \<Rightarrow> db \<Rightarrow> (int \<times> contributor) list" where
  "get_contributors_by_book_ids ids d =
     map (\<lambda>(b, e, k, v, p). (b, \<lparr>CName = fst k, CRole = snd k\<rparr>))
       (sort_key (\<lambda>(b, e, k, v, p). (b, p)) (joined_rows ids (ContributorsR d)))"

definition get_identifiers_by_book_ids :: "int list \<Rightarrow> db \<Rightarrow> (int \<times> string \<times> string) list" where
  "get_identifiers_by_book_ids ids d =
     sort_key fst (filter (\<lambda>x. fst x \<in> set ids) (IdentifiersT d))"

section \<open>Duplicate detection, statistics, drift\<close>

definition book_exists :: "string \<Rightarrow> int \<Rightarrow> string list \<Rightarrow> db \<Rightarrow> bool" where
  "book_exists t author_count names d \<longleftrightarrow>
     (\<exists>b \<in> set (Books d). RTitle b = t \<and>
        int (length (links_of (RID b) (AuthorsR d))) = author_count \<and>
        \<not> (\<exists>a \<in> set (joined (RID b) (AuthorsR d)). names \<noteq> [] \<and> fst (snd a) \<notin> set names))"

record stats_row =
  TBooks :: int
  TTotalSize :: int
  TLastAdded :: "time option"
  TLastModified :: "time option"
  TAuthors :: int
  TSeries :: int
  TTags :: int

definition max_opt :: "time list \<Rightarrow> time option" where
  "max_opt ts = (if ts = [] then None else Some (Max (set ts)))"

definition get_stats :: "db \<Rightarrow> stats_row" where
  "get_stats d = \<lparr>TBooks = int (length (Books d)), TTotalSize = sum_list (map REpubSize (Books d)),
     TLastAdded = max_opt (map RDateAdded (Books d)), TLastModified = max_opt (map RDateModified (Books d)),
     TAuthors = int (length (ERows (AuthorsR d))), TSeries = int (length (ERows (SeriesR d))),
     TTags = int (length (ERows (TagsR d)))\<rparr>"

definition get_all_path_info :: "db \<Rightarrow> skipped_row list" where
  "get_all_path_info d =
     map (\<lambda>b. \<lparr>KEpubPath = REpubPath b, KEpubSize = REpubSize b, KEpubMtime = REpubMtime b,
               KMetaMtime = RMetaMtime b, KMetaSize = RMetaSize b\<rparr>) (Books d) @ SkippedBooks d"

section \<open>Cleanup\<close>

definition delete_orphaned_authors :: "db \<Rightarrow> db" where
  "delete_orphaned_authors d = d\<lparr>AuthorsR := delete_orphans (AuthorsR d)\<rparr>"

definition delete_orphaned_series :: "db \<Rightarrow> db" where
  "delete_orphaned_series d =
     d\<lparr>SeriesR := (SeriesR d)\<lparr>ERows := filter (\<lambda>x. Some (fst x) \<in> set (map RSeriesID (Books d)))
                                   (ERows (SeriesR d))\<rparr>\<rparr>"

definition delete_orphaned_tags :: "db \<Rightarrow> db" where
  "delete_orphaned_tags d = d\<lparr>TagsR := delete_orphans (TagsR d)\<rparr>"

definition delete_orphaned_subjects :: "db \<Rightarrow> db" where
  "delete_orphaned_subjects d = d\<lparr>SubjectsR := delete_orphans (SubjectsR d)\<rparr>"

definition delete_orphaned_contributors :: "db \<Rightarrow> db" where
  "delete_orphaned_contributors d = d\<lparr>ContributorsR := delete_orphans (ContributorsR d)\<rparr>"

section \<open>Pending operations and the id sequence\<close>

definition insert_pending_op :: "string \<Rightarrow> db \<Rightarrow> db_error + db" where
  "insert_pending_op op d =
     (if op \<in> set (PendingOps d) then Inl (Constraint ''PRIMARY KEY'')
      else Inr (d\<lparr>PendingOps := PendingOps d @ [op]\<rparr>))"

definition delete_pending_op :: "string \<Rightarrow> db \<Rightarrow> db" where
  "delete_pending_op op d = d\<lparr>PendingOps := filter (\<lambda>x. x \<noteq> op) (PendingOps d)\<rparr>"

definition delete_all_pending_ops :: "db \<Rightarrow> db" where
  "delete_all_pending_ops d = d\<lparr>PendingOps := []\<rparr>"

definition count_pending_ops :: "db \<Rightarrow> int" where
  "count_pending_ops d = int (length (PendingOps d))"

definition next_book_id :: "db \<Rightarrow> int \<times> db" where
  "next_book_id d = (BookIdSeq d + 1,
     d\<lparr>BookIdRows := BookIdRows d @ [BookIdSeq d + 1], BookIdSeq := BookIdSeq d + 1\<rparr>)"

definition set_book_id_sequence :: "int \<Rightarrow> db \<Rightarrow> db" where
  "set_book_id_sequence i d =
     (if i \<in> set (BookIdRows d) then d
      else d\<lparr>BookIdRows := BookIdRows d @ [i], BookIdSeq := max (BookIdSeq d) i\<rparr>)"

definition insert_skipped_book :: "skipped_row \<Rightarrow> db \<Rightarrow> db_error + db" where
  "insert_skipped_book r d =
     (if KEpubPath r \<in> set (map KEpubPath (SkippedBooks d)) then Inl (Constraint ''PRIMARY KEY'')
      else Inr (d\<lparr>SkippedBooks := SkippedBooks d @ [r]\<rparr>))"

section \<open>Facets\<close>

definition facet_rows :: "('k, 'v, 'p) relation \<Rightarrow> ('k \<times> 'v \<times> int) list" where
  "facet_rows r =
     pick (\<lambda>x. let n = length (filter (\<lambda>l. fst (snd l) = fst x) (Links r))
               in if n = 0 then None else Some (fst (snd x), snd (snd x), int n)) (ERows r)"

definition list_authors_rows :: "db \<Rightarrow> (string \<times> int) list" where
  "list_authors_rows d =
     map (\<lambda>(n, s, c). (n, c)) (sort_key (\<lambda>(n, s, c). (s, n)) (facet_rows (AuthorsR d)))"

definition list_series_rows :: "db \<Rightarrow> (string \<times> int) list" where
  "list_series_rows d =
     sort_key fst (pick (\<lambda>x. let n = length (filter (\<lambda>b. RSeriesID b = Some (fst x)) (Books d))
                              in if n = 0 then None else Some (fst (snd x), int n)) (ERows (SeriesR d)))"

definition list_tags_rows :: "db \<Rightarrow> (string \<times> int) list" where
  "list_tags_rows d = map (\<lambda>(n, s, c). (n, c)) (sort_key fst (facet_rows (TagsR d)))"

section \<open>Laws of the statements\<close>

lemma insert_author_new: "name \<notin> set (entity_keys r) \<Longrightarrow> insert_author name s r = append_entity name s r"
  by (simp add: insert_author_def)

lemma insert_author_ids_keys:
  "name \<in> set (entity_keys r) \<Longrightarrow>
   entity_ids (insert_author name s r) = entity_ids r \<and> entity_keys (insert_author name s r) = entity_keys r \<and>
   Links (insert_author name s r) = Links r \<and> ESeq (insert_author name s r) = ESeq r"
  by (auto simp: insert_author_def entity_ids_def entity_keys_def)

lemma map_of_keep_key:
  "map_option fst (map_of (map (\<lambda>(i, n, s). if P n s then (i, n, g n s) else (i, n, s)) xs) j) =
   map_option fst (map_of xs j)"
proof (induction xs)
  case (Cons x xs)
  obtain i n s where "x = (i, n, s)" by (cases x)
  with Cons show ?case by (cases "P n s") auto
qed simp

lemma key_of_insert_author_old:
  "name \<in> set (entity_keys r) \<Longrightarrow> key_of (insert_author name s r) i = key_of r i"
  using map_of_keep_key [of "\<lambda>n s'. n = name \<and> s \<noteq> [] \<and> s' = []" "\<lambda>_ _. s" "ERows r" i]
  by (simp add: key_of_def entity_by_id_def insert_author_def)

interpretation authors: entity_insert "\<lambda>a. insert_author (AName a) (ASortName a)" AName
proof unfold_locales
  fix r :: "(string, string, nat) relation" and x :: "'c author_scheme" and i k
  let ?n = "AName x" and ?r = "insert_author (AName x) (ASortName x) r"
  note old = insert_author_ids_keys [of ?n r "ASortName x"] and new = insert_author_new [of ?n r "ASortName x"]
  show "relation_ok r \<Longrightarrow> relation_ok ?r"
    by (cases "?n \<in> set (entity_keys r)") (simp_all add: old new relation_ok_append_entity relation_ok_def [of ?r],
        simp add: relation_ok_def)
  show "Links ?r = Links r" "?n \<in> set (entity_keys ?r)" "set (entity_keys ?r) \<subseteq> insert ?n (set (entity_keys r))"
    by (cases "?n \<in> set (entity_keys r)"; simp add: old new; blast)+
  show "relation_ok r \<Longrightarrow> key_of r i = Some k \<Longrightarrow> key_of ?r i = Some k"
    by (cases "?n \<in> set (entity_keys r)") (simp_all add: key_of_insert_author_old new key_of_append_entity)
qed

lemma next_book_id_fresh:
  "\<forall>i \<in> set (BookIdRows d). i \<le> BookIdSeq d \<Longrightarrow> fst (next_book_id d) \<notin> set (BookIdRows d)"
  by (force simp: next_book_id_def)

end
