(* ===== verification/Index.thy ===== *)
theory Index
  imports Db
begin

text \<open>
  \<^verbatim>\<open>pkg/library/internal/index\<close>: writing a book (\<^verbatim>\<open>mutate.go\<close>), the pending marks that survive a
  crash (\<^verbatim>\<open>op.go\<close>), the rebuild (\<^verbatim>\<open>reindex.go\<close>), reading books back (\<^verbatim>\<open>reads.go\<close>, \<^verbatim>\<open>scan.go\<close>,
  \<^verbatim>\<open>hydrate.go\<close>) and searching (\<^verbatim>\<open>search.go\<close>). A transaction either commits its last database or
  gives back the one it started from. The invariant \<open>db_ok\<close> is what the schema's keys enforce.
\<close>

section \<open>Times and nullable text\<close>

definition unix_epoch :: time where
  "unix_epoch = 62135596800 * 1000000000"

definition to_unix_nano :: "time \<Rightarrow> int" where
  "to_unix_nano t = (if t = 0 then 0 else t - unix_epoch)"

definition from_unix_nano :: "int \<Rightarrow> time" where
  "from_unix_nano n = (if n = 0 then 0 else n + unix_epoch)"

definition to_null_string :: "string \<Rightarrow> string option" where
  "to_null_string s = (if s = [] then None else Some s)"

definition null_string :: "string option \<Rightarrow> string" where
  "null_string s = (case s of None \<Rightarrow> [] | Some t \<Rightarrow> t)"

definition rfc3339 :: "time \<Rightarrow> time" where
  "rfc3339 t = t - t mod 1000000000"

section \<open>Writing a book\<close>

definition book_params :: "book \<Rightarrow> path_info \<Rightarrow> book_row" where
  "book_params b mt = \<lparr>
     RID = MID (Meta b), RTitle = Title (Bib b), RSortTitle = to_null_string (SortTitle (Bib b)),
     RPubdate = to_null_string (Pubdate (Bib b)), RDescription = Description (Bib b),
     RLanguage = Language (Bib b), RPublisher = Publisher (Bib b), RRights = Rights (Bib b),
     REpubPath = EpubPath (Loc b), RCoverPath = CoverPath (Bib b), RStatus = Status (Meta b),
     RRating = Rating (Meta b), RDateAdded = rfc3339 (DateAdded (Meta b)),
     RDateModified = rfc3339 (DateModified (Meta b)), RSeriesID = None, RSeriesIndex = None,
     ROpfSize = OpfSize (Bib b), RCoverSize = CoverSize (Bib b), REpubSize = PSize mt,
     REpubMtime = to_unix_nano (EpubMtime mt), RMetaMtime = to_unix_nano (MetaMtime mt),
     RMetaSize = MetaSize mt\<rparr>"

definition replace_authors :: "int \<Rightarrow> author list \<Rightarrow> db \<Rightarrow> db_error + db" where
  "replace_authors i as d =
     bind_res (replace_links (\<lambda>a. insert_author (AName a) (ASortName a)) AName (\<lambda>n. n)
                 (book_ids d) i as (AuthorsR d))
       (\<lambda>r. Inr (d\<lparr>AuthorsR := r\<rparr>))"

definition replace_tags :: "int \<Rightarrow> string list \<Rightarrow> db \<Rightarrow> db_error + db" where
  "replace_tags i ts d =
     bind_res (replace_links insert_or_ignore (\<lambda>t. t) (\<lambda>n. ()) (book_ids d) i ts (TagsR d))
       (\<lambda>r. Inr (d\<lparr>TagsR := r\<rparr>))"

definition replace_subjects :: "int \<Rightarrow> string list \<Rightarrow> db \<Rightarrow> db_error + db" where
  "replace_subjects i ss d =
     bind_res (replace_links insert_or_ignore (\<lambda>s. s) (\<lambda>n. ()) (book_ids d) i ss (SubjectsR d))
       (\<lambda>r. Inr (d\<lparr>SubjectsR := r\<rparr>))"

definition contributor_key :: "contributor \<Rightarrow> string \<times> string" where
  "contributor_key c = (CName c, CRole c)"

definition replace_contributors :: "int \<Rightarrow> contributor list \<Rightarrow> db \<Rightarrow> db_error + db" where
  "replace_contributors i cs d =
     bind_res (replace_links (\<lambda>c. insert_or_ignore (contributor_key c)) contributor_key (\<lambda>n. n)
                 (book_ids d) i cs (ContributorsR d))
       (\<lambda>r. Inr (d\<lparr>ContributorsR := r\<rparr>))"

definition set_series :: "book \<Rightarrow> db \<Rightarrow> db_error + db" where
  "set_series b d =
     (case Series (Bib b) of
        None \<Rightarrow> update_book_series None None (MID (Meta b)) d
      | Some s \<Rightarrow>
          (let d1 = insert_series (SName s) d
           in case get_series_by_name (SName s) d1 of
                None \<Rightarrow> Inl NoRows
              | Some (sid, _) \<Rightarrow>
                  update_book_series (Some sid) (Some (SIndex s)) (MID (Meta b)) d1))"

fun insert_identifiers :: "int \<Rightarrow> (string \<times> string) list \<Rightarrow> db \<Rightarrow> db_error + db" where
  "insert_identifiers i [] d = Inr d"
| "insert_identifiers i ((scheme, val) # xs) d =
     bind_res (insert_identifier i scheme val d) (insert_identifiers i xs)"

definition put_relations :: "book \<Rightarrow> db \<Rightarrow> db_error + db" where
  "put_relations b d =
     bind_res (replace_authors (MID (Meta b)) (Authors (Bib b)) d) (\<lambda>d.
     bind_res (replace_tags (MID (Meta b)) (Tags (Meta b)) d) (\<lambda>d.
     bind_res (set_series b d) (\<lambda>d.
     bind_res (insert_identifiers (MID (Meta b)) (Identifiers (Bib b))
                 (delete_book_identifiers (MID (Meta b)) d)) (\<lambda>d.
     bind_res (replace_subjects (MID (Meta b)) (Subjects (Bib b)) d) (\<lambda>d.
     replace_contributors (MID (Meta b)) (Contributors (Bib b)) d)))))"

definition cleanup_orphans :: "db \<Rightarrow> db" where
  "cleanup_orphans d =
     delete_orphaned_contributors (delete_orphaned_subjects (delete_orphaned_tags
       (delete_orphaned_series (delete_orphaned_authors d))))"

definition insert_book :: "book \<Rightarrow> path_info \<Rightarrow> db \<Rightarrow> db_error + db" where
  "insert_book b mt d = bind_res (insert_book_row (book_params b mt) d) (put_relations b)"

definition put_book :: "book \<Rightarrow> path_info \<Rightarrow> db \<Rightarrow> db_error + db" where
  "put_book b mt d =
     bind_res (upsert_book_row (book_params b mt) d) (\<lambda>d.
     bind_res (put_relations b d) (\<lambda>d. Inr (cleanup_orphans d)))"

definition delete_book :: "int \<Rightarrow> db \<Rightarrow> db_error + db" where
  "delete_book i d = Inr (cleanup_orphans (delete_book_row i d))"

section \<open>Transactions and pending operations\<close>

definition with_tx :: "(db \<Rightarrow> db_error + db) \<Rightarrow> db \<Rightarrow> (db_error + unit) \<times> db" where
  "with_tx f d = (case f d of Inl e \<Rightarrow> (Inl e, d) | Inr d' \<Rightarrow> (Inr (), d'))"

text \<open>An operation's handle holds the id of its mark, or \<open>None\<close> before \<open>MarkPending\<close> and after a
  successful \<open>Cancel\<close>. \<open>fresh\<close> is what \<open>newOpID\<close> draws.\<close>

type_synonym op = "string option"

definition begin_op :: op where "begin_op = None"

definition mark_pending :: "string \<Rightarrow> op \<Rightarrow> db \<Rightarrow> (db_error + op) \<times> db" where
  "mark_pending fresh op d =
     (case op of
        Some i \<Rightarrow> (Inr op, d)
      | None \<Rightarrow> (case insert_pending_op fresh d of
            Inl e \<Rightarrow> (Inl e, d)
          | Inr d' \<Rightarrow> (Inr (Some fresh), d')))"

definition finish :: "op \<Rightarrow> (db \<Rightarrow> db_error + db) \<Rightarrow> db \<Rightarrow> (db_error + unit) \<times> db" where
  "finish op f d =
     (case op of
        None \<Rightarrow> (Inl (Constraint ''MarkPending must be called before commit''), d)
      | Some i \<Rightarrow> with_tx (\<lambda>d. bind_res (f d) (\<lambda>d'. Inr (delete_pending_op i d'))) d)"

definition cancel :: "op \<Rightarrow> db \<Rightarrow> op \<times> db" where
  "cancel op d = (case op of None \<Rightarrow> (None, d) | Some i \<Rightarrow> (None, delete_pending_op i d))"

definition op_put :: "op \<Rightarrow> book \<Rightarrow> path_info \<Rightarrow> db \<Rightarrow> (db_error + unit) \<times> db" where
  "op_put op b mt d = finish op (put_book b mt) d"

definition op_delete :: "op \<Rightarrow> int \<Rightarrow> db \<Rightarrow> (db_error + unit) \<times> db" where
  "op_delete op i d = finish op (delete_book i) d"

section \<open>Rebuilding\<close>

definition schema_version :: int where "schema_version = 14"

definition needs_reindex :: "db \<Rightarrow> bool" where
  "needs_reindex d \<longleftrightarrow> (if UserVersion d \<noteq> schema_version then True else count_pending_ops d > 0)"

definition ensure_schema :: "db \<Rightarrow> db" where
  "ensure_schema d = (if UserVersion d \<noteq> schema_version then empty_tables [] (UserVersion d) else d)"

definition clear_tables :: "db \<Rightarrow> db" where
  "clear_tables d = d\<lparr>Books := [],
     AuthorsR := (AuthorsR d)\<lparr>ERows := [], Links := []\<rparr>, SeriesR := (SeriesR d)\<lparr>ERows := [], Links := []\<rparr>,
     TagsR := (TagsR d)\<lparr>ERows := [], Links := []\<rparr>, IdentifiersT := [],
     SubjectsR := (SubjectsR d)\<lparr>ERows := [], Links := []\<rparr>,
     ContributorsR := (ContributorsR d)\<lparr>ERows := [], Links := []\<rparr>, SkippedBooks := []\<rparr>"

type_synonym book_path = "book \<times> path_info"

fun insert_books :: "book_path list \<Rightarrow> db \<Rightarrow> db_error + db" where
  "insert_books [] d = Inr d"
| "insert_books ((b, info) # bs) d = bind_res (insert_book b info d) (insert_books bs)"

definition skipped_row_of :: "string \<Rightarrow> path_info \<Rightarrow> skipped_row" where
  "skipped_row_of path info = \<lparr>KEpubPath = path, KEpubSize = PSize info,
     KEpubMtime = to_unix_nano (EpubMtime info), KMetaMtime = to_unix_nano (MetaMtime info),
     KMetaSize = MetaSize info\<rparr>"

fun insert_skipped :: "(string \<times> path_info) list \<Rightarrow> db \<Rightarrow> db_error + db" where
  "insert_skipped [] d = Inr d"
| "insert_skipped ((path, info) # xs) d =
     bind_res (insert_skipped_book (skipped_row_of path info) d) (insert_skipped xs)"

definition rebuild_body :: "book_path list \<Rightarrow> (string \<times> path_info) list \<Rightarrow> int \<Rightarrow> db \<Rightarrow> (db_error + unit) \<times> db" where
  "rebuild_body bs skipped max_id = with_tx (\<lambda>d.
     bind_res (insert_books bs (clear_tables d)) (\<lambda>d.
     bind_res (insert_skipped skipped d) (\<lambda>d.
     Inr (delete_all_pending_ops (if max_id > 0 then set_book_id_sequence max_id d else d)))))"

definition rebuild_tx :: "string \<Rightarrow> book_path list \<Rightarrow> (string \<times> path_info) list \<Rightarrow> int \<Rightarrow> db \<Rightarrow>
    (db_error + unit) \<times> db" where
  "rebuild_tx fresh bs skipped max_id d =
     (case insert_pending_op fresh d of
        Inl e \<Rightarrow> (Inl e, d)
      | Inr d1 \<Rightarrow> rebuild_body bs skipped max_id d1)"

definition rebuild :: "string \<Rightarrow> book_path list \<Rightarrow> (string \<times> path_info) list \<Rightarrow> int \<Rightarrow> db \<Rightarrow>
    (db_error + unit) \<times> db" where
  "rebuild fresh bs skipped max_id d =
     (case rebuild_tx fresh bs skipped max_id (ensure_schema d) of
        (Inl e, d') \<Rightarrow> (Inl e, d')
      | (Inr _, d') \<Rightarrow> (Inr (), d'\<lparr>UserVersion := schema_version\<rparr>))"

section \<open>Reading books\<close>

definition row_series :: "db \<Rightarrow> book_row \<Rightarrow> series_ref option" where
  "row_series d r =
     (case RSeriesID r of
        None \<Rightarrow> None
      | Some sid \<Rightarrow> (case key_of (SeriesR d) sid of
            None \<Rightarrow> None
          | Some n \<Rightarrow> Some \<lparr>SID = sid, SName = n, SIndex = null_string (RSeriesIndex r)\<rparr>))"

definition to_book :: "db \<Rightarrow> book_row \<Rightarrow> book" where
  "to_book d r = \<lparr>
     Loc = \<lparr>EpubPath = REpubPath r\<rparr>,
     Bib = \<lparr>Title = RTitle r, SortTitle = null_string (RSortTitle r), Authors = [],
        Series = row_series d r, Language = RLanguage r, Publisher = RPublisher r,
        Rights = RRights r, Pubdate = null_string (RPubdate r), Description = RDescription r,
        Subjects = [], Contributors = [], Identifiers = [], CoverPath = RCoverPath r,
        OpfSize = ROpfSize r, CoverSize = RCoverSize r\<rparr>,
     Meta = \<lparr>MID = RID r, DateAdded = RDateAdded r, DateModified = RDateModified r,
        Status = RStatus r, Rating = RRating r, Tags = []\<rparr>,
     EpubSize = REpubSize r\<rparr>"

text \<open>The \<open>load\<close> functions group rows by book; \<open>rows_of\<close> is the map lookup that follows.\<close>

definition rows_of :: "int \<Rightarrow> (int \<times> 'a) list \<Rightarrow> 'a list" where
  "rows_of i rows = map snd (filter (\<lambda>x. fst x = i) rows)"

definition load_authors :: "int list \<Rightarrow> db \<Rightarrow> int \<Rightarrow> author list" where
  "load_authors ids d i = rows_of i (get_authors_by_book_ids ids d)"

definition load_tags :: "int list \<Rightarrow> db \<Rightarrow> int \<Rightarrow> string list" where
  "load_tags ids d i = rows_of i (get_tags_by_book_ids ids d)"

definition load_identifiers :: "int list \<Rightarrow> db \<Rightarrow> int \<Rightarrow> (string \<times> string) list" where
  "load_identifiers ids d i = rows_of i (get_identifiers_by_book_ids ids d)"

definition load_subjects :: "int list \<Rightarrow> db \<Rightarrow> int \<Rightarrow> string list" where
  "load_subjects ids d i = rows_of i (get_subjects_by_book_ids ids d)"

definition load_contributors :: "int list \<Rightarrow> db \<Rightarrow> int \<Rightarrow> contributor list" where
  "load_contributors ids d i = rows_of i (get_contributors_by_book_ids ids d)"

definition hydrate_books :: "db \<Rightarrow> book list \<Rightarrow> book list" where
  "hydrate_books d bs =
     (let ids = map (\<lambda>b. MID (Meta b)) bs
      in map (\<lambda>b. let i = MID (Meta b) in
           b\<lparr>Bib := (Bib b)\<lparr>Authors := load_authors ids d i, Identifiers := load_identifiers ids d i,
                            Subjects := load_subjects ids d i, Contributors := load_contributors ids d i\<rparr>,
             Meta := (Meta b)\<lparr>Tags := load_tags ids d i\<rparr>\<rparr>) bs)"

section \<open>Searching\<close>

text \<open>SQLite's \<^verbatim>\<open>LIKE ... ESCAPE '\'\<close>: \<open>%\<close> is any text, \<open>_\<close> one character, an escaped character
  itself, and ASCII letters match either case.\<close>

function like :: "string \<Rightarrow> string \<Rightarrow> bool" where
  "like [] s = (s = [])"
| "like (c # p) s =
     (if c = CHR ''%'' then (like p s \<or> (case s of [] \<Rightarrow> False | x # xs \<Rightarrow> like (c # p) xs))
      else if c = CHR ''_'' then
        (case s of [] \<Rightarrow> False | x # xs \<Rightarrow> like p (drop (max 1 (rune_len s)) s))
      else if c = CHR 0x5C then
        (case p of [] \<Rightarrow> False
         | e # p' \<Rightarrow> (case s of [] \<Rightarrow> False | x # xs \<Rightarrow> ascii_fold e = ascii_fold x \<and> like p' xs))
      else (case s of [] \<Rightarrow> False | x # xs \<Rightarrow> ascii_fold c = ascii_fold x \<and> like p xs))"
  by pat_completeness auto
termination
  by (relation "measure (\<lambda>(p, s). length p + length s)") auto

fun replace_char :: "char \<Rightarrow> string \<Rightarrow> string \<Rightarrow> string" where
  "replace_char c r [] = []"
| "replace_char c r (x # xs) = (if x = c then r else [x]) @ replace_char c r xs"

definition escape_sql_like :: "string \<Rightarrow> string" where
  "escape_sql_like s =
     replace_char (CHR ''_'') [CHR 0x5C, CHR ''_'']
       (replace_char (CHR ''%'') [CHR 0x5C, CHR ''%'']
         (replace_char (CHR 0x5C) [CHR 0x5C, CHR 0x5C] s))"

definition title_like :: "string \<Rightarrow> string \<Rightarrow> bool" where
  "title_like t title = like (CHR ''%'' # escape_sql_like t @ ''%'') title"

definition row_matches :: "db \<Rightarrow> query \<Rightarrow> book_row \<Rightarrow> bool" where
  "row_matches d q r \<longleftrightarrow>
     (QAuthors q = [] \<or> (\<exists>a \<in> set (joined (RID r) (AuthorsR d)).
        fst (snd a) \<in> set (QAuthors q) \<or> fst (snd (snd a)) \<in> set (QAuthors q))) \<and>
     (QTags q = [] \<or> (\<exists>t \<in> set (joined (RID r) (TagsR d)). fst (snd t) \<in> set (QTags q))) \<and>
     (QSeries q = [] \<or> (case RSeriesID r of None \<Rightarrow> False
        | Some sid \<Rightarrow> (case key_of (SeriesR d) sid of None \<Rightarrow> False | Some n \<Rightarrow> n \<in> set (QSeries q)))) \<and>
     (QStatus q = [] \<or> RStatus r \<in> set (QStatus q)) \<and>
     (QIDs q = [] \<or> RID r \<in> set (QIDs q)) \<and>
     (if QExactTitles q then QTitles q = [] \<or> RTitle r \<in> set (QTitles q)
      else QTitles q = [] \<or> (\<exists>t \<in> set (QTitles q). title_like t (RTitle r)))"

definition by_title :: "book_row \<Rightarrow> string" where
  "by_title r = (case RSortTitle r of Some s \<Rightarrow> s | None \<Rightarrow> RTitle r)"

fun rating_key :: "float64 \<Rightarrow> rat option option" where
  "rating_key NaN = None"
| "rating_key NegInf = None"
| "rating_key (Fin q) = Some (Some q)"
| "rating_key PosInf = Some None"

definition rating_less :: "float64 \<Rightarrow> float64 \<Rightarrow> bool" where
  "rating_less a b = (case (rating_key a, rating_key b) of
      (_, None) \<Rightarrow> False
    | (None, Some _) \<Rightarrow> True
    | (Some None, Some _) \<Rightarrow> False
    | (Some (Some p), Some None) \<Rightarrow> True
    | (Some (Some p), Some (Some q)) \<Rightarrow> p < q)"

text \<open>\<open>row_before o r s\<close> says that \<^verbatim>\<open>ORDER BY\<close> puts \<open>r\<close> strictly before \<open>s\<close>.\<close>

definition title_before :: "book_row \<Rightarrow> book_row \<Rightarrow> bool" where
  "title_before r s \<longleftrightarrow> by_title r < by_title s \<or> (by_title r = by_title s \<and> RID r < RID s)"

fun row_before :: "order \<Rightarrow> book_row \<Rightarrow> book_row \<Rightarrow> bool" where
  "row_before OrderDateAdded r s =
     (RDateAdded s < RDateAdded r \<or> (RDateAdded s = RDateAdded r \<and> RID s < RID r))"
| "row_before OrderDateModified r s =
     (RDateModified s < RDateModified r \<or> (RDateModified s = RDateModified r \<and> RID s < RID r))"
| "row_before OrderRating r s =
     (rating_less (RRating s) (RRating r) \<or> (\<not> rating_less (RRating r) (RRating s) \<and> title_before r s))"
| "row_before OrderPubdate r s =
     (RPubdate s < RPubdate r \<or> (RPubdate s = RPubdate r \<and> title_before r s))"
| "row_before _ r s = title_before r s"

fun insert_row :: "order \<Rightarrow> book_row \<Rightarrow> book_row list \<Rightarrow> book_row list" where
  "insert_row ord r [] = [r]"
| "insert_row ord r (s # ss) = (if row_before ord s r then s # insert_row ord r ss else r # s # ss)"

definition order_rows :: "order \<Rightarrow> book_row list \<Rightarrow> book_row list" where
  "order_rows ord rs = foldr (insert_row ord) rs []"

definition limit_rows :: "int \<Rightarrow> 'a list \<Rightarrow> 'a list" where
  "limit_rows n rs = (if n > 0 then take (nat n) rs else rs)"

definition query_rows :: "query \<Rightarrow> db \<Rightarrow> book_row list" where
  "query_rows q d = limit_rows (QLimit q) (order_rows (QOrder q) (filter (row_matches d q) (Books d)))"

definition search :: "query \<Rightarrow> db \<Rightarrow> book list" where
  "search q d = hydrate_books d (map (to_book d) (query_rows q d))"

definition get_book :: "int \<Rightarrow> db \<Rightarrow> db_error + book" where
  "get_book i d = (case search (empty_query\<lparr>QIDs := [i]\<rparr>) d of [] \<Rightarrow> Inl NoRows | b # _ \<Rightarrow> Inr b)"

definition exists_book :: "string \<Rightarrow> string list \<Rightarrow> db \<Rightarrow> bool" where
  "exists_book t names d = book_exists t (int (length names)) names d"

definition all_path_info_step :: "(string \<rightharpoonup> path_info) \<Rightarrow> skipped_row \<Rightarrow> string + (string \<rightharpoonup> path_info)" where
  "all_path_info_step m r =
     (if KEpubPath r \<in> dom m then Inl (KEpubPath r)
      else Inr (m(KEpubPath r \<mapsto> \<lparr>PSize = KEpubSize r, EpubMtime = from_unix_nano (KEpubMtime r),
             MetaSize = KMetaSize r, MetaMtime = from_unix_nano (KMetaMtime r)\<rparr>)))"

fun all_path_info_rows :: "(string \<rightharpoonup> path_info) \<Rightarrow> skipped_row list \<Rightarrow> string + (string \<rightharpoonup> path_info)" where
  "all_path_info_rows m [] = Inr m"
| "all_path_info_rows m (r # rs) = bind_res (all_path_info_step m r) (\<lambda>m'. all_path_info_rows m' rs)"

definition all_path_info :: "db \<Rightarrow> string + (string \<rightharpoonup> path_info)" where
  "all_path_info d = all_path_info_rows Map.empty (get_all_path_info d)"

record stats =
  SBooks :: int
  SAuthors :: int
  SSeries :: int
  STags :: int
  STotalSize :: int
  SLastAdded :: time
  SLastModified :: time

definition index_stats :: "db \<Rightarrow> stats" where
  "index_stats d = (let r = get_stats d in
     \<lparr>SBooks = TBooks r, SAuthors = TAuthors r, SSeries = TSeries r, STags = TTags r,
      STotalSize = TTotalSize r,
      SLastAdded = (case TLastAdded r of None \<Rightarrow> 0 | Some t \<Rightarrow> t),
      SLastModified = (case TLastModified r of None \<Rightarrow> 0 | Some t \<Rightarrow> t)\<rparr>)"

definition facets :: "(string \<times> int) list \<Rightarrow> facet list" where
  "facets rows = map (\<lambda>(n, c). \<lparr>FName = n, FCount = c\<rparr>) rows"

definition list_authors :: "db \<Rightarrow> facet list" where "list_authors d = facets (list_authors_rows d)"

definition list_series :: "db \<Rightarrow> facet list" where "list_series d = facets (list_series_rows d)"

definition list_tags :: "db \<Rightarrow> facet list" where "list_tags d = facets (list_tags_rows d)"

end
