(* ===== verification/Index_Correct.thy ===== *)
theory Index_Correct
  imports Index
begin

text \<open>
  The laws of the index: the invariant \<open>db_ok\<close> (keys unique, every foreign key resolved) and
  \<open>db_clean\<close> (no entity without a book), which every write keeps; when a write succeeds; and what
  a book read back after a write is.
\<close>

named_theorems step_post "postconditions of the single writes"

definition links_in :: "int list \<Rightarrow> ('k, 'v, 'p) relation \<Rightarrow> bool" where
  "links_in ids r \<longleftrightarrow> (\<forall>j. j \<notin> set ids \<longrightarrow> links_of j r = [])"

definition idents_ok :: "db \<Rightarrow> bool" where
  "idents_ok d \<longleftrightarrow> distinct (map (\<lambda>x. (fst x, fst (snd x))) (IdentifiersT d)) \<and>
     fst ` set (IdentifiersT d) \<subseteq> set (book_ids d)"

definition series_ok :: "db \<Rightarrow> bool" where
  "series_ok d \<longleftrightarrow> (\<forall>r \<in> set (Books d). \<forall>s. RSeriesID r = Some s \<longrightarrow> s \<in> set (entity_ids (SeriesR d)))"

definition db_ok :: "db \<Rightarrow> bool" where
  "db_ok d \<longleftrightarrow> distinct (book_ids d) \<and> (\<forall>r \<in> set (Books d). RRating r \<noteq> NaN) \<and>
     relation_ok (AuthorsR d) \<and> relation_ok (SeriesR d) \<and> Links (SeriesR d) = [] \<and> relation_ok (TagsR d) \<and>
     relation_ok (SubjectsR d) \<and> relation_ok (ContributorsR d) \<and>
     links_in (book_ids d) (AuthorsR d) \<and> links_in (book_ids d) (TagsR d) \<and>
     links_in (book_ids d) (SubjectsR d) \<and> links_in (book_ids d) (ContributorsR d) \<and>
     series_ok d \<and> idents_ok d"

definition series_clean :: "db \<Rightarrow> bool" where
  "series_clean d \<longleftrightarrow> set (entity_ids (SeriesR d)) \<subseteq> {s. Some s \<in> set (map RSeriesID (Books d))}"

definition db_clean :: "db \<Rightarrow> bool" where
  "db_clean d \<longleftrightarrow> no_orphans (AuthorsR d) \<and> no_orphans (TagsR d) \<and> no_orphans (SubjectsR d) \<and>
     no_orphans (ContributorsR d) \<and> series_clean d"

definition idents_of :: "int \<Rightarrow> db \<Rightarrow> (string \<times> string) list" where
  "idents_of i d = map snd (filter (\<lambda>x. fst x = i) (IdentifiersT d))"

definition row_of :: "int \<Rightarrow> db \<Rightarrow> book_row option" where
  "row_of i d = find (\<lambda>r. RID r = i) (Books d)"

lemma db_ok_empty: "db_ok (empty_tables ops v)"
  by (simp add: db_ok_def empty_tables_def book_ids_def links_in_def links_of_def empty_relation_def
      series_ok_def idents_ok_def relation_ok_empty [unfolded empty_relation_def])

section \<open>Replacing relations\<close>

interpretation contributors: entity_insert "\<lambda>c. insert_or_ignore (contributor_key c)" contributor_key
  by unfold_locales
     (auto simp: ignore.ins_links insert_or_ignore_def relation_ok_append_entity key_of_append_entity)

lemma replace_authors_post:
  assumes "db_ok d" "replace_authors i as d = Inr d'"
  obtains r where "d' = d\<lparr>AuthorsR := r\<rparr>" "relation_ok r" "links_in (book_ids d) r"
    "keys_of_book i r = map AName as" "map snd (links_of i r) = [0..<length as]"
    "\<And>j. j \<noteq> i \<Longrightarrow> keys_of_book j r = keys_of_book j (AuthorsR d)"
    "\<And>j. j \<noteq> i \<Longrightarrow> links_of j r = links_of j (AuthorsR d)"
proof -
  from assms(2) obtain r where d': "d' = d\<lparr>AuthorsR := r\<rparr>"
    and l: "replace_links (\<lambda>a. insert_author (AName a) (ASortName a)) AName (\<lambda>n. n) (book_ids d) i as (AuthorsR d) = Inr r"
    by (auto simp: replace_authors_def bind_res_Inr)
  have ok: "relation_ok (AuthorsR d)" using assms(1) by (simp add: db_ok_def)
  have "links_in (book_ids d) r"
    using authors.replace_links_books [OF ok l] assms(1) by (simp add: db_ok_def links_in_def)
  with d' authors.replace_links_Inr [OF ok l] show ?thesis by (intro that [of r]) simp_all
qed

lemma replace_tags_post:
  assumes "db_ok d" "replace_tags i ts d = Inr d'"
  obtains r where "d' = d\<lparr>TagsR := r\<rparr>" "relation_ok r" "links_in (book_ids d) r"
    "keys_of_book i r = ts"
    "\<And>j. j \<noteq> i \<Longrightarrow> keys_of_book j r = keys_of_book j (TagsR d)"
proof -
  from assms(2) obtain r where d': "d' = d\<lparr>TagsR := r\<rparr>"
    and l: "replace_links insert_or_ignore (\<lambda>t. t) (\<lambda>n. ()) (book_ids d) i ts (TagsR d) = Inr r"
    by (auto simp: replace_tags_def bind_res_Inr)
  have ok: "relation_ok (TagsR d)" using assms(1) by (simp add: db_ok_def)
  have "links_in (book_ids d) r"
    using ignore.replace_links_books [OF ok l] assms(1) by (simp add: db_ok_def links_in_def)
  with d' ignore.replace_links_Inr [OF ok l] show ?thesis by (intro that [of r]) simp_all
qed

lemma replace_subjects_post:
  assumes "db_ok d" "replace_subjects i ss d = Inr d'"
  obtains r where "d' = d\<lparr>SubjectsR := r\<rparr>" "relation_ok r" "links_in (book_ids d) r"
    "keys_of_book i r = ss"
    "\<And>j. j \<noteq> i \<Longrightarrow> keys_of_book j r = keys_of_book j (SubjectsR d)"
proof -
  from assms(2) obtain r where d': "d' = d\<lparr>SubjectsR := r\<rparr>"
    and l: "replace_links insert_or_ignore (\<lambda>s. s) (\<lambda>n. ()) (book_ids d) i ss (SubjectsR d) = Inr r"
    by (auto simp: replace_subjects_def bind_res_Inr)
  have ok: "relation_ok (SubjectsR d)" using assms(1) by (simp add: db_ok_def)
  have "links_in (book_ids d) r"
    using ignore.replace_links_books [OF ok l] assms(1) by (simp add: db_ok_def links_in_def)
  with d' ignore.replace_links_Inr [OF ok l] show ?thesis by (intro that [of r]) simp_all
qed

lemma replace_contributors_post:
  assumes "db_ok d" "replace_contributors i cs d = Inr d'"
  obtains r where "d' = d\<lparr>ContributorsR := r\<rparr>" "relation_ok r" "links_in (book_ids d) r"
    "keys_of_book i r = map contributor_key cs" "map snd (links_of i r) = [0..<length cs]"
    "\<And>j. j \<noteq> i \<Longrightarrow> keys_of_book j r = keys_of_book j (ContributorsR d)"
    "\<And>j. j \<noteq> i \<Longrightarrow> links_of j r = links_of j (ContributorsR d)"
proof -
  from assms(2) obtain r where d': "d' = d\<lparr>ContributorsR := r\<rparr>"
    and l: "replace_links (\<lambda>c. insert_or_ignore (contributor_key c)) contributor_key (\<lambda>n. n)
        (book_ids d) i cs (ContributorsR d) = Inr r"
    by (auto simp: replace_contributors_def bind_res_Inr)
  have ok: "relation_ok (ContributorsR d)" using assms(1) by (simp add: db_ok_def)
  have "links_in (book_ids d) r"
    using contributors.replace_links_books [OF ok l] assms(1) by (simp add: db_ok_def links_in_def)
  with d' contributors.replace_links_Inr [OF ok l] show ?thesis by (intro that [of r]) simp_all
qed

lemma replace_iff:
  assumes "db_ok d" "i \<in> set (book_ids d)"
  shows "(\<exists>d'. replace_authors i as d = Inr d') \<longleftrightarrow> distinct (map AName as)"
    and "(\<exists>d'. replace_tags i ts d = Inr d') \<longleftrightarrow> distinct ts"
    and "(\<exists>d'. replace_subjects i ss d = Inr d') \<longleftrightarrow> distinct ss"
    and "(\<exists>d'. replace_contributors i cs d = Inr d') \<longleftrightarrow> distinct (map contributor_key cs)"
  using assms
    authors.replace_links_iff [of "AuthorsR d" i "book_ids d" "\<lambda>n. n" as]
    ignore.replace_links_iff [of "TagsR d" i "book_ids d" "\<lambda>n. ()" ts]
    ignore.replace_links_iff [of "SubjectsR d" i "book_ids d" "\<lambda>n. ()" ss]
    contributors.replace_links_iff [of "ContributorsR d" i "book_ids d" "\<lambda>n. n" cs]
  by (auto simp: replace_authors_def replace_tags_def replace_subjects_def replace_contributors_def
      bind_res_Inr db_ok_def)

section \<open>Series and identifiers\<close>

lemma book_ids_update [simp]:
  "book_ids (d\<lparr>AuthorsR := a\<rparr>) = book_ids d" "book_ids (d\<lparr>TagsR := t\<rparr>) = book_ids d"
  "book_ids (d\<lparr>SubjectsR := t\<rparr>) = book_ids d" "book_ids (d\<lparr>ContributorsR := c\<rparr>) = book_ids d"
  "book_ids (d\<lparr>SeriesR := t\<rparr>) = book_ids d" "book_ids (d\<lparr>IdentifiersT := x\<rparr>) = book_ids d"
  "book_ids (d\<lparr>PendingOps := ops\<rparr>) = book_ids d"
  by (simp_all add: book_ids_def)

definition with_series :: "int \<Rightarrow> int option \<Rightarrow> string option \<Rightarrow> book_row \<Rightarrow> book_row" where
  "with_series i sid sidx r = (if RID r = i then r\<lparr>RSeriesID := sid, RSeriesIndex := sidx\<rparr> else r)"

lemma with_series_simps [simp]: "RID (with_series i sid sidx r) = RID r"
  "RRating (with_series i sid sidx r) = RRating r"
  by (simp_all add: with_series_def)

lemma get_series_after_insert: "\<exists>sid. get_series_by_name n (insert_series n d) = Some (sid, n)"
  using ignore.ins_get [of n "SeriesR d"] by (auto simp: get_series_by_name_def insert_series_def)

lemma set_series_post:
  assumes ok: "db_ok d"
  obtains d' sr sid sidx where "set_series b d = Inr d'"
    "d' = d\<lparr>SeriesR := sr, Books := map (with_series (MID (Meta b)) sid sidx) (Books d)\<rparr>"
    "relation_ok sr" "Links sr = []" "\<And>s n. key_of (SeriesR d) s = Some n \<Longrightarrow> key_of sr s = Some n"
    "case Series (Bib b) of None \<Rightarrow> sid = None \<and> sidx = None
       | Some s \<Rightarrow> sidx = Some (SIndex s) \<and> (\<exists>k. sid = Some k \<and> key_of sr k = Some (SName s))"
proof (cases "Series (Bib b)")
  case None
  have w: "(\<lambda>r. if RID r = MID (Meta b) then r\<lparr>RSeriesID := None, RSeriesIndex := None\<rparr> else r) =
      with_series (MID (Meta b)) None None" by (simp add: with_series_def fun_eq_iff)
  have "set_series b d = Inr (d\<lparr>SeriesR := SeriesR d, Books := map (with_series (MID (Meta b)) None None) (Books d)\<rparr>)"
    by (simp add: set_series_def None update_book_series_def w)
  then show ?thesis using ok None
    by (intro that [where sr = "SeriesR d" and sid = None and sidx = None]) (simp_all add: db_ok_def)
next
  case (Some s)
  let ?sr = "insert_or_ignore (SName s) (SeriesR d)"
  have sok: "relation_ok (SeriesR d)" "Links (SeriesR d) = []" using ok by (simp_all add: db_ok_def)
  obtain sid where g: "get_series_by_name (SName s) (insert_series (SName s) d) = Some (sid, SName s)"
    using get_series_after_insert by blast
  then obtain v where e: "get_entity (SName s) ?sr = Some (sid, SName s, v)"
    by (auto simp: get_series_by_name_def insert_series_def)
  have k: "key_of ?sr sid = Some (SName s)" using key_of_get [OF ignore.ins_ok [OF sok(1)] e] .
  have i: "sid \<in> set (entity_ids ?sr)" using get_entity_in [OF e] .
  have w: "(\<lambda>r. if RID r = MID (Meta b) then r\<lparr>RSeriesID := Some sid, RSeriesIndex := Some (SIndex s)\<rparr> else r) =
      with_series (MID (Meta b)) (Some sid) (Some (SIndex s))" by (simp add: with_series_def fun_eq_iff)
  have "set_series b d = Inr (d\<lparr>SeriesR := ?sr,
      Books := map (with_series (MID (Meta b)) (Some sid) (Some (SIndex s))) (Books d)\<rparr>)"
    using g i by (simp add: set_series_def Some update_book_series_def insert_series_def w)
  then show ?thesis using that [where sr = ?sr and sid = "Some sid" and sidx = "Some (SIndex s)"] ignore.ins_ok [OF sok(1)]
      ignore.ins_keeps [OF sok(1)] k Some sok(2) by (simp add: ignore.ins_links)
qed

lemma insert_identifiers_Inr:
  "insert_identifiers i xs d = Inr d' \<longleftrightarrow>
     (xs \<noteq> [] \<longrightarrow> i \<in> set (book_ids d)) \<and> distinct (map fst xs) \<and>
     (\<forall>x \<in> set xs. (i, fst x) \<notin> (\<lambda>x. (fst x, fst (snd x))) ` set (IdentifiersT d)) \<and>
     d' = d\<lparr>IdentifiersT := IdentifiersT d @ map (Pair i) xs\<rparr>"
proof (induction xs arbitrary: d)
  case (Cons x xs)
  obtain sc v where x: "x = (sc, v)" by (cases x)
  let ?ok = "i \<in> set (book_ids d) \<and> (i, sc) \<notin> (\<lambda>x. (fst x, fst (snd x))) ` set (IdentifiersT d)"
  let ?d1 = "d\<lparr>IdentifiersT := IdentifiersT d @ [(i, sc, v)]\<rparr>"
  have "insert_identifiers i (x # xs) d = Inr d' \<longleftrightarrow> ?ok \<and> insert_identifiers i xs ?d1 = Inr d'"
    by (auto simp: x insert_identifier_def)
  also have "\<dots> \<longleftrightarrow> ?ok \<and> distinct (map fst xs) \<and>
      (\<forall>y \<in> set xs. (i, fst y) \<notin> (\<lambda>x. (fst x, fst (snd x))) ` set (IdentifiersT ?d1)) \<and>
      d' = ?d1\<lparr>IdentifiersT := IdentifiersT ?d1 @ map (Pair i) xs\<rparr>"
    unfolding Cons.IH [of ?d1] by auto
  finally show ?case by (auto simp: x)
qed auto

lemma distinct_ident_keys:
  "distinct (map (\<lambda>x. (fst x, fst (snd x))) (map (Pair i) xs)) = distinct (map fst xs)"
  by (induction xs) auto

lemma put_identifiers_iff:
  assumes "db_ok d" "i \<in> set (book_ids d)"
  shows "(\<exists>d'. insert_identifiers i xs (delete_book_identifiers i d) = Inr d') \<longleftrightarrow> distinct (map fst xs)"
  using assms by (auto simp: insert_identifiers_Inr delete_book_identifiers_def)

lemma put_identifiers_post:
  assumes "db_ok d" "i \<in> set (book_ids d)"
    and "insert_identifiers i xs (delete_book_identifiers i d) = Inr d'"
  obtains t where "d' = d\<lparr>IdentifiersT := t\<rparr>" "idents_ok (d\<lparr>IdentifiersT := t\<rparr>)"
    "map snd (filter (\<lambda>x. fst x = i) t) = xs"
    "\<And>j. j \<noteq> i \<Longrightarrow> filter (\<lambda>x. fst x = j) t = filter (\<lambda>x. fst x = j) (IdentifiersT d)"
proof -
  let ?t = "filter (\<lambda>x. fst x \<noteq> i) (IdentifiersT d) @ map (Pair i) xs"
  from assms(3) have xs: "distinct (map fst xs)" and d': "d' = d\<lparr>IdentifiersT := ?t\<rparr>"
    by (simp_all add: insert_identifiers_Inr delete_book_identifiers_def)
  have io: "idents_ok d" using assms(1) by (simp add: db_ok_def)
  have "idents_ok (d\<lparr>IdentifiersT := ?t\<rparr>)"
    using io assms(2) xs distinct_ident_keys [of i xs]
    by (auto simp: idents_ok_def distinct_map_filterI)
  moreover have "map snd (filter (\<lambda>x. fst x = i) ?t) = xs"
    by (simp add: filter_map o_def)
  moreover have "filter (\<lambda>x. fst x = j) ?t = filter (\<lambda>x. fst x = j) (IdentifiersT d)" if "j \<noteq> i" for j
    using that by (auto simp: filter_map o_def intro: filter_cong)
  ultimately show ?thesis using d' that by blast
qed

section \<open>Writing all of a book's relations\<close>

lemma db_ok_update:
  assumes "db_ok d"
  shows "relation_ok r \<Longrightarrow> links_in (book_ids d) r \<Longrightarrow> db_ok (d\<lparr>AuthorsR := r\<rparr>)"
    and "relation_ok t \<Longrightarrow> links_in (book_ids d) t \<Longrightarrow> db_ok (d\<lparr>TagsR := t\<rparr>)"
    and "relation_ok t \<Longrightarrow> links_in (book_ids d) t \<Longrightarrow> db_ok (d\<lparr>SubjectsR := t\<rparr>)"
    and "relation_ok c \<Longrightarrow> links_in (book_ids d) c \<Longrightarrow> db_ok (d\<lparr>ContributorsR := c\<rparr>)"
    and "idents_ok (d\<lparr>IdentifiersT := x\<rparr>) \<Longrightarrow> db_ok (d\<lparr>IdentifiersT := x\<rparr>)"
    and "db_ok (d\<lparr>PendingOps := ops\<rparr>)"
  using assms by (simp_all add: db_ok_def series_ok_def idents_ok_def)

lemma map_RID_with_series: "map RID (map (with_series i sid sidx) rs) = map RID rs"
  by (simp add: o_def)

lemma db_ok_set_series:
  assumes "db_ok d" "relation_ok sr" "Links sr = []" "\<And>s n. key_of (SeriesR d) s = Some n \<Longrightarrow> key_of sr s = Some n"
    and "\<And>k. sid = Some k \<Longrightarrow> k \<in> set (entity_ids sr)"
  shows "db_ok (d\<lparr>SeriesR := sr, Books := map (with_series i sid sidx) (Books d)\<rparr>)"
proof -
  let ?d = "d\<lparr>SeriesR := sr, Books := map (with_series i sid sidx) (Books d)\<rparr>"
  have ids: "book_ids ?d = book_ids d" by (simp add: book_ids_def o_def)
  have old: "s \<in> set (entity_ids sr)" if "s \<in> set (entity_ids (SeriesR d))" for s
    using that key_of_None [of "SeriesR d" s] key_of_None [of sr s] assms(4) [of s] by fastforce
  have "series_ok ?d"
    using assms(1,5) old by (auto simp: series_ok_def db_ok_def with_series_def split: if_splits)
  then show ?thesis using assms(1-3) unfolding db_ok_def ids by (auto simp: idents_ok_def ids)
qed

text \<open>What a successful \<open>put_relations\<close> of \<open>b\<close> leaves: the invariant, the book's own relations as the
  record has them, and every other book's as they were.\<close>

definition put_post :: "book \<Rightarrow> db \<Rightarrow> db \<Rightarrow> bool" where
  "put_post b d d' \<longleftrightarrow>
     (let i = MID (Meta b) in
      db_ok d' \<and>
      (\<exists>sid sidx. Books d' = map (with_series i sid sidx) (Books d) \<and>
         (case Series (Bib b) of None \<Rightarrow> sid = None \<and> sidx = None
          | Some s \<Rightarrow> sidx = Some (SIndex s) \<and> (\<exists>k. sid = Some k \<and> key_of (SeriesR d') k = Some (SName s)))) \<and>
      (\<forall>s n. key_of (SeriesR d) s = Some n \<longrightarrow> key_of (SeriesR d') s = Some n) \<and>
      keys_of_book i (AuthorsR d') = map AName (Authors (Bib b)) \<and>
      map snd (links_of i (AuthorsR d')) = [0..<length (Authors (Bib b))] \<and>
      keys_of_book i (TagsR d') = Tags (Meta b) \<and>
      keys_of_book i (SubjectsR d') = Subjects (Bib b) \<and>
      keys_of_book i (ContributorsR d') = map contributor_key (Contributors (Bib b)) \<and>
      map snd (links_of i (ContributorsR d')) = [0..<length (Contributors (Bib b))] \<and>
      idents_of i d' = Identifiers (Bib b) \<and>
      (\<forall>j. j \<noteq> i \<longrightarrow> keys_of_book j (AuthorsR d') = keys_of_book j (AuthorsR d) \<and>
         keys_of_book j (TagsR d') = keys_of_book j (TagsR d) \<and>
         keys_of_book j (SubjectsR d') = keys_of_book j (SubjectsR d) \<and>
         keys_of_book j (ContributorsR d') = keys_of_book j (ContributorsR d) \<and>
         links_of j (AuthorsR d') = links_of j (AuthorsR d) \<and>
         links_of j (ContributorsR d') = links_of j (ContributorsR d) \<and>
         idents_of j d' = idents_of j d) \<and>
      BookIdRows d' = BookIdRows d \<and> BookIdSeq d' = BookIdSeq d \<and> SkippedBooks d' = SkippedBooks d \<and>
      PendingOps d' = PendingOps d \<and> UserVersion d' = UserVersion d)"

definition relations_distinct :: "book \<Rightarrow> bool" where
  "relations_distinct b \<longleftrightarrow> distinct (map AName (Authors (Bib b))) \<and> distinct (Tags (Meta b)) \<and>
     distinct (map fst (Identifiers (Bib b))) \<and> distinct (Subjects (Bib b)) \<and>
     distinct (map contributor_key (Contributors (Bib b)))"

lemma put_relations_cases:
  assumes ok: "db_ok d" and i: "MID (Meta b) \<in> set (book_ids d)"
  shows "if relations_distinct b then \<exists>d'. put_relations b d = Inr d' \<and> put_post b d d'
         else \<exists>e. put_relations b d = Inl e"
proof (cases "replace_authors (MID (Meta b)) (Authors (Bib b)) d")
  case (Inl e)
  then have "\<not> relations_distinct b"
    using replace_iff(1) [OF ok i, of "Authors (Bib b)"] by (auto simp: relations_distinct_def)
  with Inl show ?thesis by (simp add: put_relations_def)
next
  case A: (Inr d1)
  let ?i = "MID (Meta b)"
  have dA: "distinct (map AName (Authors (Bib b)))" using replace_iff(1) [OF ok i] A by blast
  obtain a where d1: "d1 = d\<lparr>AuthorsR := a\<rparr>"
    and a: "relation_ok a" "links_in (book_ids d) a" "keys_of_book ?i a = map AName (Authors (Bib b))"
    "map snd (links_of ?i a) = [0..<length (Authors (Bib b))]"
    "\<And>j. j \<noteq> ?i \<Longrightarrow> keys_of_book j a = keys_of_book j (AuthorsR d)"
    "\<And>j. j \<noteq> ?i \<Longrightarrow> links_of j a = links_of j (AuthorsR d)" 
    by (rule replace_authors_post [OF ok A]) (rule that; assumption)
  have ok1: "db_ok d1" unfolding d1 by (rule db_ok_update(1) [OF ok a(1,2)])
  have i1: "?i \<in> set (book_ids d1)" using i by (simp add: d1)
  show ?thesis
  proof (cases "replace_tags ?i (Tags (Meta b)) d1")
    case (Inl e)
    then have "\<not> relations_distinct b"
      using replace_iff(2) [OF ok1 i1, of "Tags (Meta b)"] by (auto simp: relations_distinct_def)
    with Inl A show ?thesis by (simp add: put_relations_def)
  next
    case T: (Inr d2)
    have dT: "distinct (Tags (Meta b))" using replace_iff(2) [OF ok1 i1] T by blast
    obtain t where d2: "d2 = d1\<lparr>TagsR := t\<rparr>"
      and t: "relation_ok t" "links_in (book_ids d1) t" "keys_of_book ?i t = Tags (Meta b)"
      "\<And>j. j \<noteq> ?i \<Longrightarrow> keys_of_book j t = keys_of_book j (TagsR d1)" by (rule replace_tags_post [OF ok1 T]) (rule that; assumption)
    have ok2: "db_ok d2" unfolding d2 by (rule db_ok_update(2) [OF ok1 t(1,2)])
    obtain d3 sr sid sidx where S: "set_series b d2 = Inr d3"
      and d3: "d3 = d2\<lparr>SeriesR := sr, Books := map (with_series ?i sid sidx) (Books d2)\<rparr>"
      and sr: "relation_ok sr" "Links sr = []" "\<And>s n. key_of (SeriesR d2) s = Some n \<Longrightarrow> key_of sr s = Some n"
        "case Series (Bib b) of None \<Rightarrow> sid = None \<and> sidx = None
         | Some s \<Rightarrow> sidx = Some (SIndex s) \<and> (\<exists>k. sid = Some k \<and> key_of sr k = Some (SName s))"
      by (rule set_series_post [OF ok2, of b]) (rule that; assumption)
    have ids3: "book_ids d3 = book_ids d" by (simp add: d3 d2 d1 book_ids_def o_def)
    have "k \<in> set (entity_ids sr)" if "sid = Some k" for k
      using sr(4) that key_of_None [of sr k] by (auto split: option.splits)
    then have ok3: "db_ok d3" unfolding d3 by (intro db_ok_set_series [OF ok2 sr(1-3)])
    have i3: "?i \<in> set (book_ids d3)" using i by (simp add: ids3)
    show ?thesis
    proof (cases "insert_identifiers ?i (Identifiers (Bib b)) (delete_book_identifiers ?i d3)")
      case (Inl e)
      then have "\<not> relations_distinct b"
        using put_identifiers_iff [OF ok3 i3, of "Identifiers (Bib b)"] by (auto simp: relations_distinct_def)
      with Inl A T S show ?thesis by (simp add: put_relations_def)
    next
      case I: (Inr d4)
      have dI: "distinct (map fst (Identifiers (Bib b)))" using put_identifiers_iff [OF ok3 i3] I by blast
      obtain x where d4: "d4 = d3\<lparr>IdentifiersT := x\<rparr>"
        and x: "idents_ok (d3\<lparr>IdentifiersT := x\<rparr>)" "map snd (filter (\<lambda>y. fst y = ?i) x) = Identifiers (Bib b)"
        "\<And>j. j \<noteq> ?i \<Longrightarrow> filter (\<lambda>y. fst y = j) x = filter (\<lambda>y. fst y = j) (IdentifiersT d3)" by (rule put_identifiers_post [OF ok3 i3 I]) (rule that; assumption)
      have ok4: "db_ok d4" unfolding d4 by (rule db_ok_update(5) [OF ok3 x(1)])
      have i4: "?i \<in> set (book_ids d4)" using i3 by (simp add: d4)
      show ?thesis
      proof (cases "replace_subjects ?i (Subjects (Bib b)) d4")
        case (Inl e)
        then have "\<not> relations_distinct b"
          using replace_iff(3) [OF ok4 i4, of "Subjects (Bib b)"] by (auto simp: relations_distinct_def)
        with Inl A T S I show ?thesis by (simp add: put_relations_def)
      next
        case B: (Inr d5)
        have dB: "distinct (Subjects (Bib b))" using replace_iff(3) [OF ok4 i4] B by blast
        obtain u where d5: "d5 = d4\<lparr>SubjectsR := u\<rparr>"
          and u: "relation_ok u" "links_in (book_ids d4) u" "keys_of_book ?i u = Subjects (Bib b)"
          "\<And>j. j \<noteq> ?i \<Longrightarrow> keys_of_book j u = keys_of_book j (SubjectsR d4)" by (rule replace_subjects_post [OF ok4 B]) (rule that; assumption)
        have ok5: "db_ok d5" unfolding d5 by (rule db_ok_update(3) [OF ok4 u(1,2)])
        have i5: "?i \<in> set (book_ids d5)" using i4 by (simp add: d5)
        show ?thesis
        proof (cases "replace_contributors ?i (Contributors (Bib b)) d5")
          case (Inl e)
          then have "\<not> relations_distinct b"
            using replace_iff(4) [OF ok5 i5, of "Contributors (Bib b)"] by (auto simp: relations_distinct_def)
          with Inl A T S I B show ?thesis by (simp add: put_relations_def)
        next
          case C: (Inr d6)
          have dC: "distinct (map contributor_key (Contributors (Bib b)))"
            using replace_iff(4) [OF ok5 i5] C by blast
          obtain c where d6: "d6 = d5\<lparr>ContributorsR := c\<rparr>"
            and c: "relation_ok c" "links_in (book_ids d5) c"
            "keys_of_book ?i c = map contributor_key (Contributors (Bib b))"
            "map snd (links_of ?i c) = [0..<length (Contributors (Bib b))]"
            "\<And>j. j \<noteq> ?i \<Longrightarrow> keys_of_book j c = keys_of_book j (ContributorsR d5)"
            "\<And>j. j \<noteq> ?i \<Longrightarrow> links_of j c = links_of j (ContributorsR d5)" by (rule replace_contributors_post [OF ok5 C]) (rule that; assumption)
          have ok6: "db_ok d6" unfolding d6 by (rule db_ok_update(4) [OF ok5 c(1,2)])
          have SR: "SeriesR d6 = sr" by (simp add: d6 d5 d4 d3)
          have "\<exists>sid sidx. Books d6 = map (with_series ?i sid sidx) (Books d) \<and>
             (case Series (Bib b) of None \<Rightarrow> sid = None \<and> sidx = None
              | Some s \<Rightarrow> sidx = Some (SIndex s) \<and> (\<exists>k. sid = Some k \<and> key_of (SeriesR d6) k = Some (SName s)))"
            unfolding SR using sr(4) by (intro exI [of _ sid] exI [of _ sidx]) (simp add: d6 d5 d4 d3 d2 d1)
          then have "put_post b d d6"
            unfolding put_post_def Let_def
            unfolding SR
            using ok6 a(3-6) t(3,4) sr(3) x(2,3) u(3,4) c(3-6)
            by (simp add: d6 d5 d4 d3 d2 d1 idents_of_def)
          moreover have "relations_distinct b" using dA dT dI dB dC by (simp add: relations_distinct_def)
          moreover have "put_relations b d = Inr d6" using A T S I B C by (simp add: put_relations_def)
          ultimately show ?thesis by simp
        qed
      qed
    qed
  qed
qed

end
