(* ===== verification/Index_Refine.thy ===== *)
theory Index_Refine
  imports Index_Correct
begin

text \<open>
  The index as a map from book ids to books: \<open>abs_index\<close> reads a book the way \<^verbatim>\<open>Get\<close> does, with
  the row ids and the shared sort names erased, and \<open>put_book\<close> and \<open>delete_book\<close> are the update and the
  removal of that map. The rows of other books may be rewritten by the cleanup of orphans, but not
  what they show.
\<close>

section \<open>Upsert, delete and cleanup on the rows\<close>

lemma row_of_Some: "row_of i d = Some r \<Longrightarrow> r \<in> set (Books d) \<and> RID r = i"
  unfolding row_of_def find_Some_iff by (metis nth_mem)

lemma row_of_None: "row_of i d = None \<longleftrightarrow> i \<notin> set (book_ids d)"
  by (auto simp: row_of_def find_None_iff book_ids_def)

lemma row_of_in: "db_ok d \<Longrightarrow> r \<in> set (Books d) \<Longrightarrow> row_of (RID r) d = Some r"
proof -
  assume ok: "db_ok d" and r: "r \<in> set (Books d)"
  then have "row_of (RID r) d \<noteq> None" by (simp add: row_of_None book_ids_def)
  then obtain r' where r': "row_of (RID r) d = Some r'" by blast
  have "inj_on RID (set (Books d))" using ok by (simp add: db_ok_def book_ids_def distinct_map)
  from inj_onD [OF this, of r' r] row_of_Some [OF r'] r have "r' = r" by simp
  with r' show ?thesis by simp
qed

lemma find_map_same_key:
  "(\<And>r. RID (f r) = RID r) \<Longrightarrow> find (\<lambda>r. RID r = i) (map f rs) = map_option f (find (\<lambda>r. RID r = i) rs)"
  by (induction rs) auto

lemma find_append: "find P (xs @ ys) = (case find P xs of None \<Rightarrow> find P ys | Some x \<Rightarrow> Some x)"
  by (induction xs) auto

lemma find_cong_filter: "(\<And>x. Q x \<Longrightarrow> P x) \<Longrightarrow> find Q (filter P xs) = find Q xs"
  by (induction xs) auto

lemma links_in_snoc: "links_in ids r \<Longrightarrow> links_in (ids @ [i]) r"
  by (auto simp: links_in_def)

lemma upsert_iff: "(\<exists>d'. upsert_book_row r d = Inr d') \<longleftrightarrow> RRating r \<noteq> NaN"
  by (auto simp: upsert_book_row_def)

lemma upsert_post:
  assumes ok: "db_ok d" and u: "upsert_book_row r d = Inr d'" and s: "RSeriesID r = None"
  shows "db_ok d'" "RID r \<in> set (book_ids d')" "d' = d\<lparr>Books := Books d'\<rparr>"
    "\<exists>sid sidx. row_of (RID r) d' = Some (r\<lparr>RSeriesID := sid, RSeriesIndex := sidx\<rparr>)"
    "\<And>j. j \<noteq> RID r \<Longrightarrow> row_of j d' = row_of j d"
proof -
  let ?f = "\<lambda>o'. if RID o' = RID r then r\<lparr>RSeriesID := RSeriesID o', RSeriesIndex := RSeriesIndex o'\<rparr> else o'"
  have f: "RID (?f x) = RID x" for x by simp
  from u have nan: "RRating r \<noteq> NaN" by (auto simp: upsert_book_row_def split: if_splits)
  consider (old) "RID r \<in> set (book_ids d)" "d' = d\<lparr>Books := map ?f (Books d)\<rparr>"
    | (new) "RID r \<notin> set (book_ids d)" "d' = d\<lparr>Books := Books d @ [r]\<rparr>"
    using u by (auto simp: upsert_book_row_def split: if_splits)
  then have "db_ok d' \<and> RID r \<in> set (book_ids d') \<and> d' = d\<lparr>Books := Books d'\<rparr> \<and>
    (\<exists>sid sidx. row_of (RID r) d' = Some (r\<lparr>RSeriesID := sid, RSeriesIndex := sidx\<rparr>)) \<and>
    (\<forall>j. j \<noteq> RID r \<longrightarrow> row_of j d' = row_of j d)"
  proof cases
    case old
    have ids: "book_ids d' = book_ids d"
      using f unfolding old(2) book_ids_def by (simp add: o_def cong: map_cong)
    have row: "row_of j d' = map_option ?f (row_of j d)" for j
      unfolding old(2) row_of_def using find_map_same_key [OF f] by simp
    obtain x where x: "row_of (RID r) d = Some x" using old(1) row_of_None [of "RID r" d] by blast
    then have "RID x = RID r" using row_of_Some by blast
    with x row have "row_of (RID r) d' = Some (r\<lparr>RSeriesID := RSeriesID x, RSeriesIndex := RSeriesIndex x\<rparr>)"
      by simp
    moreover have "row_of j d' = row_of j d" if "j \<noteq> RID r" for j
      using row [of j] row_of_Some [of j d] that by (cases "row_of j d") auto
    moreover have "idents_ok d'" using ok unfolding db_ok_def idents_ok_def ids by (simp add: old(2))
    then have "db_ok d'"
      using ok nan unfolding db_ok_def ids by (auto simp: old(2) series_ok_def)
    ultimately show ?thesis using old(1) ids by (auto simp: old(2))
  next
    case new
    have ids: "book_ids d' = book_ids d @ [RID r]" by (simp add: new(2) book_ids_def)
    have "idents_ok d'" using ok unfolding db_ok_def idents_ok_def ids by (auto simp: new(2))
    moreover have "series_ok d'" using ok s unfolding db_ok_def series_ok_def by (auto simp: new(2))
    ultimately have "db_ok d'"
      using ok nan new(1) unfolding db_ok_def ids by (auto simp: new(2) links_in_snoc)
    moreover have "row_of (RID r) d' = Some r"
      using new(1) row_of_None [of "RID r" d] by (simp add: new(2) row_of_def find_append)
    then have "\<exists>sid sidx. row_of (RID r) d' = Some (r\<lparr>RSeriesID := sid, RSeriesIndex := sidx\<rparr>)"
      by (intro exI [of _ "RSeriesID r"] exI [of _ "RSeriesIndex r"]) simp
    moreover have "row_of j d' = row_of j d" if "j \<noteq> RID r" for j
      using that by (simp add: new(2) row_of_def find_append split: option.split)
    ultimately show ?thesis by (auto simp: new(2) book_ids_def)
  qed
  then show "db_ok d'" "RID r \<in> set (book_ids d')" "d' = d\<lparr>Books := Books d'\<rparr>"
    "\<exists>sid sidx. row_of (RID r) d' = Some (r\<lparr>RSeriesID := sid, RSeriesIndex := sidx\<rparr>)"
    "\<And>j. j \<noteq> RID r \<Longrightarrow> row_of j d' = row_of j d" by simp_all
qed

lemma links_in_delete: "links_in ids r \<Longrightarrow> links_in (filter (\<lambda>j. j \<noteq> i) ids) (delete_links i r)"
  by (auto simp: links_in_def links_of_delete_links)

lemma map_filter_RID: "map RID (filter (\<lambda>r. RID r \<noteq> i) rs) = filter (\<lambda>j. j \<noteq> i) (map RID rs)"
  by (simp add: filter_map o_def)

lemma delete_row_ok:
  assumes "db_ok d"
  shows "db_ok (delete_book_row i d)"
proof (cases "i \<in> set (book_ids d)")
  case True
  let ?d = "delete_book_row i d"
  have ids: "book_ids ?d = filter (\<lambda>j. j \<noteq> i) (book_ids d)"
    using True by (simp add: delete_book_row_def book_ids_def map_filter_RID)
  have "idents_ok ?d"
    using assms unfolding idents_ok_def ids
    by (auto simp: db_ok_def idents_ok_def delete_book_row_def distinct_map_filterI)
  moreover have "series_ok ?d"
    using assms by (auto simp: db_ok_def series_ok_def delete_book_row_def)
  ultimately show ?thesis
    using assms True unfolding db_ok_def ids
    by (auto simp: delete_book_row_def links_in_delete)
qed (use assms in \<open>simp add: delete_book_row_def\<close>)

lemma links_of_notin: "links_in ids r \<Longrightarrow> i \<notin> set ids \<Longrightarrow> links_of i r = []"
  by (simp add: links_in_def)

lemma delete_row_rows: "row_of j (delete_book_row i d) = (if j = i then None else row_of j d)"
proof (cases "i \<in> set (book_ids d)")
  case True
  then show ?thesis
    by (auto simp: row_of_def delete_book_row_def find_None_iff intro: find_cong_filter)
qed (auto simp: delete_book_row_def row_of_None)

lemma series_key_cleanup:
  assumes "Some s \<in> set (map RSeriesID (Books d))"
  shows "key_of (SeriesR (delete_orphaned_series d)) s = key_of (SeriesR d) s"
  using map_of_filter_key [of "\<lambda>i. Some i \<in> set (map RSeriesID (Books d))" "ERows (SeriesR d)" s] assms
  by (simp add: delete_orphaned_series_def key_of_def entity_by_id_def)

lemma relation_ok_filter_rows:
  assumes "relation_ok r" "Links r = []"
  shows "relation_ok (r\<lparr>ERows := filter P (ERows r)\<rparr>)"
  using assms by (auto simp: relation_ok_def entity_ids_def entity_keys_def distinct_map_filterI)

lemma cleanup_simps:
  "Books (cleanup_orphans d) = Books d" "book_ids (cleanup_orphans d) = book_ids d"
  "AuthorsR (cleanup_orphans d) = delete_orphans (AuthorsR d)"
  "TagsR (cleanup_orphans d) = delete_orphans (TagsR d)"
  "SubjectsR (cleanup_orphans d) = delete_orphans (SubjectsR d)"
  "ContributorsR (cleanup_orphans d) = delete_orphans (ContributorsR d)"
  "SeriesR (cleanup_orphans d) = SeriesR (delete_orphaned_series d)"
  "IdentifiersT (cleanup_orphans d) = IdentifiersT d" "PendingOps (cleanup_orphans d) = PendingOps d"
  "UserVersion (cleanup_orphans d) = UserVersion d" "BookIdSeq (cleanup_orphans d) = BookIdSeq d"
  "BookIdRows (cleanup_orphans d) = BookIdRows d" "SkippedBooks (cleanup_orphans d) = SkippedBooks d"
  by (simp_all add: cleanup_orphans_def delete_orphaned_authors_def delete_orphaned_tags_def
      delete_orphaned_subjects_def delete_orphaned_contributors_def delete_orphaned_series_def book_ids_def)

lemma cleanup_ok:
  assumes "db_ok d"
  shows "db_ok (cleanup_orphans d)" "db_clean (cleanup_orphans d)"
proof -
  have s: "SeriesR (delete_orphaned_series d) =
      (SeriesR d)\<lparr>ERows := filter (\<lambda>x. Some (fst x) \<in> set (map RSeriesID (Books d))) (ERows (SeriesR d))\<rparr>"
    by (simp add: delete_orphaned_series_def)
  have so: "relation_ok (SeriesR (delete_orphaned_series d))" "Links (SeriesR (delete_orphaned_series d)) = []"
    unfolding s using assms by (auto intro: relation_ok_filter_rows simp: db_ok_def)
  have "series_ok (cleanup_orphans d)"
    using assms by (force simp: db_ok_def series_ok_def cleanup_simps delete_orphaned_series_def entity_ids_def)
  moreover have "idents_ok (cleanup_orphans d)"
    using assms by (simp add: db_ok_def idents_ok_def cleanup_simps)
  moreover have "links_in ids (delete_orphans r) = links_in ids r" for ids and r :: "('k, 'v, 'p) relation"
    by (simp add: links_in_def)
  ultimately show "db_ok (cleanup_orphans d)"
    using assms so by (simp add: db_ok_def cleanup_simps links_in_def)
  show "db_clean (cleanup_orphans d)"
    by (auto simp: db_clean_def cleanup_simps series_clean_def delete_orphaned_series_def entity_ids_def)
qed

section \<open>What a book shows\<close>

definition bare_series :: "series_ref option \<Rightarrow> series_ref option" where
  "bare_series s = map_option (\<lambda>s. s\<lparr>SID := 0\<rparr>) s"

definition bare_author :: "string \<Rightarrow> author" where
  "bare_author n = \<lparr>AID = 0, AName = n, ASortName = []\<rparr>"

text \<open>A book without the row ids and without the sort names, which authors of the same name share.\<close>

definition bare :: "book \<Rightarrow> book" where
  "bare b = b\<lparr>Bib := (Bib b)\<lparr>Authors := map (\<lambda>a. bare_author (AName a)) (Authors (Bib b)),
                            Series := bare_series (Series (Bib b))\<rparr>\<rparr>"

text \<open>What the index keeps of a book: dates to the second, tags and subjects in order.\<close>

definition recorded :: "book \<Rightarrow> path_info \<Rightarrow> book" where
  "recorded b mt = b\<lparr>EpubSize := PSize mt, Bib := (Bib b)\<lparr>Subjects := sort (Subjects (Bib b))\<rparr>,
     Meta := (Meta b)\<lparr>Tags := sort (Tags (Meta b)), DateAdded := rfc3339 (DateAdded (Meta b)),
                      DateModified := rfc3339 (DateModified (Meta b))\<rparr>\<rparr>"

definition abs_index :: "db \<Rightarrow> int \<rightharpoonup> book" where
  "abs_index d i = (case get_book i d of Inl _ \<Rightarrow> None | Inr b \<Rightarrow> Some (bare b))"

definition in_position :: "int \<Rightarrow> ('k, 'v, nat) relation \<Rightarrow> 'k list" where
  "in_position i r = map fst (sort_key snd (zip (keys_of_book i r) (map snd (links_of i r))))"

definition shown :: "db \<Rightarrow> book_row \<Rightarrow> book" where
  "shown d r = (let b = to_book d r; i = RID r in
     b\<lparr>Bib := (Bib b)\<lparr>Authors := map bare_author (in_position i (AuthorsR d)),
                     Series := bare_series (row_series d r),
                     Identifiers := idents_of i d, Subjects := sort (keys_of_book i (SubjectsR d)),
                     Contributors := map (\<lambda>k. \<lparr>CName = fst k, CRole = snd k\<rparr>) (in_position i (ContributorsR d))\<rparr>,
       Meta := (Meta b)\<lparr>Tags := sort (keys_of_book i (TagsR d))\<rparr>\<rparr>)"

section \<open>Reading a book back\<close>

lemma insort_key_map: "map g (insort_key (\<lambda>x. f (g x)) x xs) = insort_key f (g x) (map g xs)"
  by (induction xs) auto

lemma sort_key_map: "sort_key f (map g xs) = map g (sort_key (\<lambda>x. f (g x)) xs)"
  by (induction xs) (simp_all add: insort_key_map)

lemma insort_key_cong:
  "(\<And>y. y \<in> set xs \<Longrightarrow> f x \<le> f y \<longleftrightarrow> g x \<le> g y) \<Longrightarrow> insort_key f x xs = insort_key g x xs"
  by (induction xs) auto

lemma sort_key_same_order:
  "(\<And>x y. x \<in> set xs \<Longrightarrow> y \<in> set xs \<Longrightarrow> f x \<le> f y \<longleftrightarrow> g x \<le> g y) \<Longrightarrow> sort_key f xs = sort_key g xs"
proof (induction xs)
  case (Cons x xs)
  then have "sort_key f xs = sort_key g xs" by simp
  moreover have "insort_key f x (sort_key g xs) = insort_key g x (sort_key g xs)"
    using Cons.prems by (intro insort_key_cong) simp
  ultimately show ?case by simp
qed simp

lemma pick_map: "pick f (map g xs) = pick (\<lambda>x. f (g x)) xs"
  by (induction xs) (auto split: option.split)

lemma joined_rows_one: "joined_rows [i] r = map (Pair i) (joined i r)"
  unfolding joined_rows_def joined_def links_of_def map_pick pick_map
  by (auto intro!: pick_cong simp: option.map_comp o_def case_prod_beta)

lemma joined_key_positions:
  assumes "relation_ok r"
  shows "map (\<lambda>(e, k, v, p). (k, p)) (joined i r) = zip (keys_of_book i r) (map snd (links_of i r))"
  unfolding keys_of_book_def joined_positions [OF assms, of i, symmetric] zip_map_map
  by (simp add: zip_same_conv_map case_prod_beta)

lemma in_position_joined:
  assumes "relation_ok r"
  shows "in_position i r = map (\<lambda>x. fst (snd x)) (sort_key (\<lambda>x. snd (snd (snd x))) (joined i r))"
  unfolding in_position_def joined_key_positions [OF assms, symmetric] sort_key_map
  by (simp add: case_prod_beta o_def)

lemma in_position_id:
  "map snd (links_of i r) = [0..<n] \<Longrightarrow> length (keys_of_book i r) = n \<Longrightarrow> in_position i r = keys_of_book i r"
  by (simp add: in_position_def sort_key_id_if_sorted)

lemma rows_of_one: "rows_of i (map (\<lambda>x. (i, f x)) xs) = map f xs"
  by (simp add: rows_of_def filter_map o_def)

lemma load_one:
  assumes "db_ok d"
  shows "map AName (load_authors [i] d i) = in_position i (AuthorsR d)"
    and "load_tags [i] d i = sort (keys_of_book i (TagsR d))"
    and "load_subjects [i] d i = sort (keys_of_book i (SubjectsR d))"
    and "load_contributors [i] d i =
      map (\<lambda>k. \<lparr>CName = fst k, CRole = snd k\<rparr>) (in_position i (ContributorsR d))"
    and "load_identifiers [i] d i = idents_of i d"
proof -
  have ok: "relation_ok (AuthorsR d)" "relation_ok (ContributorsR d)" using assms by (simp_all add: db_ok_def)
  show "map AName (load_authors [i] d i) = in_position i (AuthorsR d)"
    by (simp add: load_authors_def get_authors_by_book_ids_def joined_rows_one sort_key_map in_position_joined ok
        rows_of_one o_def case_prod_beta sort_key_same_order [where f = "\<lambda>x. (i, snd (snd (snd x)))" and g = "\<lambda>x. snd (snd (snd x))"])
  show "load_contributors [i] d i =
      map (\<lambda>k. \<lparr>CName = fst k, CRole = snd k\<rparr>) (in_position i (ContributorsR d))"
    by (simp add: load_contributors_def get_contributors_by_book_ids_def joined_rows_one sort_key_map in_position_joined ok
        rows_of_one o_def case_prod_beta sort_key_same_order [where f = "\<lambda>x. (i, snd (snd (snd x)))" and g = "\<lambda>x. snd (snd (snd x))"])
  show "load_tags [i] d i = sort (keys_of_book i (TagsR d))"
    by (simp add: load_tags_def get_tags_by_book_ids_def joined_rows_one sort_key_map keys_of_book_def
        rows_of_one o_def case_prod_beta sort_key_same_order [where f = "\<lambda>x. (i, fst (snd x))" and g = "\<lambda>x. fst (snd x)"])
  show "load_subjects [i] d i = sort (keys_of_book i (SubjectsR d))"
    by (simp add: load_subjects_def get_subjects_by_book_ids_def joined_rows_one sort_key_map keys_of_book_def
        rows_of_one o_def case_prod_beta sort_key_same_order [where f = "\<lambda>x. (i, fst (snd x))" and g = "\<lambda>x. fst (snd x)"])
  have "sort_key fst (filter (\<lambda>x. fst x = i) (IdentifiersT d)) = filter (\<lambda>x. fst x = i) (IdentifiersT d)"
  proof (rule sort_key_id_if_sorted)
    show "sorted (map fst (filter (\<lambda>x. fst x = i) (IdentifiersT d)))"
      using map_idI [of "filter (\<lambda>x. fst x = i) (IdentifiersT d)"]
      by (auto simp: sorted_map intro: sorted_wrt_mono_rel [of _ "\<lambda>x y. True"])
  qed
  then show "load_identifiers [i] d i = idents_of i d"
    by (simp add: load_identifiers_def get_identifiers_by_book_ids_def rows_of_def idents_of_def)
qed

lemma row_matches_id: "row_matches d (empty_query\<lparr>QIDs := [i]\<rparr>) = (\<lambda>r. RID r = i)"
  by (simp add: row_matches_def empty_query_def fun_eq_iff)

lemma empty_query_limit: "QLimit (empty_query\<lparr>QIDs := is\<rparr>) = 0"
  by (simp add: empty_query_def)

lemma filter_one:
  "distinct (map RID rs) \<Longrightarrow>
   filter (\<lambda>r. RID r = i) rs = (case find (\<lambda>r. RID r = i) rs of None \<Rightarrow> [] | Some r \<Rightarrow> [r])"
proof (induction rs)
  case (Cons r rs)
  show ?case
  proof (cases "RID r = i")
    case True
    then have "filter (\<lambda>r. RID r = i) rs = []" using Cons.prems by (auto simp: filter_empty_conv image_iff)
    with True show ?thesis by simp
  qed (use Cons in simp)
qed simp

lemma query_one:
  "db_ok d \<Longrightarrow> query_rows (empty_query\<lparr>QIDs := [i]\<rparr>) d = (case row_of i d of None \<Rightarrow> [] | Some r \<Rightarrow> [r])"
  by (simp add: query_rows_def row_matches_id filter_one db_ok_def book_ids_def row_of_def order_rows_def
      limit_rows_def empty_query_limit split: option.split)

theorem abs_index_shown: "db_ok d \<Longrightarrow> abs_index d i = map_option (shown d) (row_of i d)"
proof (cases "row_of i d")
  case None
  assume "db_ok d"
  with None show ?thesis by (simp add: abs_index_def get_book_def search_def query_one hydrate_books_def)
next
  case (Some r)
  assume ok: "db_ok d"
  have "RID r = i" using row_of_Some [OF Some] by simp
  with Some ok load_one [OF ok, of i] show ?thesis
    by (simp add: abs_index_def get_book_def search_def query_one hydrate_books_def shown_def to_book_def
        Let_def bare_def flip: map_map [unfolded o_def])
qed

section \<open>Writes as updates of the map\<close>

lemma row_of_with_series:
  "find (\<lambda>r. RID r = j) (map (with_series i sid sidx) rs) =
   map_option (with_series i sid sidx) (find (\<lambda>r. RID r = j) rs)"
  by (rule find_map_same_key) simp

lemma shown_cong:
  assumes "in_position (RID r) (AuthorsR d') = in_position (RID r) (AuthorsR d)"
    and "in_position (RID r) (ContributorsR d') = in_position (RID r) (ContributorsR d)"
    and "keys_of_book (RID r) (TagsR d') = keys_of_book (RID r) (TagsR d)"
    and "keys_of_book (RID r) (SubjectsR d') = keys_of_book (RID r) (SubjectsR d)"
    and "idents_of (RID r) d' = idents_of (RID r) d" "row_series d' r = row_series d r"
  shows "shown d' r = shown d r"
  using assms by (simp add: shown_def to_book_def Let_def)

lemma row_series_same: "SeriesR d' = SeriesR d \<Longrightarrow> row_series d' r = row_series d r"
  by (simp add: row_series_def cong: option.case_cong)

lemma book_params_simps [simp]:
  "RID (book_params b mt) = MID (Meta b)" "RSeriesID (book_params b mt) = None"
  "RRating (book_params b mt) = Rating (Meta b)"
  by (simp_all add: book_params_def)

lemma in_position_delete_orphans [simp]: "in_position i (delete_orphans r) = in_position i r"
  by (simp add: in_position_def)

lemma abs_index_cleanup:
  assumes "db_ok d"
  shows "abs_index (cleanup_orphans d) = abs_index d"
proof
  fix i
  have row: "row_of i (cleanup_orphans d) = row_of i d" by (simp add: row_of_def cleanup_simps)
  have "shown (cleanup_orphans d) r = shown d r" if r: "row_of i d = Some r" for r
  proof (rule shown_cong)
    have "Some s \<in> set (map RSeriesID (Books d))" if "RSeriesID r = Some s" for s
      using row_of_Some [OF r] that by force
    then show "row_series (cleanup_orphans d) r = row_series d r"
      by (auto simp: row_series_def cleanup_simps series_key_cleanup split: option.split)
  qed (simp_all add: cleanup_simps idents_of_def)
  then show "abs_index (cleanup_orphans d) i = abs_index d i"
    unfolding abs_index_shown [OF assms] abs_index_shown [OF cleanup_ok(1) [OF assms]] row
    by (cases "row_of i d") simp_all
qed

lemma null_string_to_null [simp]: "null_string (to_null_string s) = s"
  by (simp add: null_string_def to_null_string_def)

lemma row_series_kept:
  assumes "db_ok d" "r \<in> set (Books d)"
    and "\<And>s n. key_of (SeriesR d) s = Some n \<Longrightarrow> key_of (SeriesR d') s = Some n"
  shows "row_series d' r = row_series d r"
proof (cases "RSeriesID r")
  case (Some s)
  then have "s \<in> set (entity_ids (SeriesR d))" using assms(1,2) by (auto simp: db_ok_def series_ok_def)
  then obtain n where "key_of (SeriesR d) s = Some n" using key_of_None [of "SeriesR d" s] by blast
  with assms(3) Some show ?thesis by (simp add: row_series_def)
qed (simp add: row_series_def)

lemma bare_series_simps [simp]: "bare_series None = None" "bare_series (Some s) = Some (s\<lparr>SID := 0\<rparr>)"
  by (simp_all add: bare_series_def)

lemma abs_put_own:
  assumes post: "put_post b d d'" and r: "row_of (MID (Meta b)) d = Some r"
    and rp: "\<exists>sid sidx. r = (book_params b mt)\<lparr>RSeriesID := sid, RSeriesIndex := sidx\<rparr>"
  shows "abs_index d' (MID (Meta b)) = Some (bare (recorded b mt))"
proof -
  let ?i = "MID (Meta b)"
  from post obtain sid sidx where bk: "Books d' = map (with_series ?i sid sidx) (Books d)"
    and s: "case Series (Bib b) of None \<Rightarrow> sid = None \<and> sidx = None
          | Some s \<Rightarrow> sidx = Some (SIndex s) \<and> (\<exists>k. sid = Some k \<and> key_of (SeriesR d') k = Some (SName s))"
    unfolding put_post_def Let_def by blast
  have ok: "db_ok d'" using post by (simp add: put_post_def Let_def)
  have id: "RID r = ?i" using row_of_Some [OF r] by simp
  have rw: "row_of ?i d' = Some ((book_params b mt)\<lparr>RSeriesID := sid, RSeriesIndex := sidx\<rparr>)"
    using r rp id by (auto simp: row_of_def bk row_of_with_series with_series_def)
  have sr: "bare_series (row_series d' ((book_params b mt)\<lparr>RSeriesID := sid, RSeriesIndex := sidx\<rparr>)) =
      bare_series (Series (Bib b))"
    using s by (cases "Series (Bib b)") (auto simp: row_series_def null_string_def)
  have a: "in_position ?i (AuthorsR d') = map AName (Authors (Bib b))"
    "in_position ?i (ContributorsR d') = map contributor_key (Contributors (Bib b))"
    using post in_position_id [of ?i "AuthorsR d'" "length (Authors (Bib b))"]
      in_position_id [of ?i "ContributorsR d'" "length (Contributors (Bib b))"]
    by (simp_all add: put_post_def Let_def)
  have c: "map (\<lambda>k. \<lparr>CName = fst k, CRole = snd k\<rparr>) (map contributor_key cs) = cs" for cs
    by (simp add: contributor_key_def map_idI)
  have o: "keys_of_book ?i (TagsR d') = Tags (Meta b)" "keys_of_book ?i (SubjectsR d') = Subjects (Bib b)"
    "idents_of ?i d' = Identifiers (Bib b)"
    using post by (simp_all add: put_post_def Let_def)
  have "shown d' ((book_params b mt)\<lparr>RSeriesID := sid, RSeriesIndex := sidx\<rparr>) = bare (recorded b mt)"
    unfolding shown_def Let_def
    using sr a c o by (simp add: bare_def recorded_def to_book_def book_params_def)
  then show ?thesis unfolding abs_index_shown [OF ok] rw by simp
qed

lemma abs_put_other:
  assumes post: "put_post b d d'" and ok: "db_ok d" and j: "j \<noteq> MID (Meta b)"
  shows "abs_index d' j = abs_index d j"
proof -
  let ?i = "MID (Meta b)"
  from post obtain sid sidx where bk: "Books d' = map (with_series ?i sid sidx) (Books d)"
    unfolding put_post_def Let_def by blast
  have ok': "db_ok d'" using post by (simp add: put_post_def Let_def)
  have rw: "row_of j d' = row_of j d"
    using row_of_Some [of j d] j unfolding row_of_def bk row_of_with_series
    by (cases "find (\<lambda>r. RID r = j) (Books d)") (auto simp: with_series_def row_of_def)
  have "shown d' r = shown d r" if r: "row_of j d = Some r" for r
  proof (rule shown_cong)
    have rj: "r \<in> set (Books d)" "RID r = j" using row_of_Some [OF r] by simp_all
    show "row_series d' r = row_series d r"
      using post by (intro row_series_kept [OF ok rj(1)]) (simp add: put_post_def Let_def)
  qed (use post j row_of_Some [OF r] in \<open>simp_all add: put_post_def Let_def in_position_def\<close>)
  then show ?thesis
    unfolding abs_index_shown [OF ok] abs_index_shown [OF ok'] rw by (cases "row_of j d") simp_all
qed

lemma abs_index_row:
  assumes "db_ok d" "db_ok d'" "d' = d\<lparr>Books := Books d'\<rparr>" "row_of j d' = row_of j d"
  shows "abs_index d' j = abs_index d j"
proof -
  obtain bs where d': "d' = d\<lparr>Books := bs\<rparr>" using assms(3) by blast
  have e: "in_position i (AuthorsR d') = in_position i (AuthorsR d)"
    "in_position i (ContributorsR d') = in_position i (ContributorsR d)" "TagsR d' = TagsR d"
    "SubjectsR d' = SubjectsR d" "idents_of i d' = idents_of i d" "row_series d' r = row_series d r" for i r
    by (auto simp: d' idents_of_def intro: row_series_same)
  have "shown d' = shown d" by (rule ext, rule shown_cong) (simp_all add: e)
  then show ?thesis unfolding abs_index_shown [OF assms(1)] abs_index_shown [OF assms(2)] assms(4) by simp
qed

text \<open>When a book can be written, and what the write does.\<close>

definition storable :: "book \<Rightarrow> bool" where
  "storable b \<longleftrightarrow> Rating (Meta b) \<noteq> NaN \<and> relations_distinct b"

lemma put_book_cases:
  assumes ok: "db_ok d"
  shows "if storable b
    then \<exists>d'. put_book b mt d = Inr d' \<and> db_ok d' \<and> db_clean d' \<and>
           abs_index d' = (abs_index d)(MID (Meta b) \<mapsto> bare (recorded b mt)) \<and>
           PendingOps d' = PendingOps d \<and> UserVersion d' = UserVersion d \<and>
           BookIdRows d' = BookIdRows d \<and> BookIdSeq d' = BookIdSeq d \<and> SkippedBooks d' = SkippedBooks d
    else \<exists>e. put_book b mt d = Inl e"
proof (cases "Rating (Meta b) = NaN")
  case True
  then show ?thesis by (simp add: storable_def put_book_def upsert_book_row_def book_params_def)
next
  case False
  let ?p = "book_params b mt"
  obtain d1 where u: "upsert_book_row ?p d = Inr d1"
    using False upsert_iff [of ?p d] by (auto simp: book_params_def)
  note up = upsert_post [OF ok u book_params_simps(2), unfolded book_params_simps(1)]
  show ?thesis
  proof (cases "relations_distinct b")
    case False
    then show ?thesis using put_relations_cases [OF up(1,2)] u by (auto simp: storable_def put_book_def)
  next
    case rd: True
    then obtain d2 where p: "put_relations b d1 = Inr d2" and post: "put_post b d1 d2"
      using put_relations_cases [OF up(1,2)] by auto
    have ok2: "db_ok d2" using post by (simp add: put_post_def Let_def)
    obtain bs where d1: "d1 = d\<lparr>Books := bs\<rparr>" using up(3) by blast
    obtain r where r: "row_of (MID (Meta b)) d1 = Some r"
      "\<exists>sid sidx. r = ?p\<lparr>RSeriesID := sid, RSeriesIndex := sidx\<rparr>"
      using up(4) by auto
    have "abs_index (cleanup_orphans d2) = (abs_index d)(MID (Meta b) \<mapsto> bare (recorded b mt))"
      using abs_put_own [OF post r] abs_put_other [OF post up(1)] abs_index_row [OF ok up(1) up(3)] up(5)
      by (auto simp: abs_index_cleanup [OF ok2] fun_eq_iff)
    moreover have "PendingOps d2 = PendingOps d" "UserVersion d2 = UserVersion d" "BookIdRows d2 = BookIdRows d"
      "BookIdSeq d2 = BookIdSeq d" "SkippedBooks d2 = SkippedBooks d"
      using post d1 by (simp_all add: put_post_def Let_def)
    ultimately show ?thesis
      using False rd u p cleanup_ok [OF ok2] by (simp add: put_book_def storable_def cleanup_simps)
  qed
qed

lemma delete_book_post:
  assumes ok: "db_ok d"
  shows "\<exists>d'. delete_book i d = Inr d' \<and> db_ok d' \<and> db_clean d' \<and> abs_index d' = (abs_index d)(i := None) \<and>
     PendingOps d' = PendingOps d \<and> UserVersion d' = UserVersion d \<and> BookIdRows d' = BookIdRows d \<and>
     BookIdSeq d' = BookIdSeq d \<and> SkippedBooks d' = SkippedBooks d"
proof -
  let ?d = "delete_book_row i d"
  have ok1: "db_ok ?d" by (rule delete_row_ok [OF ok])
  have del: "keys_of_book j (delete_links i r) = keys_of_book j r" "links_of j (delete_links i r) = links_of j r"
    if "j \<noteq> i" for j and r :: "('k, 'v, 'p) relation"
    using that by (simp_all add: keys_of_book_links links_of_delete_links)
  have "abs_index ?d j = (if j = i then None else abs_index d j)" for j
  proof -
    have "shown ?d r = shown d r" if "row_of j d = Some r" "j \<noteq> i" for r
      using row_of_Some [OF that(1)] that(2)
      by (intro shown_cong) (auto simp: delete_book_row_def in_position_def del idents_of_def
          intro!: row_series_same intro!: arg_cong [where f = "map snd"] filter_cong)
    then show ?thesis unfolding abs_index_shown [OF ok] abs_index_shown [OF ok1] delete_row_rows
      by (cases "row_of j d") auto
  qed
  then have "abs_index (cleanup_orphans ?d) = (abs_index d)(i := None)"
    by (simp add: abs_index_cleanup [OF ok1] fun_eq_iff)
  then show ?thesis
    using cleanup_ok [OF ok1] by (simp add: delete_book_def cleanup_simps delete_book_row_def)
qed

section \<open>The index refines a map\<close>

text \<open>A book with every kind of relation, for the witnesses.\<close>

definition sample_book :: book where
  "sample_book = \<lparr>Loc = \<lparr>EpubPath = ''Ann/T (1)/T.epub''\<rparr>,
     Bib = \<lparr>Title = ''T'', SortTitle = ''S'', Authors = [\<lparr>AID = 0, AName = ''Ann'', ASortName = []\<rparr>],
        Series = Some \<lparr>SID = 0, SName = ''Saga'', SIndex = ''1''\<rparr>, Language = ''en'', Publisher = [], Rights = [],
        Pubdate = [], Description = [], Subjects = [''b'', ''a''], Contributors = [\<lparr>CName = ''Ed'', CRole = ''edt''\<rparr>],
        Identifiers = [(''isbn'', ''9'')], CoverPath = [], OpfSize = 1, CoverSize = 0\<rparr>,
     Meta = \<lparr>MID = 1, DateAdded = 0, DateModified = 0, Status = ''unread'', Rating = Fin 4, Tags = [''y'', ''x'']\<rparr>,
     EpubSize = 0\<rparr>"

lemma sample_book_simps [simp]: "storable sample_book" "MID (Meta sample_book) = 1"
  by (simp_all add: sample_book_def storable_def relations_distinct_def)



text \<open>C6: deleting a book always succeeds and removes exactly that id from the map, whether or not it was
  there, with its relations and whatever entity it alone used.\<close>

theorem delete_refines:
  assumes "db_ok d"
  shows "\<exists>d'. delete_book i d = Inr d' \<and> db_ok d' \<and> db_clean d' \<and> abs_index d' = (abs_index d)(i := None)"
  using delete_book_post [OF assms, of i] by blast

theorem delete_refines_witness:
  "\<exists>d d'. db_ok d \<and> abs_index d 1 \<noteq> None \<and> delete_book 1 d = Inr d' \<and> abs_index d' = (abs_index d)(1 := None)"
proof -
  obtain d where d: "db_ok d" "abs_index d 1 \<noteq> None"
    using put_book_cases [OF db_ok_empty [of "[]" 14], of sample_book unobserved] by auto
  from delete_refines [OF d(1), of 1] d show ?thesis by blast
qed

end
