(* ===== verification/Index_Ops.thy ===== *)
theory Index_Ops
  imports Index_Refine
begin

text \<open>
  The index above single writes: operations and the pending mark that outlives a crash, the rebuild
  and the drift it records, duplicate detection, and what a search returns, in which order.
\<close>

section \<open>Operations\<close>

lemma insert_pending_Inr:
  "insert_pending_op i d = Inr d' \<longleftrightarrow> i \<notin> set (PendingOps d) \<and> d' = d\<lparr>PendingOps := PendingOps d @ [i]\<rparr>"
  by (auto simp: insert_pending_op_def)

lemma needs_reindex_pending: "PendingOps d \<noteq> [] \<Longrightarrow> needs_reindex d"
  by (simp add: needs_reindex_def count_pending_ops_def)

lemma mark_pending_new:
  "mark_pending i None d = (Inr op, d') \<longleftrightarrow>
     op = Some i \<and> i \<notin> set (PendingOps d) \<and> d' = d\<lparr>PendingOps := PendingOps d @ [i]\<rparr>"
  by (cases "insert_pending_op i d")
     (auto simp: mark_pending_def insert_pending_Inr insert_pending_op_def split: if_splits)

lemma filter_neq [simp]: "i \<notin> set xs \<Longrightarrow> filter (\<lambda>x. x \<noteq> i) xs = xs"
  by (induction xs) auto

lemma delete_pending_marked:
  "i \<notin> set (PendingOps d) \<Longrightarrow> delete_pending_op i (d\<lparr>PendingOps := PendingOps d @ [i]\<rparr>) = d"
  by (simp add: delete_pending_op_def)

lemma finish_Some:
  "finish (Some i) f d =
     (case f d of Inl e \<Rightarrow> (Inl e, d) | Inr d' \<Rightarrow> (Inr (), delete_pending_op i d'))"
  by (simp add: finish_def with_tx_def bind_res_def split: sum.split)

lemma db_ok_pending [simp]: "db_ok (d\<lparr>PendingOps := ops\<rparr>) = db_ok d"
  by (auto simp: db_ok_def series_ok_def idents_ok_def)

lemma db_clean_pending [simp]: "db_clean (d\<lparr>PendingOps := ops\<rparr>) = db_clean d"
  by (simp add: db_clean_def series_clean_def)

lemma shown_pending [simp]: "shown (d\<lparr>PendingOps := ops\<rparr>) r = shown d r"
  by (rule shown_cong) (auto simp: idents_of_def intro: row_series_same)

lemma abs_index_pending [simp]: "db_ok d \<Longrightarrow> abs_index (d\<lparr>PendingOps := ops\<rparr>) = abs_index d"
proof
  fix i assume ok: "db_ok d"
  then have ok': "db_ok (d\<lparr>PendingOps := ops\<rparr>)" by simp
  have "shown (d\<lparr>PendingOps := ops\<rparr>) = shown d" by (rule ext) simp
  then show "abs_index (d\<lparr>PendingOps := ops\<rparr>) i = abs_index d i"
    unfolding abs_index_shown [OF ok] abs_index_shown [OF ok'] by (simp add: row_of_def)
qed

text \<open>A marked operation: its success updates the map and takes back exactly its own mark; its
  failure leaves the database as it was when marked.\<close>

lemma op_put_marked:
  assumes ok: "db_ok d" and m: "mark_pending i None d = (Inr op, d1)"
  shows "if storable b
    then \<exists>d2. op_put op b mt d1 = (Inr (), d2) \<and> db_ok d2 \<and> db_clean d2 \<and>
           abs_index d2 = (abs_index d)(MID (Meta b) \<mapsto> bare (recorded b mt)) \<and>
           PendingOps d2 = PendingOps d \<and> UserVersion d2 = UserVersion d \<and> BookIdSeq d2 = BookIdSeq d
    else \<exists>e. op_put op b mt d1 = (Inl e, d1)"
proof -
  from m have op: "op = Some i" and d1: "d1 = d\<lparr>PendingOps := PendingOps d @ [i]\<rparr>"
    and i: "i \<notin> set (PendingOps d)" by (simp_all add: mark_pending_new)
  have ok1: "db_ok d1" using ok by (simp add: d1)
  have a1: "abs_index d1 = abs_index d" using ok by (simp add: d1)
  show ?thesis
  proof (cases "storable b")
    case True
    then obtain d' where d': "put_book b mt d1 = Inr d'" "db_ok d'" "db_clean d'"
      "abs_index d' = (abs_index d)(MID (Meta b) \<mapsto> bare (recorded b mt))"
      "PendingOps d' = PendingOps d1" "UserVersion d' = UserVersion d1" "BookIdSeq d' = BookIdSeq d1"
      using put_book_cases [OF ok1, of b mt] a1 by auto
    have p: "filter (\<lambda>x. x \<noteq> i) (PendingOps d1) = PendingOps d"
      using i by (simp add: d1)
    show ?thesis using True d' p by (simp add: op_put_def op finish_Some delete_pending_op_def d1)
  next
    case False
    then show ?thesis using put_book_cases [OF ok1, of b mt] by (auto simp: op_put_def op finish_Some)
  qed
qed

lemma op_delete_marked:
  assumes ok: "db_ok d" and m: "mark_pending i None d = (Inr op, d1)"
  shows "\<exists>d2. op_delete op j d1 = (Inr (), d2) \<and> db_ok d2 \<and> db_clean d2 \<and>
           abs_index d2 = (abs_index d)(j := None) \<and>
           PendingOps d2 = PendingOps d \<and> UserVersion d2 = UserVersion d \<and> BookIdSeq d2 = BookIdSeq d"
proof -
  from m have op: "op = Some i" and d1: "d1 = d\<lparr>PendingOps := PendingOps d @ [i]\<rparr>"
    and i: "i \<notin> set (PendingOps d)" by (simp_all add: mark_pending_new)
  have ok1: "db_ok d1" using ok by (simp add: d1)
  have a1: "abs_index d1 = abs_index d" using ok by (simp add: d1)
  obtain d' where d': "delete_book j d1 = Inr d'" "db_ok d'" "db_clean d'"
    "abs_index d' = (abs_index d)(j := None)" "PendingOps d' = PendingOps d1" "UserVersion d' = UserVersion d1" "BookIdSeq d' = BookIdSeq d1"
    using delete_book_post [OF ok1, of j] a1 by auto
  have p: "filter (\<lambda>x. x \<noteq> i) (PendingOps d1) = PendingOps d"
    using i by (simp add: d1)
  show ?thesis using d' p by (simp add: op_delete_def op finish_Some delete_pending_op_def d1)
qed

section \<open>Rebuilding\<close>

definition rebuilt :: "book_path list \<Rightarrow> int \<rightharpoonup> book" where
  "rebuilt bs = map_of (map (\<lambda>(b, mt). (MID (Meta b), bare (recorded b mt))) bs)"

definition info_row :: "book_row \<Rightarrow> skipped_row" where
  "info_row b = \<lparr>KEpubPath = REpubPath b, KEpubSize = REpubSize b, KEpubMtime = REpubMtime b,
     KMetaMtime = RMetaMtime b, KMetaSize = RMetaSize b\<rparr>"

lemma insert_row_upsert:
  "insert_book_row r d = Inr d' \<longleftrightarrow> RID r \<notin> set (book_ids d) \<and> upsert_book_row r d = Inr d'"
  by (auto simp: insert_book_row_def upsert_book_row_def)

lemma with_series_info [simp]: "info_row (with_series i sid sidx r) = info_row r"
  by (simp add: info_row_def with_series_def)

lemma insert_book_cases:
  assumes ok: "db_ok d"
  shows "if storable b \<and> MID (Meta b) \<notin> set (book_ids d)
    then \<exists>d'. insert_book b mt d = Inr d' \<and> db_ok d' \<and>
           abs_index d' = (abs_index d)(MID (Meta b) \<mapsto> bare (recorded b mt)) \<and>
           book_ids d' = book_ids d @ [MID (Meta b)] \<and>
           map info_row (Books d') = map info_row (Books d) @ [info_row (book_params b mt)] \<and>
           PendingOps d' = PendingOps d \<and> UserVersion d' = UserVersion d \<and>
           BookIdRows d' = BookIdRows d \<and> BookIdSeq d' = BookIdSeq d \<and> SkippedBooks d' = SkippedBooks d
    else \<exists>e. insert_book b mt d = Inl e"
proof (cases "Rating (Meta b) = NaN \<or> MID (Meta b) \<in> set (book_ids d)")
  case True
  then show ?thesis by (auto simp: storable_def insert_book_def insert_book_row_def)
next
  case False
  let ?p = "book_params b mt"
  obtain d1 where u: "upsert_book_row ?p d = Inr d1"
    using False upsert_iff [of ?p d] by auto
  have d1: "d1 = d\<lparr>Books := Books d @ [?p]\<rparr>" using u False by (auto simp: upsert_book_row_def)
  have ins: "insert_book_row ?p d = Inr d1" using u False by (simp add: insert_row_upsert)
  note up = upsert_post [OF ok u book_params_simps(2), unfolded book_params_simps(1)]
  show ?thesis
  proof (cases "relations_distinct b")
    case nd: False
    then show ?thesis using put_relations_cases [OF up(1,2)] ins by (auto simp: storable_def insert_book_def)
  next
    case rd: True
    then obtain d2 where p: "put_relations b d1 = Inr d2" and post: "put_post b d1 d2"
      using put_relations_cases [OF up(1,2)] by auto
    obtain r where r: "row_of (MID (Meta b)) d1 = Some r"
      "\<exists>sid sidx. r = ?p\<lparr>RSeriesID := sid, RSeriesIndex := sidx\<rparr>"
      using up(4) by auto
    from post obtain sid sidx where bk: "Books d2 = map (with_series (MID (Meta b)) sid sidx) (Books d1)"
      unfolding put_post_def Let_def by blast
    have "abs_index d2 = (abs_index d)(MID (Meta b) \<mapsto> bare (recorded b mt))"
      using abs_put_own [OF post r] abs_put_other [OF post up(1)] abs_index_row [OF ok up(1) up(3)] up(5)
      by (auto simp: fun_eq_iff)
    moreover have "book_ids d2 = book_ids d @ [MID (Meta b)]" by (simp add: book_ids_def bk d1 o_def)
    moreover have "map info_row (Books d2) = map info_row (Books d) @ [info_row ?p]"
      by (simp add: bk d1 o_def)
    ultimately show ?thesis
      using False rd ins p post by (simp add: insert_book_def storable_def put_post_def Let_def d1)
  qed
qed

lemma dom_rebuilt: "dom (rebuilt bs) = set (map (\<lambda>x. MID (Meta (fst x))) bs)"
  by (force simp: rebuilt_def dom_map_of_conv_image_fst)

lemma rebuilt_Cons:
  "MID (Meta b) \<notin> dom (rebuilt bs) \<Longrightarrow>
   m(MID (Meta b) \<mapsto> bare (recorded b mt)) ++ rebuilt bs = m ++ rebuilt ((b, mt) # bs)"
  by (simp add: map_add_upd_left) (simp add: rebuilt_def)

lemma insert_books_cases:
  assumes "db_ok d"
  shows "if (\<forall>x \<in> set bs. storable (fst x)) \<and> distinct (book_ids d @ map (\<lambda>x. MID (Meta (fst x))) bs)
    then \<exists>d'. insert_books bs d = Inr d' \<and> db_ok d' \<and> abs_index d' = abs_index d ++ rebuilt bs \<and>
           book_ids d' = book_ids d @ map (\<lambda>x. MID (Meta (fst x))) bs \<and>
           map info_row (Books d') = map info_row (Books d) @ map (\<lambda>x. info_row (book_params (fst x) (snd x))) bs \<and>
           PendingOps d' = PendingOps d \<and> UserVersion d' = UserVersion d \<and>
           BookIdRows d' = BookIdRows d \<and> BookIdSeq d' = BookIdSeq d \<and> SkippedBooks d' = SkippedBooks d
    else \<exists>e. insert_books bs d = Inl e"
  using assms
proof (induction bs arbitrary: d)
  case Nil
  then show ?case by (auto simp: db_ok_def rebuilt_def)
next
  case (Cons x bs)
  obtain b mt where x: "x = (b, mt)" by (cases x)
  show ?case
  proof (cases "storable b \<and> MID (Meta b) \<notin> set (book_ids d)")
    case False
    then show ?thesis using insert_book_cases [OF Cons.prems, of b mt] by (auto simp: x)
  next
    case True
    then obtain d1 where d1: "insert_book b mt d = Inr d1" "db_ok d1"
      "abs_index d1 = (abs_index d)(MID (Meta b) \<mapsto> bare (recorded b mt))"
      "book_ids d1 = book_ids d @ [MID (Meta b)]"
      "map info_row (Books d1) = map info_row (Books d) @ [info_row (book_params b mt)]"
      "PendingOps d1 = PendingOps d" "UserVersion d1 = UserVersion d"
      "BookIdRows d1 = BookIdRows d" "BookIdSeq d1 = BookIdSeq d" "SkippedBooks d1 = SkippedBooks d"
      using insert_book_cases [OF Cons.prems, of b mt] by auto
    have dd: "distinct (book_ids d)" using Cons.prems by (simp add: db_ok_def)
    have "abs_index d1 ++ rebuilt bs = abs_index d ++ rebuilt (x # bs)"
      if "MID (Meta b) \<notin> dom (rebuilt bs)"
      using rebuilt_Cons [OF that] by (simp add: d1(3) x)
    then show ?thesis
      using Cons.IH [OF d1(2)] d1(1,2,4-10) True dd by (auto simp: x dom_rebuilt split: if_splits)
  qed
qed

lemma insert_skipped_Inr:
  "insert_skipped xs d = Inr d' \<longleftrightarrow>
     distinct (map fst xs) \<and> set (map fst xs) \<inter> set (map KEpubPath (SkippedBooks d)) = {} \<and>
     d' = d\<lparr>SkippedBooks := SkippedBooks d @ map (\<lambda>x. skipped_row_of (fst x) (snd x)) xs\<rparr>"
proof (induction xs arbitrary: d)
  case (Cons x xs)
  obtain p i where x: "x = (p, i)" by (cases x)
  have path: "KEpubPath (skipped_row_of p i) = p" by (simp add: skipped_row_of_def)
  let ?d = "d\<lparr>SkippedBooks := SkippedBooks d @ [skipped_row_of p i]\<rparr>"
  have "insert_skipped (x # xs) d = Inr d' \<longleftrightarrow>
      p \<notin> set (map KEpubPath (SkippedBooks d)) \<and> insert_skipped xs ?d = Inr d'"
    by (simp add: x insert_skipped_book_def path)
  also have "\<dots> \<longleftrightarrow> p \<notin> set (map KEpubPath (SkippedBooks d)) \<and> distinct (map fst xs) \<and>
      set (map fst xs) \<inter> set (map KEpubPath (SkippedBooks ?d)) = {} \<and>
      d' = ?d\<lparr>SkippedBooks := SkippedBooks ?d @ map (\<lambda>x. skipped_row_of (fst x) (snd x)) xs\<rparr>"
    unfolding Cons.IH [of ?d] by simp
  finally show ?case by (auto simp: x path)
qed auto

lemma clear_tables_ok: "db_ok (clear_tables d)" "abs_index (clear_tables d) = Map.empty"
proof -
  show ok: "db_ok (clear_tables d)"
    by (simp add: db_ok_def clear_tables_def book_ids_def links_in_def links_of_def series_ok_def idents_ok_def
        relation_ok_def entity_ids_def entity_keys_def)
  have "row_of i (clear_tables d) = None" for i by (simp add: row_of_def clear_tables_def)
  then show "abs_index (clear_tables d) = Map.empty" by (simp add: fun_eq_iff abs_index_shown [OF ok])
qed

lemma clear_tables_simps [simp]:
  "Books (clear_tables d) = []" "book_ids (clear_tables d) = []" "SkippedBooks (clear_tables d) = []"
  "PendingOps (clear_tables d) = PendingOps d" "UserVersion (clear_tables d) = UserVersion d"
  "BookIdRows (clear_tables d) = BookIdRows d" "BookIdSeq (clear_tables d) = BookIdSeq d"
  by (simp_all add: clear_tables_def book_ids_def)

text \<open>The input a rebuild accepts, and the database it then leaves.\<close>

definition rebuildable :: "book_path list \<Rightarrow> (string \<times> path_info) list \<Rightarrow> bool" where
  "rebuildable bs skipped \<longleftrightarrow> (\<forall>x \<in> set bs. storable (fst x)) \<and>
     distinct (map (\<lambda>x. MID (Meta (fst x))) bs) \<and> distinct (map fst skipped)"

definition seq_ok :: "db \<Rightarrow> bool" where
  "seq_ok d \<longleftrightarrow> (\<forall>i \<in> set (BookIdRows d). i \<le> BookIdSeq d)"

lemma rebuild_tx_cases:
  assumes fresh: "i \<notin> set (PendingOps d)"
  shows "if rebuildable bs skipped
    then \<exists>d'. rebuild_tx i bs skipped m d = (Inr (), d') \<and> db_ok d' \<and> abs_index d' = rebuilt bs \<and>
       book_ids d' = map (\<lambda>x. MID (Meta (fst x))) bs \<and>
       map info_row (Books d') = map (\<lambda>x. info_row (book_params (fst x) (snd x))) bs \<and>
       SkippedBooks d' = map (\<lambda>x. skipped_row_of (fst x) (snd x)) skipped \<and>
       PendingOps d' = [] \<and>
       BookIdRows d' = (if m > 0 \<and> m \<notin> set (BookIdRows d) then BookIdRows d @ [m] else BookIdRows d) \<and>
       BookIdSeq d' = (if m > 0 \<and> m \<notin> set (BookIdRows d) then max (BookIdSeq d) m else BookIdSeq d)
    else \<exists>e. rebuild_tx i bs skipped m d = (Inl e, d\<lparr>PendingOps := PendingOps d @ [i]\<rparr>)"
proof -
  let ?d1 = "d\<lparr>PendingOps := PendingOps d @ [i]\<rparr>"
  have p: "insert_pending_op i d = Inr ?d1" using fresh by (simp add: insert_pending_Inr)
  show ?thesis
  proof (cases "(\<forall>x \<in> set bs. storable (fst x)) \<and> distinct (map (\<lambda>x. MID (Meta (fst x))) bs)")
    case False
    then have no: "((\<forall>x \<in> set bs. storable (fst x)) \<and>
        distinct (book_ids (clear_tables ?d1) @ map (\<lambda>x. MID (Meta (fst x))) bs)) = False" by simp
    obtain e where "insert_books bs (clear_tables ?d1) = Inl e"
      using insert_books_cases [OF clear_tables_ok(1) [of ?d1], of bs] unfolding no if_False by blast
    with False show ?thesis by (auto simp: rebuild_tx_def rebuild_body_def p with_tx_def rebuildable_def)
  next
    case True
    then obtain d2 where d2: "insert_books bs (clear_tables ?d1) = Inr d2" "db_ok d2" "abs_index d2 = rebuilt bs"
      "book_ids d2 = map (\<lambda>x. MID (Meta (fst x))) bs"
      "map info_row (Books d2) = map (\<lambda>x. info_row (book_params (fst x) (snd x))) bs"
      "BookIdRows d2 = BookIdRows d" "BookIdSeq d2 = BookIdSeq d" "SkippedBooks d2 = []"
      using insert_books_cases [OF clear_tables_ok(1) [of ?d1], of bs] clear_tables_ok(2) [of ?d1] by auto
    show ?thesis
    proof (cases "distinct (map fst skipped)")
      case False
      then have "\<nexists>d3. insert_skipped skipped d2 = Inr d3" by (simp add: insert_skipped_Inr)
      then obtain e where "insert_skipped skipped d2 = Inl e"
        by (cases "insert_skipped skipped d2") auto
      with False d2(1) show ?thesis by (auto simp: rebuild_tx_def rebuild_body_def p with_tx_def rebuildable_def)
    next
      case ds: True
      let ?d3 = "d2\<lparr>SkippedBooks := map (\<lambda>x. skipped_row_of (fst x) (snd x)) skipped\<rparr>"
      have k: "insert_skipped skipped d2 = Inr ?d3" using ds by (simp add: insert_skipped_Inr d2(8))
      have ok: "db_ok (d2\<lparr>SkippedBooks := s, BookIdRows := r, BookIdSeq := q, PendingOps := []\<rparr>)" for s r q
        using d2(2) by (simp add: db_ok_def book_ids_def series_ok_def idents_ok_def)
      have sh: "shown (d2\<lparr>SkippedBooks := s, BookIdRows := r, BookIdSeq := q, PendingOps := []\<rparr>) = shown d2" for s r q
        by (rule ext, rule shown_cong) (auto simp: idents_of_def intro: row_series_same)
      have ab: "abs_index (d2\<lparr>SkippedBooks := s, BookIdRows := r, BookIdSeq := q, PendingOps := []\<rparr>) = rebuilt bs" for s r q
        unfolding d2(3) [symmetric] fun_eq_iff abs_index_shown [OF ok] abs_index_shown [OF d2(2)] sh
        by (simp add: row_of_def)
      let ?add = "m > 0 \<and> m \<notin> set (BookIdRows d)"
      let ?d4 = "d2\<lparr>SkippedBooks := map (\<lambda>x. skipped_row_of (fst x) (snd x)) skipped,
          BookIdRows := (if ?add then BookIdRows d @ [m] else BookIdRows d),
          BookIdSeq := (if ?add then max (BookIdSeq d) m else BookIdSeq d), PendingOps := []\<rparr>"
      have "rebuild_tx i bs skipped m d = (Inr (), ?d4)"
        by (simp add: rebuild_tx_def rebuild_body_def p with_tx_def d2(1,6,7) k delete_all_pending_ops_def set_book_id_sequence_def
            flip: d2(6,7))
      then show ?thesis using True ds ok ab d2(4,5) by (simp add: rebuildable_def book_ids_def)
    qed
  qed
qed

lemma ensure_schema_keeps:
  "UserVersion d = schema_version \<Longrightarrow> ensure_schema d = d"
  "UserVersion d \<noteq> schema_version \<Longrightarrow> PendingOps (ensure_schema d) = [] \<and> UserVersion (ensure_schema d) = UserVersion d"
  by (simp_all add: ensure_schema_def empty_tables_def)

lemma db_ok_version [simp]: "db_ok (d\<lparr>UserVersion := v\<rparr>) = db_ok d"
  by (auto simp: db_ok_def book_ids_def series_ok_def idents_ok_def)

lemma abs_index_version [simp]: "db_ok d \<Longrightarrow> abs_index (d\<lparr>UserVersion := v\<rparr>) = abs_index d"
proof -
  assume ok: "db_ok d"
  then have ok': "db_ok (d\<lparr>UserVersion := v\<rparr>)" by simp
  have sh: "shown (d\<lparr>UserVersion := v\<rparr>) = shown d"
    by (rule ext, rule shown_cong) (auto simp: idents_of_def intro: row_series_same)
  show ?thesis unfolding fun_eq_iff abs_index_shown [OF ok] abs_index_shown [OF ok'] sh by (simp add: row_of_def)
qed

lemma rebuild_cases:
  assumes fresh: "i \<notin> set (PendingOps (ensure_schema d))"
  shows "if rebuildable bs skipped
    then \<exists>d'. rebuild i bs skipped m d = (Inr (), d') \<and> db_ok d' \<and> \<not> needs_reindex d' \<and>
       abs_index d' = rebuilt bs \<and>
       get_all_path_info d' = map (\<lambda>x. info_row (book_params (fst x) (snd x))) bs @
         map (\<lambda>x. skipped_row_of (fst x) (snd x)) skipped \<and>
       BookIdRows d' = (if m > 0 \<and> m \<notin> set (BookIdRows (ensure_schema d))
          then BookIdRows (ensure_schema d) @ [m] else BookIdRows (ensure_schema d)) \<and>
       BookIdSeq d' = (if m > 0 \<and> m \<notin> set (BookIdRows (ensure_schema d))
          then max (BookIdSeq (ensure_schema d)) m else BookIdSeq (ensure_schema d))
    else \<exists>e d'. rebuild i bs skipped m d = (Inl e, d') \<and> needs_reindex d' \<and>
       (UserVersion d = schema_version \<longrightarrow> d' = d\<lparr>PendingOps := PendingOps d @ [i]\<rparr>)"
proof (cases "rebuildable bs skipped")
  case True
  then obtain d1 where d1: "rebuild_tx i bs skipped m (ensure_schema d) = (Inr (), d1)" "db_ok d1"
    "abs_index d1 = rebuilt bs" "map info_row (Books d1) = map (\<lambda>x. info_row (book_params (fst x) (snd x))) bs"
    "SkippedBooks d1 = map (\<lambda>x. skipped_row_of (fst x) (snd x)) skipped" "PendingOps d1 = []"
    "BookIdRows d1 = (if m > 0 \<and> m \<notin> set (BookIdRows (ensure_schema d))
          then BookIdRows (ensure_schema d) @ [m] else BookIdRows (ensure_schema d))"
    "BookIdSeq d1 = (if m > 0 \<and> m \<notin> set (BookIdRows (ensure_schema d))
          then max (BookIdSeq (ensure_schema d)) m else BookIdSeq (ensure_schema d))"
    using rebuild_tx_cases [OF fresh, of bs skipped m] by auto
  have "get_all_path_info (d1\<lparr>UserVersion := schema_version\<rparr>) = map info_row (Books d1) @ SkippedBooks d1"
    by (simp add: get_all_path_info_def info_row_def)
  with True d1 show ?thesis
    by (simp add: rebuild_def needs_reindex_def count_pending_ops_def)
next
  case False
  then obtain e where e: "rebuild_tx i bs skipped m (ensure_schema d) =
      (Inl e, (ensure_schema d)\<lparr>PendingOps := PendingOps (ensure_schema d) @ [i]\<rparr>)"
    using rebuild_tx_cases [OF fresh, of bs skipped m] by auto
  then show ?thesis using False
    by (simp add: rebuild_def needs_reindex_pending ensure_schema_keeps)
qed

section \<open>Drift\<close>

text \<open>What a stored time reads back as: the nanosecond 0 of Unix time reads as the zero time.\<close>

definition time_kept :: "time \<Rightarrow> time" where
  "time_kept t = (if t = unix_epoch then 0 else t)"

definition info_kept :: "path_info \<Rightarrow> path_info" where
  "info_kept p = p\<lparr>EpubMtime := time_kept (EpubMtime p), MetaMtime := time_kept (MetaMtime p)\<rparr>"

lemma from_to_unix_nano: "from_unix_nano (to_unix_nano t) = time_kept t"
  by (simp add: from_unix_nano_def to_unix_nano_def time_kept_def unix_epoch_def)

lemma info_kept_id: "info_kept p = p \<longleftrightarrow> EpubMtime p \<noteq> unix_epoch \<and> MetaMtime p \<noteq> unix_epoch"
  by (cases p) (auto simp: info_kept_def time_kept_def unix_epoch_def)

definition row_info :: "skipped_row \<Rightarrow> path_info" where
  "row_info r = \<lparr>PSize = KEpubSize r, EpubMtime = from_unix_nano (KEpubMtime r),
     MetaSize = KMetaSize r, MetaMtime = from_unix_nano (KMetaMtime r)\<rparr>"

lemma row_info_simps [simp]:
  "row_info (skipped_row_of p i) = info_kept i" "row_info (info_row (book_params b mt)) = info_kept mt"
  "KEpubPath (skipped_row_of p i) = p" "KEpubPath (info_row (book_params b mt)) = EpubPath (Loc b)"
  by (simp_all add: row_info_def skipped_row_of_def info_row_def book_params_def from_to_unix_nano info_kept_def)

lemma all_path_info_rows_Inr:
  "all_path_info_rows m rs = Inr m' \<longleftrightarrow>
     distinct (map KEpubPath rs) \<and> set (map KEpubPath rs) \<inter> dom m = {} \<and>
     m' = m ++ map_of (map (\<lambda>r. (KEpubPath r, row_info r)) rs)"
proof (induction rs arbitrary: m)
  case (Cons r rs)
  let ?m = "m(KEpubPath r \<mapsto> row_info r)"
  have step: "all_path_info_rows m (r # rs) = Inr m' \<longleftrightarrow> KEpubPath r \<notin> dom m \<and> all_path_info_rows ?m rs = Inr m'"
    by (auto simp: all_path_info_step_def row_info_def)
  define M where "M = map_of (map (\<lambda>r. (KEpubPath r, row_info r)) (r # rs))"
  show ?case
  proof (cases "KEpubPath r \<in> KEpubPath ` set rs")
    case True
    then show ?thesis unfolding step Cons.IH by auto
  next
    case False
    then have "KEpubPath r \<notin> dom (map_of (map (\<lambda>r. (KEpubPath r, row_info r)) rs))"
      by (auto simp: dom_map_of_conv_image_fst)
    then have e: "?m ++ map_of (map (\<lambda>r. (KEpubPath r, row_info r)) rs) = m ++ M"
      by (simp add: map_add_upd_left M_def)
    from False show ?thesis unfolding step Cons.IH e M_def [symmetric] by auto
  qed
qed auto

text \<open>After a rebuild, every path the scan saw is recorded with what was observed of it.\<close>

definition scanned_info :: "book_path list \<Rightarrow> (string \<times> path_info) list \<Rightarrow> (string \<times> path_info) list" where
  "scanned_info bs skipped = map (\<lambda>x. (EpubPath (Loc (fst x)), info_kept (snd x))) bs @
     map (\<lambda>x. (fst x, info_kept (snd x))) skipped"

lemma all_path_info_rebuilt:
  assumes "get_all_path_info d = map (\<lambda>x. info_row (book_params (fst x) (snd x))) bs @
      map (\<lambda>x. skipped_row_of (fst x) (snd x)) skipped"
    and "distinct (map fst (scanned_info bs skipped))"
  shows "all_path_info d = Inr (map_of (scanned_info bs skipped))"
proof -
  let ?rs = "get_all_path_info d"
  have p: "map (\<lambda>r. (KEpubPath r, row_info r)) ?rs = scanned_info bs skipped"
    by (simp add: assms(1) scanned_info_def o_def)
  have "map fst (map (\<lambda>r. (KEpubPath r, row_info r)) ?rs) = map KEpubPath ?rs" by simp
  then have "distinct (map KEpubPath ?rs)" using assms(2) p by metis
  moreover have "Map.empty ++ map_of (map (\<lambda>r. (KEpubPath r, row_info r)) ?rs) = map_of (scanned_info bs skipped)"
    by (simp add: p)
  ultimately show ?thesis
    unfolding all_path_info_def all_path_info_rows_Inr by auto
qed

section \<open>Duplicate detection\<close>

lemma length_links: "relation_ok r \<Longrightarrow> length (keys_of_book i r) = length (links_of i r)"
  using joined_positions [of r i] by (metis keys_of_book_def length_map)

lemma distinct_keys_of_book:
  assumes ok: "relation_ok r"
  shows "distinct (keys_of_book i r)"
proof -
  have "distinct (map fst (links_of i r))" using ok by (simp add: relation_ok_def distinct_links_of)
  then have dl: "distinct (links_of i r)" "inj_on fst (set (links_of i r))" by (simp_all add: distinct_map)
  have "inj_on (\<lambda>l. the (key_of r (fst l))) (set (links_of i r))"
  proof (rule inj_onI)
    fix l m assume lm: "l \<in> set (links_of i r)" "m \<in> set (links_of i r)"
      and e: "the (key_of r (fst l)) = the (key_of r (fst m))"
    then obtain k where "key_of r (fst l) = Some k" "key_of r (fst m) = Some k"
      using links_have_keys [OF ok, of i] by fastforce
    then have "fst l = fst m" by (rule key_of_inj [OF ok])
    then show "l = m" using dl(2) lm by (simp add: inj_on_def)
  qed
  then have "distinct (map (\<lambda>l. the (key_of r (fst l))) (links_of i r))" using dl(1) by (simp add: distinct_map)
  moreover have "keys_of_book i r = map (\<lambda>l. the (key_of r (fst l))) (links_of i r)"
    unfolding keys_of_book_links using links_have_keys [OF ok, of i] by (intro pick_all) fastforce
  ultimately show ?thesis by simp
qed

lemma exists_book_iff:
  assumes ok: "db_ok d" and dn: "distinct names"
  shows "exists_book t names d \<longleftrightarrow>
    (\<exists>i b. abs_index d i = Some b \<and> Title (Bib b) = t \<and> set (map AName (Authors (Bib b))) = set names)"
proof -
  have rk: "relation_ok (AuthorsR d)" using ok by (simp add: db_ok_def)
  have an: "map AName (map bare_author ns) = ns" for ns by (simp add: bare_author_def map_idI)
  have pos: "set (in_position i (AuthorsR d)) = set (keys_of_book i (AuthorsR d))" for i
    using length_links [OF rk, of i] by (simp add: in_position_def) (metis length_map map_fst_zip set_map)
  have same: "int (length (links_of i (AuthorsR d))) = int (length names) \<and>
      \<not> (\<exists>a \<in> set (joined i (AuthorsR d)). names \<noteq> [] \<and> fst (snd a) \<notin> set names) \<longleftrightarrow>
      set (keys_of_book i (AuthorsR d)) = set names" (is "?l \<and> ?s \<longleftrightarrow> ?e") for i
  proof -
    have len: "length (links_of i (AuthorsR d)) = card (set (keys_of_book i (AuthorsR d)))"
      using distinct_card [OF distinct_keys_of_book [OF rk]] length_links [OF rk] by metis
    have cn: "card (set names) = length names" using dn by (rule distinct_card)
    have "?s \<longleftrightarrow> names = [] \<or> set (keys_of_book i (AuthorsR d)) \<subseteq> set names"
      by (auto simp: keys_of_book_def)
    moreover have "set (keys_of_book i (AuthorsR d)) = set names"
      if "length (links_of i (AuthorsR d)) = length names" "set (keys_of_book i (AuthorsR d)) \<subseteq> set names"
      using card_subset_eq [of "set names"] len cn that by simp
    ultimately show ?thesis using len cn by (cases "names = []") auto
  qed
  have "(\<exists>i b. abs_index d i = Some b \<and> Title (Bib b) = t \<and> set (map AName (Authors (Bib b))) = set names) \<longleftrightarrow>
      (\<exists>i r. row_of i d = Some r \<and> RTitle r = t \<and> set (keys_of_book i (AuthorsR d)) = set names)"
  proof -
    have row: "(abs_index d i = Some b) \<longleftrightarrow> (\<exists>r. row_of i d = Some r \<and> b = shown d r)" for i b
      by (auto simp: abs_index_shown [OF ok])
    have "set (map AName (Authors (Bib (shown d r)))) = set (keys_of_book (RID r) (AuthorsR d))" for r
      by (simp add: shown_def to_book_def Let_def an pos del: map_map set_map)
    then have fields: "Title (Bib (shown d r)) = RTitle r"
      "AName ` set (Authors (Bib (shown d r))) = set (keys_of_book (RID r) (AuthorsR d))" for r
      by (simp_all add: shown_def to_book_def Let_def image_image)
    have "row_of i d = Some r \<Longrightarrow> RID r = i" for i r using row_of_Some by blast
    then have rid: "row_of i d = Some r \<longleftrightarrow> row_of i d = Some r \<and> RID r = i" for i r by blast
    show ?thesis unfolding row
    proof (intro iffI; elim exE conjE)
      fix i b r assume a: "Title (Bib b) = t" "set (map AName (Authors (Bib b))) = set names"
        "row_of i d = Some r" "b = shown d r"
      then have "RID r = i" using rid by blast
      with a show "\<exists>i r. row_of i d = Some r \<and> RTitle r = t \<and> set (keys_of_book i (AuthorsR d)) = set names"
        by (intro exI [of _ i] exI [of _ r]) (simp add: fields)
    next
      fix i r assume a: "row_of i d = Some r" "RTitle r = t" "set (keys_of_book i (AuthorsR d)) = set names"
      then have "RID r = i" using rid by blast
      with a show "\<exists>i b. (\<exists>r. row_of i d = Some r \<and> b = shown d r) \<and> Title (Bib b) = t \<and>
          set (map AName (Authors (Bib b))) = set names"
        by (intro exI [of _ i] exI [of _ "shown d r"]) (auto simp: fields)
    qed
  qed
  also have "\<dots> \<longleftrightarrow> (\<exists>r \<in> set (Books d). RTitle r = t \<and> set (keys_of_book (RID r) (AuthorsR d)) = set names)"
    using row_of_in [OF ok] by (auto dest: row_of_Some)
  finally show ?thesis unfolding exists_book_def book_exists_def same by (rule sym)
qed

section \<open>What operations promise\<close>

text \<open>Between its mark and its commit an operation leaves the index asking for a rebuild. A put that
  fails changes nothing and leaves the mark; one that succeeds writes the book and takes back its own
  mark only, so marks of other operations survive it; a cancel restores the index exactly.\<close>

theorem marked_put:
  assumes "db_ok d" "mark_pending i None d = (Inr op, d1)"
  shows "needs_reindex d1 \<and> cancel op d1 = (None, d) \<and>
    (case op_put op b mt d1 of
       (Inl e, d2) \<Rightarrow> \<not> storable b \<and> d2 = d1
     | (Inr _, d2) \<Rightarrow> storable b \<and> db_ok d2 \<and> PendingOps d2 = PendingOps d \<and>
         abs_index d2 = (abs_index d)(MID (Meta b) \<mapsto> bare (recorded b mt)))"
proof -
  from assms(2) have op: "op = Some i" "i \<notin> set (PendingOps d)" "d1 = d\<lparr>PendingOps := PendingOps d @ [i]\<rparr>"
    by (simp_all add: mark_pending_new)
  then have "needs_reindex d1" "cancel op d1 = (None, d)"
    by (simp_all add: needs_reindex_pending cancel_def delete_pending_marked)
  then show ?thesis using op_put_marked [OF assms, of b mt] by (auto split: if_splits)
qed

theorem marked_put_witness:
  "needs_reindex (empty_tables [''k''] 14) \<and>
   (\<exists>d2. op_put (Some ''k'') sample_book unobserved (empty_tables [''k''] 14) = (Inr (), d2) \<and> PendingOps d2 = [])"
  using marked_put [OF db_ok_empty [of "[]" 14], of "''k''" "Some ''k''" "empty_tables [''k''] 14" sample_book unobserved]
  by (simp add: mark_pending_new empty_tables_def split: prod.splits sum.splits)



text \<open>After a rebuild the index knows every path the scan saw, indexed or skipped, with the sizes and
  times observed, except that a time of exactly 1970-01-01 00:00:00 UTC reads back as the zero time.\<close>

theorem rebuild_records_paths:
  assumes "i \<notin> set (PendingOps (ensure_schema d))" "rebuild i bs skipped m d = (Inr (), d')"
    and "distinct (map fst (scanned_info bs skipped))"
  shows "all_path_info d' = Inr (map_of (scanned_info bs skipped))"
  using rebuild_cases [OF assms(1), of bs skipped m] assms(2) all_path_info_rebuilt [OF _ assms(3)]
  by (auto split: if_splits)

theorem rebuild_records_paths_witness:
  "\<exists>d'. all_path_info d' = Inr (map_of (scanned_info [(sample_book, unobserved)] [(''bad.epub'', unobserved)]))"
proof -
  let ?d = "empty_tables [] 13" and ?b = "[(sample_book, unobserved)]" and ?s = "[(''bad.epub'', unobserved)]"
  have f: "''k'' \<notin> set (PendingOps (ensure_schema ?d))" by (simp add: ensure_schema_def empty_tables_def)
  obtain d' where "rebuild ''k'' ?b ?s 4 ?d = (Inr (), d')"
    using rebuild_cases [OF f, of ?b ?s 4] by (auto simp: rebuildable_def)
  from rebuild_records_paths [OF f this] show ?thesis by (auto simp: scanned_info_def sample_book_def)
qed

text \<open>The recorded state of a file equals the observed one exactly when neither of its two times is
  the Unix epoch: such a file looks changed at every start.\<close>

theorem recorded_time_drifts:
  "path_info_equal (row_info (skipped_row_of p i)) i \<longleftrightarrow> EpubMtime i \<noteq> unix_epoch \<and> MetaMtime i \<noteq> unix_epoch"
  unfolding path_info_equal_iff row_info_simps by (rule info_kept_id)

text \<open>Duplicate detection finds a book exactly when one with the same title and the same set of author
  names is in the index, in whatever order the authors come.\<close>

theorem exists_is_same_title_authors:
  assumes "db_ok d" "distinct names"
  shows "exists_book t names d \<longleftrightarrow>
    (\<exists>i b. abs_index d i = Some b \<and> Title (Bib b) = t \<and> set (map AName (Authors (Bib b))) = set names)"
  by (rule exists_book_iff [OF assms])

theorem exists_is_same_title_authors_witness:
  "\<exists>d. db_ok d \<and> abs_index d 1 \<noteq> None \<and> exists_book ''T'' [''Ann''] d"
proof -
  obtain d where d: "db_ok d" "abs_index d = (abs_index (empty_tables [] 14))(1 \<mapsto> bare (recorded sample_book unobserved))"
    using put_book_cases [OF db_ok_empty [of "[]" 14], of sample_book unobserved] by auto
  have "exists_book ''T'' [''Ann''] d"
    unfolding exists_is_same_title_authors [OF d(1), of "[''Ann'']" "''T''", simplified]
    using d(2) by (intro exI [of _ 1] exI [of _ "bare (recorded sample_book unobserved)"])
      (simp add: bare_def recorded_def sample_book_def bare_author_def)
  with d show ?thesis by auto
qed

end
