(* ===== verification/Index_Search.thy ===== *)
theory Index_Search
  imports Index_Ops "HOL-Library.Multiset"
begin

text \<open>
  What a search returns: the escaped title pattern finds exactly the titles that contain the text,
  the \<^verbatim>\<open>ORDER BY\<close> clauses are total orders on rows of different ids, and every book found is the one
  \<^verbatim>\<open>Get\<close> returns.
\<close>

section \<open>LIKE\<close>

definition escape_char :: "char \<Rightarrow> string" where
  "escape_char c = (if c = CHR 0x5C \<or> c = CHR ''%'' \<or> c = CHR ''_'' then [CHR 0x5C, c] else [c])"

lemma replace_char_append: "replace_char c r (xs @ ys) = replace_char c r xs @ replace_char c r ys"
  by (induction xs) auto

lemma escape_sql_like_concat: "escape_sql_like s = concat (map escape_char s)"
  by (induction s) (auto simp: escape_sql_like_def escape_char_def replace_char_append)

lemma like_percent: "like ''%'' s"
  by (induction s) auto

lemma like_escaped:
  "like (concat (map escape_char t) @ ''%'') s \<longleftrightarrow>
     (\<exists>m q. s = m @ q \<and> map ascii_fold m = map ascii_fold t)"
proof (induction t arbitrary: s)
  case Nil
  then show ?case using like_percent by simp
next
  case (Cons c t)
  have step: "like (escape_char c @ p) s = (case s of [] \<Rightarrow> False | x # xs \<Rightarrow> ascii_fold c = ascii_fold x \<and> like p xs)" for p s
    by (auto simp: escape_char_def split: list.split)
  show ?case
  proof (cases s)
    case Nil
    then show ?thesis by (simp add: escape_char_def)
  next
    case (Cons x xs)
    have "like (concat (map escape_char (c # t)) @ ''%'') s \<longleftrightarrow>
        ascii_fold c = ascii_fold x \<and> (\<exists>m q. xs = m @ q \<and> map ascii_fold m = map ascii_fold t)"
      using Cons.IH [of xs] by (simp add: step Cons del: like.simps)
    also have "\<dots> \<longleftrightarrow> (\<exists>m q. s = m @ q \<and> map ascii_fold m = map ascii_fold (c # t))"
      unfolding Cons by (auto simp: Cons_eq_append_conv map_eq_Cons_conv) metis+
    finally show ?thesis .
  qed
qed

lemma like_any_prefix: "like (CHR ''%'' # p) s \<longleftrightarrow> (\<exists>u v. s = u @ v \<and> like p v)"
proof (induction s)
  case (Cons x s)
  then show ?case by (auto simp: Cons_eq_append_conv)
qed simp

lemma title_like_iff:
  "title_like t s \<longleftrightarrow> (\<exists>u m q. s = u @ m @ q \<and> map ascii_fold m = map ascii_fold t)"
  unfolding title_like_def like_any_prefix escape_sql_like_concat like_escaped by auto

section \<open>Order\<close>

lemma rating_less_irrefl: "\<not> rating_less a a"
  by (cases a) (simp_all add: rating_less_def)

lemma rating_less_neg_trans:
  "\<not> rating_less a b \<Longrightarrow> \<not> rating_less b c \<Longrightarrow> \<not> rating_less a c"
  by (cases a; cases b; cases c) (auto simp: rating_less_def)

lemma rating_less_trans: "rating_less a b \<Longrightarrow> rating_less b c \<Longrightarrow> rating_less a c"
  by (cases a; cases b; cases c) (auto simp: rating_less_def)

lemma title_before_total: "RID r \<noteq> RID s \<Longrightarrow> title_before r s \<longleftrightarrow> \<not> title_before s r"
  by (auto simp: title_before_def)

lemma title_before_neg_trans: "\<not> title_before a b \<Longrightarrow> \<not> title_before b c \<Longrightarrow> \<not> title_before a c"
  by (auto simp: title_before_def)

lemma row_before_asym: "row_before ord r s \<Longrightarrow> \<not> row_before ord s r"
  by (cases ord) (auto simp: title_before_def dest: rating_less_trans simp: rating_less_irrefl)

lemma row_before_neg_trans:
  "\<not> row_before ord a b \<Longrightarrow> \<not> row_before ord b c \<Longrightarrow> \<not> row_before ord a c"
  by (cases ord) (auto simp: title_before_def dest: rating_less_neg_trans rating_less_trans)

lemma row_before_total: "RID r \<noteq> RID s \<Longrightarrow> row_before ord r s \<or> row_before ord s r"
  by (cases ord) (auto simp: title_before_def rating_less_def split: option.splits)

lemma mset_insert_row: "mset (insert_row ord r rs) = add_mset r (mset rs)"
  by (induction rs) auto

lemma set_insert_row: "set (insert_row ord r rs) = insert r (set rs)"
  by (induction rs) auto

lemma sorted_insert_row:
  assumes "sorted_wrt (\<lambda>r s. \<not> row_before ord s r) rs"
  shows "sorted_wrt (\<lambda>r s. \<not> row_before ord s r) (insert_row ord r rs)"
  using assms
proof (induction rs)
  case (Cons s rs)
  then show ?case
    using row_before_neg_trans [of ord _ s r] row_before_asym by (auto simp: set_insert_row)
qed simp

lemma order_rows_sorted: "sorted_wrt (\<lambda>r s. \<not> row_before ord s r) (order_rows ord rs)"
  by (induction rs) (simp_all add: order_rows_def sorted_insert_row)

lemma order_rows_mset: "mset (order_rows ord rs) = mset rs"
  by (induction rs) (simp_all add: order_rows_def mset_insert_row)

section \<open>Search\<close>

lemma filter_pick_key:
  assumes "\<And>l y. f l = Some y \<Longrightarrow> fst y = fst l" "i \<in> set ids"
  shows "filter (\<lambda>x. fst x = i) (pick f (filter (\<lambda>l. fst l \<in> set ids) ls)) = pick f (filter (\<lambda>l. fst l = i) ls)"
proof (induction ls)
  case (Cons l ls)
  then show ?case using assms by (cases "f l") auto
qed simp

lemma joined_rows_of:
  "i \<in> set ids \<Longrightarrow> filter (\<lambda>x. fst x = i) (joined_rows ids r) = joined_rows [i] r"
  unfolding joined_rows_def by (subst filter_pick_key) auto

lemma rows_of_map:
  "(\<And>x. x \<in> set xs \<Longrightarrow> fst (f x) = fst x) \<Longrightarrow>
   rows_of i (map f xs) = map (\<lambda>x. snd (f x)) (filter (\<lambda>x. fst x = i) xs)"
  by (induction xs) (auto simp: rows_of_def)

lemma load_many:
  assumes "i \<in> set ids"
  shows "load_authors ids d i = load_authors [i] d i" "load_tags ids d i = load_tags [i] d i"
    and "load_subjects ids d i = load_subjects [i] d i" "load_contributors ids d i = load_contributors [i] d i"
    and "load_identifiers ids d i = load_identifiers [i] d i"
proof -
  have all: "filter (\<lambda>x. fst x = i) (joined_rows [i] r) = joined_rows [i] r" for r :: "('k, 'v, 'p) relation"
    by (rule joined_rows_of) simp
  show "load_authors ids d i = load_authors [i] d i"
    unfolding load_authors_def get_authors_by_book_ids_def
    by (simp add: rows_of_map case_prod_beta filter_sort joined_rows_of assms)
  show "load_contributors ids d i = load_contributors [i] d i"
    unfolding load_contributors_def get_contributors_by_book_ids_def
    by (simp add: rows_of_map case_prod_beta filter_sort joined_rows_of assms)
  show "load_tags ids d i = load_tags [i] d i"
    unfolding load_tags_def get_tags_by_book_ids_def
    by (simp add: rows_of_map case_prod_beta filter_sort joined_rows_of assms)
  show "load_subjects ids d i = load_subjects [i] d i"
    unfolding load_subjects_def get_subjects_by_book_ids_def
    by (simp add: rows_of_map case_prod_beta filter_sort joined_rows_of assms)
  show "load_identifiers ids d i = load_identifiers [i] d i"
    unfolding load_identifiers_def get_identifiers_by_book_ids_def rows_of_def
    using assms by (auto simp: filter_sort intro!: arg_cong [where f = "\<lambda>x. map snd (sort_key fst x)"] filter_cong)
qed

lemma bare_hydrated:
  assumes ok: "db_ok d" and k: "k < length rs"
  shows "bare (hydrate_books d (map (to_book d) rs) ! k) = shown d (rs ! k)"
proof -
  let ?ids = "map (\<lambda>b. MID (Meta b)) (map (to_book d) rs)"
  have id: "MID (Meta (to_book d (rs ! k))) = RID (rs ! k)" by (simp add: to_book_def)
  have "RID (rs ! k) \<in> set ?ids" using k by (force simp: to_book_def)
  from load_many [OF this] load_one [OF ok, of "RID (rs ! k)"] show ?thesis
    unfolding hydrate_books_def Let_def using k id
    by (simp add: shown_def to_book_def bare_def Let_def flip: map_map [unfolded o_def])
qed

lemma search_shown:
  assumes "db_ok d"
  shows "map bare (search q d) = map (shown d) (query_rows q d)"
proof (rule nth_equalityI)
  show "length (map bare (search q d)) = length (map (shown d) (query_rows q d))"
    by (simp add: search_def hydrate_books_def Let_def)
  then show "map bare (search q d) ! k = map (shown d) (query_rows q d) ! k"
    if "k < length (map bare (search q d))" for k
    using that bare_hydrated [OF assms, of k "query_rows q d"] by (simp add: search_def)
qed

section \<open>What a search promises\<close>

text \<open>A title term matches exactly the titles that contain its text, letters of ASCII in either case:
  the characters \<^verbatim>\<open>LIKE\<close> gives a meaning (percent, underscore, backslash) match only themselves.\<close>

theorem title_like_contains:
  "title_like t s \<longleftrightarrow> (\<exists>u m q. s = u @ m @ q \<and> map ascii_fold m = map ascii_fold t)"
  by (rule title_like_iff)



text \<open>Each order a query can ask for is strict, transitive on its negation and total on rows of different
  ids, so the result of a search is determined by its rows alone.\<close>

theorem order_determined:
  "(row_before ord r s \<longrightarrow> \<not> row_before ord s r) \<and>
   (\<not> row_before ord a b \<longrightarrow> \<not> row_before ord b c \<longrightarrow> \<not> row_before ord a c) \<and>
   (RID r \<noteq> RID s \<longrightarrow> row_before ord r s \<or> row_before ord s r)"
  using row_before_asym row_before_neg_trans row_before_total by blast

theorem order_determined_witness:
  "row_before OrderSortTitle (book_params sample_book unobserved)
     ((book_params sample_book unobserved)\<lparr>RTitle := ''A'', RSortTitle := None, RID := 2\<rparr>) \<noteq>
   row_before OrderSortTitle ((book_params sample_book unobserved)\<lparr>RTitle := ''A'', RSortTitle := None, RID := 2\<rparr>)
     (book_params sample_book unobserved)"
  using order_determined [of OrderSortTitle "book_params sample_book unobserved"
      "(book_params sample_book unobserved)\<lparr>RTitle := ''A'', RSortTitle := None, RID := 2\<rparr>"]
  by (simp, blast)

end
