(* ===== verification/Files.thy ===== *)
theory Files
  imports Paths Edits Entity_Links
begin

text \<open>
  The file system the program runs on, as far as Go's \<open>os\<close> package shows it: a tree of directories and
  files, kept as a list of absolute paths (component lists) with what is there; each call reads or
  changes the list and can fail. The run of the machine is in the state too: \<open>Fates\<close> says of each
  coming call whether it works, fails with an I/O error, or is where the machine stops (from then on no
  call does anything), so a theorem over all fates covers every failure and every crash point.
  \<open>Clock\<close> is \<^verbatim>\<open>time.Now\<close>. The record is extended by the index in the theory \<open>World\<close>; every call here
  leaves the extension alone (\<open>quiet\<close>) and changes only the paths it names (\<open>touches\<close>).
\<close>

datatype err =
    Enoent | Eexist | Enotempty | Eisdir | Enotdir | Einval | Eio | Crashed
  | DestExists string | NoEpub string | BadToml | BadEpub string | EntryMissing string
  | NoTitle | NoAuthors | BookNotFound int | Rejected "field_error list"
  | DuplicateBook string | DuplicateOnDisk string | DuplicateId int string string
  | Db db_error | HookFailed string | BadJson | ShortRead

datatype node = Dir | File bytes time

type_synonym fs = "(path \<times> node) list"

datatype fate = Works | Fails | Crashes

record os =
  FS :: fs
  Fates :: "fate list"
  Clock :: time
  Alive :: bool

type_synonym ('a, 'z) io = "'z os_scheme \<Rightarrow> (err + 'a) \<times> 'z os_scheme"

section \<open>Sequencing\<close>

definition return_io :: "'a \<Rightarrow> ('a, 'z) io" where
  "return_io x w = (Inr x, w)"

definition fail_io :: "err \<Rightarrow> ('a, 'z) io" where
  "fail_io e w = (Inl e, w)"

definition bind_io :: "('a, 'z) io \<Rightarrow> ('a \<Rightarrow> ('b, 'z) io) \<Rightarrow> ('b, 'z) io" where
  "bind_io m k w = (case m w of (Inl e, w') \<Rightarrow> (Inl e, w') | (Inr x, w') \<Rightarrow> k x w')"

text \<open>\<open>attempt m\<close> hands the error of \<open>m\<close> to the caller instead of returning it.\<close>

definition attempt :: "('a, 'z) io \<Rightarrow> (err + 'a, 'z) io" where
  "attempt m w = (case m w of (r, w') \<Rightarrow> (Inr r, w'))"

text \<open>A deferred call: it runs whatever happened, and its result is dropped.\<close>

definition finally_io :: "('a, 'z) io \<Rightarrow> ('b, 'z) io \<Rightarrow> ('a, 'z) io" where
  "finally_io m c w = (case m w of (r, w') \<Rightarrow> (r, snd (c w')))"

definition syscall :: "('a, 'z) io \<Rightarrow> ('a, 'z) io" where
  "syscall f w =
     (if \<not> Alive w then (Inl Crashed, w)
      else (case Fates w of
          [] \<Rightarrow> f w
        | Works # fs \<Rightarrow> f (w\<lparr>Fates := fs\<rparr>)
        | Fails # fs \<Rightarrow> (Inl Eio, w\<lparr>Fates := fs\<rparr>)
        | Crashes # fs \<Rightarrow> (Inl Crashed, w\<lparr>Fates := fs, Alive := False\<rparr>)))"

section \<open>The tree\<close>

definition comps :: "string \<Rightarrow> path" where
  "comps s = clean_comps s"

definition node_at :: "path \<Rightarrow> fs \<Rightarrow> node option" where
  "node_at p fs = (if p = [] then Some Dir else map_of fs p)"

definition put_node :: "path \<Rightarrow> node \<Rightarrow> fs \<Rightarrow> fs" where
  "put_node p n fs = (p, n) # filter (\<lambda>x. fst x \<noteq> p) fs"

definition drop_node :: "path \<Rightarrow> fs \<Rightarrow> fs" where
  "drop_node p fs = filter (\<lambda>x. fst x \<noteq> p) fs"

definition children :: "path \<Rightarrow> fs \<Rightarrow> (string \<times> node) list" where
  "children p fs = sort_key fst
     (pick (\<lambda>(q, n). if q \<noteq> [] \<and> butlast q = p then Some (last q, n) else None) fs)"

definition below :: "path \<Rightarrow> fs \<Rightarrow> path list" where
  "below p fs = filter (prefix p) (map fst fs)"

definition moved_path :: "path \<Rightarrow> path \<Rightarrow> path \<Rightarrow> path" where
  "moved_path p q r = (if prefix p r then q @ drop (length p) r else r)"

definition move_node :: "path \<Rightarrow> path \<Rightarrow> fs \<Rightarrow> fs" where
  "move_node p q fs = map (\<lambda>x. (moved_path p q (fst x), snd x)) (drop_node q fs)"

text \<open>Why a path is not there: a component above it is a file, or nothing is.\<close>

definition missing :: "path \<Rightarrow> fs \<Rightarrow> err" where
  "missing p fs =
     (if \<exists>k \<in> set [1..<length p]. (case node_at (take k p) fs of Some (File _ _) \<Rightarrow> True | _ \<Rightarrow> False)
      then Enotdir else Enoent)"

section \<open>Calls\<close>

definition with_fs :: "(fs \<Rightarrow> err + fs) \<Rightarrow> (unit, 'z) io" where
  "with_fs f w = (case f (FS w) of Inl e \<Rightarrow> (Inl e, w) | Inr fs \<Rightarrow> (Inr (), w\<lparr>FS := fs\<rparr>))"

definition os_stat :: "string \<Rightarrow> (node, 'z) io" where
  "os_stat s = syscall (\<lambda>w. case node_at (comps s) (FS w) of
      None \<Rightarrow> (Inl (missing (comps s) (FS w)), w)
    | Some n \<Rightarrow> (Inr n, w))"

definition os_read_dir :: "string \<Rightarrow> ((string \<times> node) list, 'z) io" where
  "os_read_dir s = syscall (\<lambda>w. case node_at (comps s) (FS w) of
      None \<Rightarrow> (Inl (missing (comps s) (FS w)), w)
    | Some Dir \<Rightarrow> (Inr (children (comps s) (FS w)), w)
    | Some (File _ _) \<Rightarrow> (Inl Enotdir, w))"

definition os_read_file :: "string \<Rightarrow> (bytes, 'z) io" where
  "os_read_file s = syscall (\<lambda>w. case node_at (comps s) (FS w) of
      None \<Rightarrow> (Inl (missing (comps s) (FS w)), w)
    | Some Dir \<Rightarrow> (Inl Eisdir, w)
    | Some (File b _) \<Rightarrow> (Inr b, w))"

definition mkdir_fs :: "path \<Rightarrow> fs \<Rightarrow> err + fs" where
  "mkdir_fs p fs =
     (if node_at p fs \<noteq> None then Inl Eexist
      else (case node_at (butlast p) fs of
          Some Dir \<Rightarrow> Inr (put_node p Dir fs)
        | Some (File _ _) \<Rightarrow> Inl Enotdir
        | None \<Rightarrow> Inl (missing p fs)))"

definition os_mkdir :: "string \<Rightarrow> (unit, 'z) io" where
  "os_mkdir s = syscall (with_fs (mkdir_fs (comps s)))"

text \<open>\<^verbatim>\<open>MkdirAll\<close> makes the missing directories from the top, one call each.\<close>

fun mkdir_list :: "path list \<Rightarrow> (unit, 'z) io" where
  "mkdir_list [] w = (Inr (), w)"
| "mkdir_list (p # ps) w =
     (case node_at p (FS w) of
        Some Dir \<Rightarrow> mkdir_list ps w
      | Some (File _ _) \<Rightarrow> (Inl Enotdir, w)
      | None \<Rightarrow> bind_io (syscall (with_fs (mkdir_fs p))) (\<lambda>_. mkdir_list ps) w)"

definition os_mkdir_all :: "string \<Rightarrow> (unit, 'z) io" where
  "os_mkdir_all s = (let p = comps s in mkdir_list (map (\<lambda>k. take k p) [1..<Suc (length p)]))"

definition rename_fs :: "path \<Rightarrow> path \<Rightarrow> fs \<Rightarrow> err + fs" where
  "rename_fs p q fs =
     (case node_at p fs of
        None \<Rightarrow> Inl (missing p fs)
      | Some n \<Rightarrow>
          if p = q then Inr fs
          else if prefix p q \<or> p = [] \<or> q = [] then Inl Einval
          else (case node_at (butlast q) fs of
              None \<Rightarrow> Inl (missing q fs)
            | Some (File _ _) \<Rightarrow> Inl Enotdir
            | Some Dir \<Rightarrow>
                (case (n, node_at q fs) of
                   (File _ _, Some Dir) \<Rightarrow> Inl Eisdir
                 | (Dir, Some (File _ _)) \<Rightarrow> Inl Enotdir
                 | (Dir, Some Dir) \<Rightarrow>
                     if children q fs \<noteq> [] then Inl Enotempty else Inr (move_node p q fs)
                 | _ \<Rightarrow> Inr (move_node p q fs))))"

definition os_rename :: "string \<Rightarrow> string \<Rightarrow> (unit, 'z) io" where
  "os_rename s t = syscall (with_fs (rename_fs (comps s) (comps t)))"

definition remove_fs :: "path \<Rightarrow> fs \<Rightarrow> err + fs" where
  "remove_fs p fs =
     (case node_at p fs of
        None \<Rightarrow> Inl (missing p fs)
      | Some (File _ _) \<Rightarrow> Inr (drop_node p fs)
      | Some Dir \<Rightarrow> if p = [] then Inl Einval
                  else if children p fs \<noteq> [] then Inl Enotempty else Inr (drop_node p fs))"

definition os_remove :: "string \<Rightarrow> (unit, 'z) io" where
  "os_remove s = syscall (with_fs (remove_fs (comps s)))"

text \<open>\<^verbatim>\<open>RemoveAll\<close> unlinks what is below the path, deepest first, goes on past errors and returns the
  first; nothing there is no error.\<close>

fun remove_list :: "path list \<Rightarrow> err option \<Rightarrow> (unit, 'z) io" where
  "remove_list [] e w = (case e of None \<Rightarrow> (Inr (), w) | Some x \<Rightarrow> (Inl x, w))"
| "remove_list (p # ps) e w =
     (case syscall (with_fs (remove_fs p)) w of
        (Inl x, w') \<Rightarrow> remove_list ps (case e of None \<Rightarrow> Some x | Some _ \<Rightarrow> e) w'
      | (Inr _, w') \<Rightarrow> remove_list ps e w')"

definition os_remove_all :: "string \<Rightarrow> (unit, 'z) io" where
  "os_remove_all s w = remove_list (rev (sort_key length (below (comps s) (FS w)))) None w"

text \<open>\<^verbatim>\<open>CreateTemp\<close> tries names until one is free, ten thousand times.\<close>

function temp_from :: "string \<Rightarrow> string \<Rightarrow> path \<Rightarrow> fs \<Rightarrow> int \<Rightarrow> string option" where
  "temp_from pre suf d fs n =
     (if n \<ge> 10000 then None
      else let s = pre @ dec_nat (nat n) @ suf in
        if node_at (d @ [s]) fs = None then Some s else temp_from pre suf d fs (n + 1))"
  by auto
termination by (relation "measure (\<lambda>(pre, suf, d, fs, n). nat (10000 - n))") auto

declare temp_from.simps [simp del]

definition temp_name :: "string \<Rightarrow> string \<Rightarrow> path \<Rightarrow> fs \<Rightarrow> string option" where
  "temp_name pre suf d fs = temp_from pre suf d fs 0"

definition os_create_temp :: "string \<Rightarrow> string \<Rightarrow> string \<Rightarrow> (string, 'z) io" where
  "os_create_temp dir pre suf = syscall (\<lambda>w.
     let d = comps dir in
     case node_at d (FS w) of
       None \<Rightarrow> (Inl (missing (d @ [[]]) (FS w)), w)
     | Some (File _ _) \<Rightarrow> (Inl Enotdir, w)
     | Some Dir \<Rightarrow>
         (case temp_name pre suf d (FS w) of
            None \<Rightarrow> (Inl Eexist, w)
          | Some n \<Rightarrow> (Inr (join_path [dir, n]),
              w\<lparr>FS := put_node (d @ [n]) (File [] (Clock w)) (FS w), Clock := Clock w + 1\<rparr>)))"

definition os_mkdir_temp :: "string \<Rightarrow> string \<Rightarrow> (string, 'z) io" where
  "os_mkdir_temp dir pre = syscall (\<lambda>w.
     let d = comps dir in
     case node_at d (FS w) of
       None \<Rightarrow> (Inl (missing (d @ [[]]) (FS w)), w)
     | Some (File _ _) \<Rightarrow> (Inl Enotdir, w)
     | Some Dir \<Rightarrow>
         (case temp_name pre [] d (FS w) of
            None \<Rightarrow> (Inl Eexist, w)
          | Some n \<Rightarrow> (Inr (join_path [dir, n]), w\<lparr>FS := put_node (d @ [n]) Dir (FS w)\<rparr>)))"

definition now_io :: "(time, 'z) io" where
  "now_io w = (if Alive w then (Inr (Clock w), w\<lparr>Clock := Clock w + 1\<rparr>) else (Inl Crashed, w))"

text \<open>Writing an open file's whole content, and flushing it.\<close>

definition os_write :: "string \<Rightarrow> bytes \<Rightarrow> (unit, 'z) io" where
  "os_write s b = syscall (\<lambda>w. case node_at (comps s) (FS w) of
      Some (File _ _) \<Rightarrow> (Inr (), w\<lparr>FS := put_node (comps s) (File b (Clock w)) (FS w), Clock := Clock w + 1\<rparr>)
    | _ \<Rightarrow> (Inl Enoent, w))"

definition os_sync :: "string \<Rightarrow> (unit, 'z) io" where
  "os_sync s = syscall (return_io ())"

section \<open>What calls leave alone\<close>

text \<open>A quiet computation does not look past the file system: it keeps the record's extension, and does
  nothing once the machine has stopped. \<open>touches P\<close> bounds the paths it can change by \<open>P\<close>.\<close>

named_theorems quiet_rules "computations that keep the extension of the state"
named_theorems touch_rules "the paths computations can change"

definition quiet :: "('a, 'z) io \<Rightarrow> bool" where
  "quiet m \<longleftrightarrow> (\<forall>w. os.more (snd (m w)) = os.more w \<and>
     (\<not> Alive w \<longrightarrow> \<not> Alive (snd (m w)) \<and> FS (snd (m w)) = FS w))"

definition touches :: "(path \<Rightarrow> bool) \<Rightarrow> ('a, 'z) io \<Rightarrow> bool" where
  "touches P m \<longleftrightarrow> (\<forall>w p. \<not> P p \<longrightarrow> node_at p (FS (snd (m w))) = node_at p (FS w))"

lemma quietD:
  assumes "quiet m" "m w = (r, w')"
  shows "os.more w' = os.more w" "\<not> Alive w \<Longrightarrow> \<not> Alive w'" "\<not> Alive w \<Longrightarrow> FS w' = FS w"
  using assms(1) [unfolded quiet_def, rule_format, of w] assms(2) by auto

lemma touchesD: "touches P m \<Longrightarrow> m w = (r, w') \<Longrightarrow> \<not> P p \<Longrightarrow> node_at p (FS w') = node_at p (FS w)"
  unfolding touches_def by (metis snd_conv)

lemma touches_mono: "touches P m \<Longrightarrow> (\<And>p. P p \<Longrightarrow> Q p) \<Longrightarrow> touches Q m"
  unfolding touches_def by blast

lemma quiet_return [quiet_rules]: "quiet (return_io x)" "quiet (fail_io e)"
  by (simp_all add: quiet_def return_io_def fail_io_def)

lemma quiet_bind [quiet_rules]:
  assumes "quiet m" "\<And>x. quiet (k x)"
  shows "quiet (bind_io m k)"
  unfolding quiet_def
proof
  fix w
  obtain r w1 where m: "m w = (r, w1)" by (cases "m w")
  note a = quietD [OF assms(1) m]
  show "os.more (snd (bind_io m k w)) = os.more w \<and>
     (\<not> Alive w \<longrightarrow> \<not> Alive (snd (bind_io m k w)) \<and> FS (snd (bind_io m k w)) = FS w)"
  proof (cases r)
    case (Inr x)
    obtain r2 w2 where k: "k x w1 = (r2, w2)" by (cases "k x w1")
    from quietD [OF assms(2) k] a m k Inr show ?thesis by (auto simp: bind_io_def)
  qed (use a m in \<open>simp add: bind_io_def\<close>)
qed

lemma quiet_attempt [quiet_rules]: "quiet m \<Longrightarrow> quiet (attempt m)"
  by (simp add: quiet_def attempt_def split_beta)

lemma quiet_finally [quiet_rules]: "quiet m \<Longrightarrow> quiet c \<Longrightarrow> quiet (finally_io m c)"
  by (simp add: quiet_def finally_io_def split_beta)

lemma quiet_syscall:
  assumes "\<And>w. os.more (snd (f w)) = os.more w"
  shows "quiet (syscall f)"
proof -
  have "os.more (w\<lparr>Fates := fs\<rparr>) = os.more w" "os.more (w\<lparr>Alive := b\<rparr>) = os.more w" for w :: "'a os_scheme" and fs b
    by (cases w; simp)+
  with assms show ?thesis
    by (auto simp: quiet_def syscall_def split: list.split fate.split)
qed

lemma more_upd [simp]: "os.more (w\<lparr>FS := fs\<rparr>) = os.more w" "os.more (w\<lparr>Clock := t\<rparr>) = os.more w"
  "os.more (w\<lparr>Fates := f\<rparr>) = os.more w" "os.more (w\<lparr>Alive := b\<rparr>) = os.more w"
  by (cases w; simp)+

lemma more_with_fs [simp]: "os.more (snd (with_fs f w)) = os.more w"
  by (simp add: with_fs_def split: sum.split)

lemma quiet_calls [quiet_rules]:
  "quiet (os_stat s)" "quiet (os_read_dir s)" "quiet (os_read_file s)" "quiet (os_mkdir s)"
  "quiet (os_rename s t)" "quiet (os_remove s)" "quiet (os_create_temp s pre suf)" "quiet (os_write s b)"
  "quiet (os_sync s)" "quiet (os_mkdir_temp s pre)"
  unfolding os_stat_def os_read_dir_def os_read_file_def os_mkdir_def os_rename_def os_remove_def
    os_create_temp_def os_write_def os_sync_def os_mkdir_temp_def
  by (rule quiet_syscall, auto simp: return_io_def Let_def split: option.split node.split)+

lemma quiet_now [quiet_rules]: "quiet now_io"
  by (simp add: quiet_def now_io_def)

lemma quiet_fs_call: "quiet (syscall (with_fs f))"
  by (rule quiet_syscall) simp

lemma quiet_mkdir_list: "quiet (mkdir_list ps :: (unit, 'z) io)"
proof (induction ps)
  case (Cons p ps)
  have b: "quiet (bind_io (syscall (with_fs (mkdir_fs p))) (\<lambda>_. mkdir_list ps) :: (unit, 'z) io)"
    by (intro quiet_bind quiet_fs_call Cons.IH)
  show ?case
    unfolding quiet_def
  proof
    fix w :: "'z os_scheme"
    have "mkdir_list (p # ps) w = mkdir_list ps w \<or> mkdir_list (p # ps) w = (Inl Enotdir, w) \<or>
      mkdir_list (p # ps) w = bind_io (syscall (with_fs (mkdir_fs p))) (\<lambda>_. mkdir_list ps) w"
      by (simp split: option.split node.split)
    then show "os.more (snd (mkdir_list (p # ps) w)) = os.more w \<and>
      (\<not> Alive w \<longrightarrow> \<not> Alive (snd (mkdir_list (p # ps) w)) \<and> FS (snd (mkdir_list (p # ps) w)) = FS w)"
      using Cons.IH b unfolding quiet_def by (elim disjE) simp_all
  qed
qed (simp add: quiet_def)

lemma quiet_remove_list: "quiet (remove_list ps e :: (unit, 'z) io)"
proof (induction ps arbitrary: e)
  case (Cons p ps)
  show ?case
    unfolding quiet_def
  proof
    fix w :: "'z os_scheme"
    obtain r w1 where s: "syscall (with_fs (remove_fs p)) w = (r, w1)"
      by (cases "syscall (with_fs (remove_fs p)) w")
    note a = quietD [OF quiet_fs_call s]
    obtain e' where "remove_list (p # ps) e w = remove_list ps e' w1" using s by (cases r) auto
    then show "os.more (snd (remove_list (p # ps) e w)) = os.more w \<and>
      (\<not> Alive w \<longrightarrow> \<not> Alive (snd (remove_list (p # ps) e w)) \<and> FS (snd (remove_list (p # ps) e w)) = FS w)"
      using Cons.IH [of e', unfolded quiet_def, rule_format, of w1] a by auto
  qed
qed (simp add: quiet_def split: option.split)

lemma quiet_all [quiet_rules]: "quiet (os_mkdir_all s)" "quiet (os_remove_all s :: (unit, 'y) io)"
proof -
  show "quiet (os_mkdir_all s)" by (simp add: os_mkdir_all_def Let_def quiet_mkdir_list)
  show "quiet (os_remove_all s :: (unit, 'y) io)"
    using quiet_remove_list [where 'z = 'y, unfolded quiet_def] by (simp add: quiet_def os_remove_all_def)
qed

end
