(* ===== verification/Tree_Laws.thy ===== *)
theory Tree_Laws
  imports Files
begin

text \<open>
  The laws of the tree the calls work on: lookup after each change, the invariant \<open>tree_ok\<close> (one node a
  path, every parent a directory), and which paths each call can change.
\<close>

definition tree_ok :: "fs \<Rightarrow> bool" where
  "tree_ok fs \<longleftrightarrow> distinct (map fst fs) \<and> [] \<notin> fst ` set fs \<and>
     (\<forall>p \<in> fst ` set fs. node_at (butlast p) fs = Some Dir)"

lemma tree_okD:
  assumes "tree_ok fs"
  shows "distinct (map fst fs)" "[] \<notin> fst ` set fs"
    "p \<in> fst ` set fs \<Longrightarrow> node_at (butlast p) fs = Some Dir"
  using assms unfolding tree_ok_def by blast+

section \<open>Lookup\<close>

lemma node_at_Nil [simp]: "node_at [] fs = Some Dir"
  by (simp add: node_at_def)

lemma map_of_filter_neq: "map_of (filter (\<lambda>x. fst x \<noteq> p) fs) q = (if q = p then None else map_of fs q)"
  using map_of_filter_key [of "\<lambda>k. k \<noteq> p" fs q] by simp

lemma node_at_put: "node_at q (put_node p n fs) = (if q = p \<and> p \<noteq> [] then Some n else node_at q fs)"
  by (auto simp: node_at_def put_node_def map_of_filter_neq)

lemma node_at_drop: "node_at q (drop_node p fs) = (if q = p \<and> p \<noteq> [] then None else node_at q fs)"
  by (auto simp: node_at_def drop_node_def map_of_filter_neq)

lemma node_at_Some_in: "node_at p fs = Some n \<Longrightarrow> p \<noteq> [] \<Longrightarrow> (p, n) \<in> set fs"
  by (auto simp: node_at_def dest: map_of_SomeD split: if_splits)

lemma node_at_None: "node_at p fs = None \<longleftrightarrow> p \<noteq> [] \<and> p \<notin> fst ` set fs"
  by (simp add: node_at_def map_of_eq_None_iff)

lemma tree_ok_parent:
  assumes "tree_ok fs" "node_at (p @ c # cs) fs = Some n"
  shows "node_at p fs = Some Dir"
  using assms(2)
proof (induction cs arbitrary: n rule: rev_induct)
  case Nil
  then have "p @ [c] \<in> fst ` set fs" by (force dest: node_at_Some_in)
  with assms(1) show ?case by (force simp: tree_ok_def)
next
  case (snoc x cs)
  then have "p @ c # cs @ [x] \<in> fst ` set fs" by (force dest: node_at_Some_in)
  with assms(1) have "node_at (butlast (p @ c # cs @ [x])) fs = Some Dir" by (force simp: tree_ok_def)
  then have "node_at (p @ c # cs) fs = Some Dir" by (simp add: butlast_append)
  then show ?case by (rule snoc.IH)
qed

lemma tree_ok_above:
  assumes "tree_ok fs" "node_at r fs = Some n" "prefix p r" "p \<noteq> r"
  shows "node_at p fs = Some Dir"
proof -
  from assms(3,4) obtain c cs where "r = p @ c # cs" by (metis append_Nil2 neq_Nil_conv prefix_def)
  with assms show ?thesis using tree_ok_parent by blast
qed

lemma children_Nil:
  assumes "tree_ok fs" "children p fs = []" "prefix p r" "p \<noteq> r"
  shows "node_at r fs = None"
proof (rule ccontr)
  assume "node_at r fs \<noteq> None"
  then obtain n where n: "node_at r fs = Some n" by blast
  from assms(3,4) obtain c cs where r: "r = p @ c # cs" by (metis append_Nil2 neq_Nil_conv prefix_def)
  have "\<exists>m. node_at (p @ [c]) fs = Some m"
  proof (cases cs)
    case (Cons d ds)
    with n r have "node_at ((p @ [c]) @ d # ds) fs = Some n" by simp
    from tree_ok_parent [OF assms(1) this] show ?thesis by blast
  qed (use n r in simp)
  then obtain m where "(p @ [c], m) \<in> set fs" by (force dest: node_at_Some_in)
  then have "(c, m) \<in> set (children p fs)" by (force simp: children_def set_pick)
  with assms(2) show False by simp
qed

section \<open>Moving\<close>

lemma map_of_moved:
  assumes "\<And>x. x \<in> set fs \<Longrightarrow> \<not> prefix q (fst x)" "\<not> prefix p q"
  shows "map_of (map (\<lambda>x. (moved_path p q (fst x), snd x)) fs) r =
    (if prefix q r then map_of fs (p @ drop (length q) r) else if prefix p r then None else map_of fs r)"
  using assms(1)
proof (induction fs)
  case Nil
  then show ?case by simp
next
  case (Cons x fs)
  obtain s n where x: "x = (s, n)" by (cases x)
  have sq: "\<not> prefix q s" using Cons.prems [of x] x by simp
  have IH: "map_of (map (\<lambda>x. (moved_path p q (fst x), snd x)) fs) r =
    (if prefix q r then map_of fs (p @ drop (length q) r) else if prefix p r then None else map_of fs r)"
    using Cons.prems by (intro Cons.IH) simp
  show ?case
  proof (cases "prefix p s")
    case True
    then obtain t where t: "s = p @ t" by (auto simp: prefix_def)
    have m: "moved_path p q s = q @ t" using t by (simp add: moved_path_def)
    have "q @ t = r \<longleftrightarrow> prefix q r \<and> p @ drop (length q) r = s" using t by (auto simp: prefix_def)
    moreover have "prefix p r \<Longrightarrow> \<not> prefix q r \<Longrightarrow> r \<noteq> q @ t" by auto
    moreover have "\<not> prefix p r \<Longrightarrow> r \<noteq> s" using True by auto
    ultimately show ?thesis using IH m by (auto simp: x)
  next
    case False
    then have m: "moved_path p q s = s" by (simp add: moved_path_def)
    have "prefix q r \<Longrightarrow> s \<noteq> r" using sq by auto
    moreover have "s \<noteq> p @ u" for u using False by auto
    moreover have "prefix p r \<Longrightarrow> s \<noteq> r" using False by auto
    ultimately show ?thesis using IH m by (auto simp: x)
  qed
qed

text \<open>The conditions under which \<open>rename_fs\<close> moves: what was at the target, if anything, has nothing
  below it.\<close>

lemma rename_cases:
  assumes ok: "tree_ok fs" and r: "rename_fs p q fs = Inr fs'" and ne: "p \<noteq> q"
  obtains n where "node_at p fs = Some n" "p \<noteq> []" "q \<noteq> []" "\<not> prefix p q" "\<not> prefix q p"
    "node_at (butlast q) fs = Some Dir" "fs' = move_node p q fs"
    "\<And>r. prefix q r \<Longrightarrow> r \<noteq> q \<Longrightarrow> node_at r fs = None"
proof -
  from r ne obtain n where n: "node_at p fs = Some n" by (auto simp: rename_fs_def split: option.splits)
  with r ne have a: "p \<noteq> []" "q \<noteq> []" "\<not> prefix p q" "node_at (butlast q) fs = Some Dir" and fs': "fs' = move_node p q fs"
    by (auto simp: rename_fs_def split: option.splits node.splits if_splits)
  have below: "node_at r fs = None" if "prefix q r" "r \<noteq> q" for r
  proof (cases "node_at q fs = Some Dir")
    case True
    with r ne n have "children q fs = []"
      by (auto simp: rename_fs_def split: option.splits node.splits if_splits)
    then show ?thesis using children_Nil [OF ok] that by metis
  next
    case False
    then show ?thesis using tree_ok_above [OF ok _ that(1)] that(2) by (cases "node_at r fs") auto
  qed
  have "\<not> prefix q p" using below [of p] n ne by (metis option.distinct(1))
  with that n a fs' below show ?thesis by blast
qed

lemma node_at_move:
  assumes "\<not> prefix p q" "p \<noteq> []" "q \<noteq> []" "\<And>r. prefix q r \<Longrightarrow> r \<noteq> q \<Longrightarrow> node_at r fs = None"
    and "[] \<notin> fst ` set fs"
  shows "node_at r (move_node p q fs) =
    (if prefix q r then node_at (p @ drop (length q) r) fs else if prefix p r then None else node_at r fs)"
proof (cases "r = []")
  case False
  have "\<not> prefix q (fst x)" if "x \<in> set (drop_node q fs)" for x
  proof
    assume "prefix q (fst x)"
    moreover have "fst x \<noteq> q" "fst x \<in> fst ` set fs" using that by (auto simp: drop_node_def)
    moreover from this assms(5) have "fst x \<noteq> []" by metis
    ultimately show False using assms(4) [of "fst x"] node_at_None [of "fst x" fs] by auto
  qed
  from map_of_moved [OF this assms(1), where r = r]
  have "map_of (move_node p q fs) r =
    (if prefix q r then map_of (drop_node q fs) (p @ drop (length q) r)
     else if prefix p r then None else map_of (drop_node q fs) r)"
    by (simp add: move_node_def)
  moreover have "p @ drop (length q) r \<noteq> q" using assms(1) by (metis prefixI)
  moreover have "\<not> prefix q r \<Longrightarrow> r \<noteq> q" by auto
  ultimately show ?thesis
    using False assms(2) by (auto simp: node_at_def drop_node_def map_of_filter_neq)
qed (use assms in simp)

lemma tree_ok_put:
  assumes "tree_ok fs" "p \<noteq> []" "node_at (butlast p) fs = Some Dir"
    and "n = Dir \<or> (\<forall>r. prefix p r \<longrightarrow> r \<noteq> p \<longrightarrow> node_at r fs = None)"
  shows "tree_ok (put_node p n fs)"
proof -
  have "node_at (butlast r) (put_node p n fs) = Some Dir" if "r \<in> fst ` set (put_node p n fs)" for r
  proof (cases "r = p")
    case True
    have "butlast p \<noteq> p" using assms(2) by (metis append_butlast_last_id not_Cons_self2 self_append_conv)
    with True assms(3) show ?thesis by (simp add: node_at_put)
  next
    case False
    with that have r: "r \<in> fst ` set fs" by (auto simp: put_node_def)
    then have d: "node_at (butlast r) fs = Some Dir" using tree_okD(3) [OF assms(1)] by blast
    show ?thesis
    proof (cases "butlast r = p")
      case True
      have "n = Dir"
      proof (rule ccontr)
        assume "n \<noteq> Dir"
        moreover have "prefix p r" using True by (metis prefixeq_butlast)
        ultimately have "node_at r fs = None" using assms(4) False by blast
        then show False using r by (auto simp: node_at_None)
      qed
      with True assms(2) show ?thesis by (simp add: node_at_put)
    next
      case False
      with d show ?thesis by (simp add: node_at_put)
    qed
  qed
  then show ?thesis using assms(1,2) by (auto simp: tree_ok_def put_node_def distinct_map_filterI)
qed

lemma tree_ok_node: "tree_ok fs \<Longrightarrow> node_at p fs = Some n \<Longrightarrow> node_at (butlast p) fs = Some Dir"
  using node_at_None [of p fs] by (cases "p = []") (auto simp: tree_ok_def)

lemma tree_ok_drop:
  assumes "tree_ok fs" "\<And>r. prefix p r \<Longrightarrow> r \<noteq> p \<Longrightarrow> node_at r fs = None"
  shows "tree_ok (drop_node p fs)"
proof -
  have "node_at (butlast r) (drop_node p fs) = Some Dir" if r: "r \<in> fst ` set (drop_node p fs)" for r
  proof -
    have rf: "r \<in> fst ` set fs" "r \<noteq> p" using r by (auto simp: drop_node_def)
    then have d: "node_at (butlast r) fs = Some Dir" using tree_okD(3) [OF assms(1)] by blast
    have "butlast r \<noteq> p"
    proof
      assume "butlast r = p"
      then have "prefix p r" by (metis prefixeq_butlast)
      with assms(2) rf(2) have "node_at r fs = None" by blast
      with rf(1) show False by (simp add: node_at_None)
    qed
    with d show ?thesis by (simp add: node_at_drop)
  qed
  then show ?thesis using assms(1) by (auto simp: tree_ok_def drop_node_def distinct_map_filterI)
qed

lemma tree_ok_move:
  assumes ok: "tree_ok fs" and q: "\<not> prefix p q" "p \<noteq> []" "q \<noteq> []" "node_at (butlast q) fs = Some Dir"
    and below: "\<And>r. prefix q r \<Longrightarrow> r \<noteq> q \<Longrightarrow> node_at r fs = None"
  shows "tree_ok (move_node p q fs)"
proof -
  have nil: "[] \<notin> fst ` set fs" using ok by (simp add: tree_ok_def)
  note at = node_at_move [OF q(1-3) below nil]
  let ?k = "map fst (drop_node q fs)"
  have nq: "\<not> prefix q s" if "s \<in> set ?k" for s
    using that below [of s] by (auto simp: drop_node_def node_at_None)
  have keys: "map fst (move_node p q fs) = map (moved_path p q) ?k" by (simp add: move_node_def)
  have im: "fst ` set (move_node p q fs) = moved_path p q ` set ?k"
    using keys by (metis list.set_map)
  have "inj_on (moved_path p q) (set ?k)"
    using nq by (auto simp: inj_on_def moved_path_def prefix_def split: if_splits)
  moreover have "distinct ?k" using ok by (simp add: tree_ok_def drop_node_def distinct_map_filterI)
  ultimately have "distinct (map fst (move_node p q fs))" unfolding keys distinct_map [of _ ?k] by blast
  moreover have "[] \<notin> fst ` set (move_node p q fs)"
  proof -
    have "moved_path p q s \<noteq> []" if "s \<in> set ?k" for s
    proof -
      have "s \<in> fst ` set fs" using that by (auto simp: drop_node_def)
      with nil have "s \<noteq> []" by metis
      with q(3) show ?thesis by (simp add: moved_path_def)
    qed
    then show ?thesis unfolding im image_iff by metis
  qed
  moreover have "node_at (butlast r) (move_node p q fs) = Some Dir" if rin: "r \<in> fst ` set (move_node p q fs)" for r
  proof -
    obtain s where s: "s \<in> set ?k" "r = moved_path p q s"
      using rin unfolding im image_iff by blast
    then have sf: "s \<in> fst ` set fs" by (auto simp: drop_node_def)
    then have d: "node_at (butlast s) fs = Some Dir" using tree_okD(3) [OF ok] by blast
    have bq: "\<not> prefix q (butlast q)"
      using prefix_length_le [of q "butlast q"] q(3) by (cases q) auto
    show ?thesis
    proof (cases "prefix p s")
      case True
      then obtain t where t: "s = p @ t" by (auto simp: prefix_def)
      show ?thesis
      proof (cases "t = []")
        case True
        with t s have "r = q" by (simp add: moved_path_def)
        moreover have "\<not> prefix p (butlast q)" using q(1) by (meson prefix_order.order_trans prefixeq_butlast)
        ultimately show ?thesis using at [of "butlast q"] bq q(4) by simp
      next
        case False
        with t s have "butlast r = q @ butlast t" "butlast s = p @ butlast t"
          by (simp_all add: moved_path_def butlast_append)
        with at [of "butlast r"] d show ?thesis by simp
      qed
    next
      case False
      then have r: "r = s" using s by (simp add: moved_path_def)
      have "\<not> prefix q (butlast s)" using nq [OF s(1)] by (meson prefix_order.order_trans prefixeq_butlast)
      moreover have "\<not> prefix p (butlast s)" using False by (meson prefix_order.order_trans prefixeq_butlast)
      ultimately show ?thesis using at [of "butlast s"] d r by simp
    qed
  qed
  ultimately show ?thesis by (simp add: tree_ok_def)
qed

section \<open>What a call did\<close>

lemma syscall_cases:
  assumes "syscall f w = (r, w')"
  obtains (ran) w0 where "f w0 = (r, w')" "FS w0 = FS w" "Clock w0 = Clock w" "Alive w0" "os.more w0 = os.more w"
    | (failed) e where "r = Inl e" "FS w' = FS w"
  using assms by (auto simp: syscall_def split: if_splits list.splits fate.splits)

lemma fs_call:
  assumes "syscall (with_fs f) w = (r, w')"
  shows "case r of Inl e \<Rightarrow> FS w' = FS w | Inr _ \<Rightarrow> f (FS w) = Inr (FS w')"
  using assms by (cases rule: syscall_cases) (auto simp: with_fs_def split: sum.splits)

lemma tree_ok_mkdir: "tree_ok fs \<Longrightarrow> mkdir_fs p fs = Inr fs' \<Longrightarrow> tree_ok fs'"
  using tree_ok_above [of fs] node_at_None [of p fs]
  by (auto simp: mkdir_fs_def split: if_splits option.splits node.splits intro!: tree_ok_put)

lemma tree_ok_rename: "tree_ok fs \<Longrightarrow> rename_fs p q fs = Inr fs' \<Longrightarrow> tree_ok fs'"
proof (cases "p = q")
  case False
  assume ok: "tree_ok fs" and r: "rename_fs p q fs = Inr fs'"
  from rename_cases [OF ok r False] tree_ok_move [OF ok] show ?thesis by metis
qed (auto simp: rename_fs_def split: option.splits)

lemma file_no_below:
  "tree_ok fs \<Longrightarrow> node_at p fs = Some (File b t) \<Longrightarrow> prefix p r \<Longrightarrow> r \<noteq> p \<Longrightarrow> node_at r fs = None"
  using tree_ok_above [of fs r _ p] by (cases "node_at r fs") auto

lemma tree_ok_remove: "tree_ok fs \<Longrightarrow> remove_fs p fs = Inr fs' \<Longrightarrow> tree_ok fs'"
proof -
  assume ok: "tree_ok fs" and r: "remove_fs p fs = Inr fs'"
  then have fs': "fs' = drop_node p fs"
    by (auto simp: remove_fs_def split: option.splits node.splits if_splits)
  have "node_at s fs = None" if "prefix p s" "s \<noteq> p" for s
    using r file_no_below [OF ok _ that] children_Nil [OF ok _ that(1)] that(2)
    by (auto simp: remove_fs_def split: option.splits node.splits if_splits)
  then show ?thesis unfolding fs' by (rule tree_ok_drop [OF ok])
qed

section \<open>The paths a call can change\<close>

lemma touches_return [touch_rules]: "touches P (return_io x)" "touches P (fail_io e)"
  by (simp_all add: touches_def return_io_def fail_io_def)

lemma touches_bind:
  assumes "touches P m" "\<And>w x w'. m w = (Inr x, w') \<Longrightarrow> touches P (k x)"
  shows "touches P (bind_io m k)"
  unfolding touches_def
proof (intro allI impI)
  fix w p assume p: "\<not> P p"
  obtain r w1 where m: "m w = (r, w1)" by (cases "m w")
  note a = touchesD [OF assms(1) m p]
  show "node_at p (FS (snd (bind_io m k w))) = node_at p (FS w)"
  proof (cases r)
    case (Inr x)
    obtain r2 w2 where k: "k x w1 = (r2, w2)" by (cases "k x w1")
    from touchesD [OF assms(2) k p, of w w1] a m k Inr show ?thesis by (simp add: bind_io_def)
  qed (use a m in \<open>simp add: bind_io_def\<close>)
qed

lemma touches_bind_any [touch_rules]:
  "touches P m \<Longrightarrow> (\<And>x. touches P (k x)) \<Longrightarrow> touches P (bind_io m k)"
  by (rule touches_bind)

lemma touches_attempt [touch_rules]: "touches P m \<Longrightarrow> touches P (attempt m)"
  by (simp add: touches_def attempt_def split_beta)

lemma touches_finally [touch_rules]: "touches P m \<Longrightarrow> touches P c \<Longrightarrow> touches P (finally_io m c)"
  by (simp add: touches_def finally_io_def split_beta)

lemma touches_if [touch_rules]: "(b \<Longrightarrow> touches P m) \<Longrightarrow> (\<not> b \<Longrightarrow> touches P n) \<Longrightarrow> touches P (if b then m else n)"
  by simp

lemma touches_sum [touch_rules]:
  "(\<And>e. touches P (f e)) \<Longrightarrow> (\<And>x. touches P (g x)) \<Longrightarrow> touches P (case r of Inl e \<Rightarrow> f e | Inr x \<Rightarrow> g x)"
  by (simp split: sum.split)

lemma touches_option [touch_rules]:
  "touches P m \<Longrightarrow> (\<And>x. touches P (g x)) \<Longrightarrow> touches P (case r of None \<Rightarrow> m | Some x \<Rightarrow> g x)"
  by (simp split: option.split)

lemma touches_syscall:
  assumes "\<And>w p. \<not> P p \<Longrightarrow> node_at p (FS (snd (f w))) = node_at p (FS w)"
  shows "touches P (syscall f)"
proof -
  have "node_at p (FS (snd (f (w\<lparr>Fates := fs\<rparr>)))) = node_at p (FS w)" if "\<not> P p" for p w fs
    using assms [OF that, of "w\<lparr>Fates := fs\<rparr>"] by simp
  then show ?thesis using assms by (auto simp: touches_def syscall_def split: list.split fate.split)
qed

lemma touches_reads [touch_rules]:
  "touches P (os_stat s)" "touches P (os_read_dir s)" "touches P (os_read_file s)" "touches P (os_sync s)"
  unfolding os_stat_def os_read_dir_def os_read_file_def os_sync_def
  by (rule touches_syscall, auto simp: return_io_def split: option.split node.split)+

lemma touches_now [touch_rules]: "touches P now_io"
  by (simp add: touches_def now_io_def)

lemma touches_fs_call:
  "(\<And>fs fs' p. f fs = Inr fs' \<Longrightarrow> \<not> P p \<Longrightarrow> node_at p fs' = node_at p fs) \<Longrightarrow> touches P (syscall (with_fs f))"
  by (rule touches_syscall) (auto simp: with_fs_def split: sum.split)

lemma touches_os_write: "P (comps s) \<Longrightarrow> touches P (os_write s b)"
  unfolding os_write_def
  by (rule touches_syscall) (auto simp: node_at_put split: option.split node.split)

lemma touches_os_remove: "P (comps s) \<Longrightarrow> touches P (os_remove s)"
  unfolding os_remove_def
  by (rule touches_fs_call) (auto simp: remove_fs_def node_at_drop split: option.splits node.splits if_splits)

lemma map_of_moved_other:
  "\<not> prefix p r \<Longrightarrow> \<not> prefix q r \<Longrightarrow> map_of (map (\<lambda>x. (moved_path p q (fst x), snd x)) fs) r = map_of fs r"
proof (induction fs)
  case (Cons x fs)
  then have "moved_path p q (fst x) = r \<longleftrightarrow> fst x = r" by (auto simp: moved_path_def)
  with Cons show ?case by (cases x; cases "fst x = r") auto
qed simp

lemma node_at_move_other: "\<not> prefix p r \<Longrightarrow> \<not> prefix q r \<Longrightarrow> node_at r (move_node p q fs) = node_at r fs"
  by (auto simp: node_at_def move_node_def map_of_moved_other drop_node_def map_of_filter_neq)

lemma touches_os_rename:
  "(\<And>r. prefix (comps s) r \<Longrightarrow> P r) \<Longrightarrow> (\<And>r. prefix (comps t) r \<Longrightarrow> P r) \<Longrightarrow> touches P (os_rename s t)"
  unfolding os_rename_def
  by (rule touches_fs_call)
     (auto simp: rename_fs_def split: option.splits node.splits if_splits intro!: node_at_move_other)

lemma temp_name_Some: "temp_name pre suf d fs = Some n \<Longrightarrow>
    \<exists>k. n = pre @ dec_nat k @ suf \<and> node_at (d @ [n]) fs = None"
proof -
  have "temp_from pre suf d fs j = Some n \<Longrightarrow> \<exists>k. n = pre @ dec_nat k @ suf \<and> node_at (d @ [n]) fs = None" for j
  proof (induction pre suf d fs j rule: temp_from.induct)
    case (1 pre suf d fs j)
    from 1(2) 1(1) [OF _ refl] show ?case
      by (subst (asm) (1) temp_from.simps) (auto simp: Let_def split: if_splits)
  qed
  then show "temp_name pre suf d fs = Some n \<Longrightarrow> \<exists>k. n = pre @ dec_nat k @ suf \<and> node_at (d @ [n]) fs = None"
    by (simp add: temp_name_def)
qed

text \<open>\<open>is_temp\<close>: a name \<^verbatim>\<open>CreateTemp\<close> can give.\<close>

definition is_temp :: "string \<Rightarrow> string \<Rightarrow> string \<Rightarrow> bool" where
  "is_temp pre suf n \<longleftrightarrow> (\<exists>k. n = pre @ dec_nat k @ suf)"

lemma create_temp_Inr:
  assumes "os_create_temp dir pre suf w = (Inr t, w')"
  shows "\<exists>n. is_temp pre suf n \<and> t = join_path [dir, n] \<and> node_at (comps dir @ [n]) (FS w) = None \<and>
    FS w' = put_node (comps dir @ [n]) (File [] (Clock w)) (FS w) \<and> node_at (comps dir) (FS w) = Some Dir"
  using assms unfolding os_create_temp_def
  by (cases rule: syscall_cases)
     (auto simp: Let_def is_temp_def dest!: temp_name_Some split: option.splits node.splits)

lemma touches_create_temp:
  "(\<And>n. is_temp pre suf n \<Longrightarrow> P (comps dir @ [n])) \<Longrightarrow> touches P (os_create_temp dir pre suf)"
  unfolding os_create_temp_def
  by (rule touches_syscall)
     (auto simp: Let_def node_at_put is_temp_def dest!: temp_name_Some split: option.split node.split)

end
