(* ===== verification/Triples.thy ===== *)
theory Triples
  imports Tree_Laws
begin

text \<open>
  Triples over the state of the machine. \<open>triple P m E Q\<close>: started in a state with \<open>P\<close>, the computation
  \<open>m\<close> ends with \<open>E\<close> when it returns an error and with \<open>Q x\<close> when it returns \<open>x\<close>, whatever the fates of its
  calls. There is one rule per way of composing computations; \<open>keeps\<close> is the triple whose three parts are
  one assertion.
\<close>

type_synonym 'z assn = "'z os_scheme \<Rightarrow> bool"

definition triple :: "'z assn \<Rightarrow> ('a, 'z) io \<Rightarrow> 'z assn \<Rightarrow> ('a \<Rightarrow> 'z assn) \<Rightarrow> bool" where
  "triple P m E Q \<longleftrightarrow> (\<forall>w. P w \<longrightarrow> (case m w of (Inl _, w') \<Rightarrow> E w' | (Inr x, w') \<Rightarrow> Q x w'))"

lemma tripleI:
  "(\<And>w r w'. P w \<Longrightarrow> m w = (r, w') \<Longrightarrow> case r of Inl _ \<Rightarrow> E w' | Inr x \<Rightarrow> Q x w') \<Longrightarrow> triple P m E Q"
  unfolding triple_def by (auto split: prod.split sum.split)

lemma tripleD:
  assumes "triple P m E Q" "m w = (r, w')" "P w"
  shows "case r of Inl _ \<Rightarrow> E w' | Inr x \<Rightarrow> Q x w'"
  using assms(1) [unfolded triple_def, rule_format, OF assms(3)] assms(2) by (auto split: sum.splits)

lemma bind_io_cases:
  assumes "bind_io m k w = (r, w')"
  obtains (err) e where "m w = (Inl e, w')" "r = Inl e"
    | (ok) x w1 where "m w = (Inr x, w1)" "k x w1 = (r, w')"
  using assms by (auto simp: bind_io_def split: prod.splits sum.splits)

lemma attempt_Inr: "attempt m w = (r, w') \<longleftrightarrow> (\<exists>q. m w = (q, w') \<and> r = Inr q)"
  by (cases "m w") (auto simp: attempt_def)

lemma triple_bind:
  assumes "triple P m E R" "\<And>x. triple (R x) (k x) E Q"
  shows "triple P (bind_io m k) E Q"
proof (rule tripleI)
  fix w r w' assume p: "P w" and b: "bind_io m k w = (r, w')"
  from b show "case r of Inl _ \<Rightarrow> E w' | Inr x \<Rightarrow> Q x w'"
  proof (cases rule: bind_io_cases)
    case (err e)
    with tripleD [OF assms(1) err(1) p] show ?thesis by simp
  next
    case (ok x w1)
    with tripleD [OF assms(1) ok(1) p] tripleD [OF assms(2) ok(2)] show ?thesis by simp
  qed
qed

lemma triple_attempt:
  "triple P m (\<lambda>w. \<forall>e. Q (Inl e) w) (\<lambda>x. Q (Inr x)) \<Longrightarrow> triple P (attempt m) E Q"
  by (rule tripleI) (auto simp: attempt_Inr split: sum.splits dest: tripleD)

lemma triple_return: "(\<And>w. P w \<Longrightarrow> Q x w) \<Longrightarrow> triple P (return_io x) E Q"
  "(\<And>w. P w \<Longrightarrow> E w) \<Longrightarrow> triple P (fail_io e) E Q"
  by (simp_all add: triple_def return_io_def fail_io_def)

lemma triple_sum:
  "(\<And>e. r = Inl e \<Longrightarrow> triple P (f e) E Q) \<Longrightarrow> (\<And>x. r = Inr x \<Longrightarrow> triple P (g x) E Q) \<Longrightarrow>
   triple P (case r of Inl e \<Rightarrow> f e | Inr x \<Rightarrow> g x) E Q"
  by (cases r) auto

lemma triple_conseq:
  assumes "triple P m E Q" "\<And>w. P' w \<Longrightarrow> P w" "\<And>w. E w \<Longrightarrow> E' w" "\<And>x w. Q x w \<Longrightarrow> Q' x w"
  shows "triple P' m E' Q'"
proof (rule tripleI)
  fix w r w' assume "P' w" "m w = (r, w')"
  with tripleD [OF assms(1) _ assms(2)] assms(3,4) show "case r of Inl _ \<Rightarrow> E' w' | Inr x \<Rightarrow> Q' x w'"
    by (cases r) fastforce+
qed

lemma triple_pull: "(A \<Longrightarrow> triple P m E Q) \<Longrightarrow> triple (\<lambda>w. A \<and> P w) m E Q"
  by (auto simp: triple_def)

lemma triple_finally:
  assumes "triple P m E Q" "triple E c E (\<lambda>_. E)" "\<And>x. triple (Q x) c (Q x) (\<lambda>_. Q x)"
  shows "triple P (finally_io m c) E Q"
proof (rule tripleI)
  fix w r w' assume a: "P w" "finally_io m c w = (r, w')"
  obtain w1 q where "m w = (r, w1)" "c w1 = (q, w')"
    using a(2) by (cases "m w"; cases "c (snd (m w))") (auto simp: finally_io_def)
  with tripleD [OF assms(1) _ a(1)] tripleD [OF assms(2)] tripleD [OF assms(3)]
  show "case r of Inl _ \<Rightarrow> E w' | Inr x \<Rightarrow> Q x w'" by (cases r; cases q) fastforce+
qed

section \<open>What is kept\<close>

named_theorems keep_rules "computations that keep an assertion"

definition keeps :: "'z assn \<Rightarrow> ('a, 'z) io \<Rightarrow> bool" where
  "keeps P m \<longleftrightarrow> (\<forall>w. P w \<longrightarrow> P (snd (m w)))"

lemma keeps_triple: "keeps P m \<longleftrightarrow> triple P m P (\<lambda>_. P)"
  unfolding keeps_def triple_def by (simp add: split_beta split: sum.split)

lemma keepsD: "keeps P m \<Longrightarrow> m w = (r, w') \<Longrightarrow> P w \<Longrightarrow> P w'"
  unfolding keeps_def by (metis snd_conv)

lemma keeps_return [keep_rules]: "keeps P (return_io x)" "keeps P (fail_io e)"
  by (simp_all add: keeps_def return_io_def fail_io_def)

lemma keeps_bind [keep_rules]: "keeps P m \<Longrightarrow> (\<And>x. keeps P (k x)) \<Longrightarrow> keeps P (bind_io m k)"
  unfolding keeps_triple by (rule triple_bind)

lemma keeps_attempt [keep_rules]: "keeps P m \<Longrightarrow> keeps P (attempt m)"
  unfolding keeps_triple by (rule triple_attempt) simp

lemma keeps_finally [keep_rules]: "keeps P m \<Longrightarrow> keeps P c \<Longrightarrow> keeps P (finally_io m c)"
  unfolding keeps_triple by (rule triple_finally)

lemma keeps_if [keep_rules]: "(b \<Longrightarrow> keeps P m) \<Longrightarrow> (\<not> b \<Longrightarrow> keeps P n) \<Longrightarrow> keeps P (if b then m else n)"
  by simp

lemma keeps_sum [keep_rules]:
  "(\<And>e. keeps P (f e)) \<Longrightarrow> (\<And>x. keeps P (g x)) \<Longrightarrow> keeps P (case r of Inl e \<Rightarrow> f e | Inr x \<Rightarrow> g x)"
  by (simp split: sum.split)

lemma keeps_option [keep_rules]:
  "keeps P m \<Longrightarrow> (\<And>x. keeps P (g x)) \<Longrightarrow> keeps P (case r of None \<Rightarrow> m | Some x \<Rightarrow> g x)"
  by (simp split: option.split)

end
