(* ===== verification/Store.thy ===== *)
theory Store
  imports Layout Drift Triples
begin

text \<open>
  \<^verbatim>\<open>pkg/library/internal/store\<close>: the book directories below the library's root. A book directory holds
  the epub and the sidecar \<^verbatim>\<open>meta.toml\<close>; it is moved by renaming the directory and then the epub in it,
  and the sidecar is replaced by renaming a temporary file over it. TOML is read and written by
  github.com/BurntSushi/toml, which is not part of the repository: \<open>marshal\<close> and \<open>unmarshal\<close> are
  parameters.
\<close>

definition abs_path :: "string \<Rightarrow> string \<Rightarrow> string" where
  "abs_path rt rel = join_path [rt, rel]"

definition meta_filename :: string where
  "meta_filename = ''meta.toml''"

definition meta_path :: "string \<Rightarrow> location \<Rightarrow> string" where
  "meta_path rt loc = join_path [abs_path rt (loc_dir loc), meta_filename]"

definition node_size :: "node \<Rightarrow> int" where
  "node_size n = (case n of Dir \<Rightarrow> 0 | File b _ \<Rightarrow> int (length b))"

definition node_mtime :: "node \<Rightarrow> time" where
  "node_mtime n = (case n of Dir \<Rightarrow> 0 | File _ t \<Rightarrow> t)"

section \<open>Looking\<close>

fun any_stat :: "string list \<Rightarrow> (bool, 'z) io" where
  "any_stat [] w = (Inr False, w)"
| "any_stat (p # ps) w = (case os_stat p w of (Inr _, w') \<Rightarrow> (Inr True, w') | (Inl _, w') \<Rightarrow> any_stat ps w')"

definition path_taken :: "string \<Rightarrow> author list \<Rightarrow> string \<Rightarrow> (bool, 'z) io" where
  "path_taken rt as t =
     (let author_dir = join_path [rt, author_dir_name as]; target_epub = epub_filename as t in
      bind_io (attempt (os_read_dir author_dir)) (\<lambda>r. case r of
          Inl _ \<Rightarrow> return_io False
        | Inr entries \<Rightarrow>
            any_stat (map (\<lambda>e. join_path [author_dir, fst e, target_epub])
              (filter (\<lambda>e. snd e = Dir) entries))))"

definition store_stat :: "string \<Rightarrow> location \<Rightarrow> (path_info, 'z) io" where
  "store_stat rt loc =
     bind_io (os_stat (abs_path rt (EpubPath loc))) (\<lambda>epub_fi.
     bind_io (os_stat (meta_path rt loc)) (\<lambda>meta_fi.
     return_io \<lparr>PSize = node_size epub_fi, EpubMtime = node_mtime epub_fi,
                MetaSize = node_size meta_fi, MetaMtime = node_mtime meta_fi\<rparr>))"

section \<open>Moving\<close>

text \<open>The function \<open>renameDir\<close> returns undoes the rename; a failing undo is only logged.\<close>

definition rename_dir :: "string \<Rightarrow> string \<Rightarrow> ((unit, 'z) io, 'z) io" where
  "rename_dir from_dir to_dir =
     (if from_dir = to_dir then return_io (return_io ())
      else bind_io (attempt (os_stat to_dir)) (\<lambda>r. case r of
          Inr _ \<Rightarrow> fail_io (DestExists to_dir)
        | Inl e \<Rightarrow>
            if e \<noteq> Enoent then fail_io e
            else bind_io (os_mkdir_all (dir_path to_dir)) (\<lambda>_.
                 bind_io (os_rename from_dir to_dir) (\<lambda>_.
                 return_io (bind_io (attempt (os_rename to_dir from_dir)) (\<lambda>_. return_io ()))))))"

definition remove_if_empty :: "string \<Rightarrow> (unit, 'z) io" where
  "remove_if_empty dir = bind_io (attempt (os_remove dir)) (\<lambda>r. case r of
      Inl e \<Rightarrow> if e \<noteq> Enotempty \<and> e \<noteq> Enoent then fail_io e else return_io ()
    | Inr _ \<Rightarrow> return_io ())"

definition move :: "string \<Rightarrow> location \<Rightarrow> location \<Rightarrow> (unit, 'z) io" where
  "move rt src dst =
     (if EpubPath src = EpubPath dst then return_io ()
      else (let from_dir = abs_path rt (loc_dir src); to_dir = abs_path rt (loc_dir dst);
                from_name = join_path [to_dir, loc_filename src]; to_name = join_path [to_dir, loc_filename dst]
            in bind_io (rename_dir from_dir to_dir) (\<lambda>rollback.
               bind_io (if to_name \<noteq> from_name
                        then bind_io (attempt (os_rename from_name to_name)) (\<lambda>r. case r of
                            Inl e \<Rightarrow> bind_io rollback (\<lambda>_. fail_io e)
                          | Inr _ \<Rightarrow> return_io ())
                        else return_io ()) (\<lambda>_.
               remove_if_empty (dir_path from_dir)))))"

definition store_delete :: "string \<Rightarrow> location \<Rightarrow> (unit, 'z) io" where
  "store_delete rt loc =
     (let p = abs_path rt (loc_dir loc) in
      bind_io (os_remove_all p) (\<lambda>_. remove_if_empty (dir_path p)))"

section \<open>The sidecar\<close>

definition read_meta_file :: "(bytes \<Rightarrow> meta option) \<Rightarrow> string \<Rightarrow> (meta, 'z) io" where
  "read_meta_file unmarshal path =
     bind_io (os_read_file path) (\<lambda>buf. case unmarshal buf of
         None \<Rightarrow> fail_io BadToml
       | Some m \<Rightarrow> return_io (m\<lparr>Tags := first_of (Tags m) (\<lambda>t. t)\<rparr>))"

definition read_meta :: "(bytes \<Rightarrow> meta option) \<Rightarrow> string \<Rightarrow> location \<Rightarrow> (meta, 'z) io" where
  "read_meta unmarshal rt loc = read_meta_file unmarshal (meta_path rt loc)"

definition write_meta_file :: "(meta \<Rightarrow> bytes) \<Rightarrow> string \<Rightarrow> meta \<Rightarrow> (unit, 'z) io" where
  "write_meta_file marshal path m =
     bind_io (os_create_temp (dir_path path) (base_path path) []) (\<lambda>tmp.
     finally_io
       (bind_io (os_write tmp (marshal m)) (\<lambda>_.
        bind_io (os_sync tmp) (\<lambda>_.
        os_rename tmp path)))
       (os_remove tmp))"

definition write_meta :: "(meta \<Rightarrow> bytes) \<Rightarrow> string \<Rightarrow> location \<Rightarrow> meta \<Rightarrow> (unit, 'z) io" where
  "write_meta marshal rt loc m = write_meta_file marshal (meta_path rt loc) m"

section \<open>Composed operations\<close>

definition store_update ::
  "(meta \<Rightarrow> bytes) \<Rightarrow> string \<Rightarrow> location \<Rightarrow> location \<Rightarrow> meta \<Rightarrow> (path_info, 'z) io" where
  "store_update marshal rt old_loc new_loc m =
     bind_io (move rt old_loc new_loc) (\<lambda>_.
     bind_io (write_meta marshal rt new_loc m) (\<lambda>_.
     store_stat rt new_loc))"

definition store_ingest ::
  "(meta \<Rightarrow> bytes) \<Rightarrow> string \<Rightarrow> string \<Rightarrow> location \<Rightarrow> meta \<Rightarrow> (path_info, 'z) io" where
  "store_ingest marshal rt epub_path loc m =
     (let dir = abs_path rt (loc_dir loc) in
      bind_io (os_mkdir_all dir) (\<lambda>_.
      bind_io (os_rename epub_path (join_path [dir, loc_filename loc])) (\<lambda>_.
      bind_io (write_meta marshal rt loc m) (\<lambda>_.
      store_stat rt loc))))"

definition open_sidecars :: "string \<Rightarrow> location \<Rightarrow> (string, 'z) io" where
  "open_sidecars rt loc =
     (let dir = join_path [abs_path rt (loc_dir loc), ''.sidecar''] in
      bind_io (attempt (os_mkdir dir)) (\<lambda>r.
        case r of
          Inl e \<Rightarrow> if e \<noteq> Eexist then fail_io e
                   else bind_io (os_stat dir) (\<lambda>n. if n = Dir then return_io dir else fail_io Enotdir)
        | Inr _ \<Rightarrow> bind_io (os_stat dir) (\<lambda>n. if n = Dir then return_io dir else fail_io Enotdir)))"

section \<open>Walking\<close>

definition path_string :: "path \<Rightarrow> string" where
  "path_string p = slash # join ''/'' p"

definition find_epub :: "string \<Rightarrow> (string, 'z) io" where
  "find_epub dir = bind_io (os_read_dir dir) (\<lambda>ents.
     case find (\<lambda>e. snd e \<noteq> Dir \<and> map ascii_fold (ext_path (fst e)) = ''.epub'') ents of
       Some e \<Rightarrow> return_io (fst e)
     | None \<Rightarrow> fail_io (NoEpub dir))"

definition rel_path :: "string \<Rightarrow> path \<Rightarrow> string" where
  "rel_path rt p = (let r = drop (length (comps rt)) p in if r = [] then ''.'' else join ''/'' r)"

text \<open>\<^verbatim>\<open>WalkDir\<close> visits the directories in lexical order; \<open>skip\<close> is the directory whose subtree it was told
  to leave out. A directory it enters is read, and a read that fails ends the walk.\<close>

fun walk_dirs :: "string \<Rightarrow> path list \<Rightarrow> path option \<Rightarrow> location list \<Rightarrow> (location list, 'z) io" where
  "walk_dirs rt [] skip entries w = (Inr entries, w)"
| "walk_dirs rt (p # ps) skip entries w =
     (if (case skip of None \<Rightarrow> False | Some s \<Rightarrow> prefix s p) then walk_dirs rt ps skip entries w
      else (case os_stat (join_path [path_string p, meta_filename]) w of
          (Inl _, w1) \<Rightarrow>
            (case os_read_dir (path_string p) w1 of
               (Inl e, w2) \<Rightarrow> (Inl e, w2)
             | (Inr _, w2) \<Rightarrow> walk_dirs rt ps skip entries w2)
        | (Inr _, w1) \<Rightarrow>
            (case find_epub (path_string p) w1 of
               (Inl _, w2) \<Rightarrow> walk_dirs rt ps (Some p) entries w2
             | (Inr n, w2) \<Rightarrow>
                 walk_dirs rt ps (Some p) (entries @ [\<lparr>EpubPath = join_path [rel_path rt p, n]\<rparr>]) w2)))"

definition dirs_below :: "path \<Rightarrow> fs \<Rightarrow> path list" where
  "dirs_below r fs = sort (remdups (filter (\<lambda>p. node_at p fs = Some Dir) (r # below r fs)))"

definition walk :: "string \<Rightarrow> (location list, 'z) io" where
  "walk rt = bind_io (os_stat rt) (\<lambda>n w.
     if n \<noteq> Dir then (Inr [], w) else walk_dirs rt (dirs_below (comps rt) (FS w)) None [] w)"

section \<open>Calls of the store are quiet\<close>

lemma quiet_if [quiet_rules]: "(b \<Longrightarrow> quiet m) \<Longrightarrow> (\<not> b \<Longrightarrow> quiet n) \<Longrightarrow> quiet (if b then m else n)"
  by simp

lemma quiet_sum [quiet_rules]:
  "(\<And>e. quiet (f e)) \<Longrightarrow> (\<And>x. quiet (g x)) \<Longrightarrow> quiet (case r of Inl e \<Rightarrow> f e | Inr x \<Rightarrow> g x)"
  by (simp split: sum.split)

lemma quiet_option [quiet_rules]:
  "quiet m \<Longrightarrow> (\<And>x. quiet (g x)) \<Longrightarrow> quiet (case r of None \<Rightarrow> m | Some x \<Rightarrow> g x)"
  by (simp split: option.split)

lemma quiet_any_stat [quiet_rules]: "quiet (any_stat ps)"
proof (induction ps)
  case (Cons p ps)
  have e: "any_stat (p # ps) = bind_io (attempt (os_stat p)) (\<lambda>r. case r of Inl _ \<Rightarrow> any_stat ps | Inr _ \<Rightarrow> return_io True)"
    by (rule ext) (simp add: bind_io_def attempt_def return_io_def split: prod.split sum.split)
  show ?case unfolding e by (intro quiet_rules Cons.IH)
qed (simp add: quiet_def)

lemma quiet_store [quiet_rules]:
  "quiet (path_taken rt as t)" "quiet (store_stat rt loc)" "quiet (remove_if_empty d)"
  "quiet (store_delete rt loc)" "quiet (read_meta unm rt loc)" "quiet (write_meta m rt loc x)"
  "quiet (open_sidecars rt loc)"
  unfolding path_taken_def store_stat_def remove_if_empty_def store_delete_def read_meta_def write_meta_def
    read_meta_file_def write_meta_file_def open_sidecars_def Let_def
  by (intro quiet_rules)+

definition undo_rename :: "string \<Rightarrow> string \<Rightarrow> (unit, 'z) io" where
  "undo_rename from_dir to_dir = bind_io (attempt (os_rename to_dir from_dir)) (\<lambda>_. return_io ())"

lemma quiet_undo [quiet_rules]: "quiet (undo_rename a b)"
  unfolding undo_rename_def by (intro quiet_rules)

text \<open>\<open>rename_dir\<close> as its effect and the undo it returns.\<close>

definition do_rename_dir :: "string \<Rightarrow> string \<Rightarrow> (unit, 'z) io" where
  "do_rename_dir from_dir to_dir =
     (if from_dir = to_dir then return_io ()
      else bind_io (attempt (os_stat to_dir)) (\<lambda>r. case r of
          Inr _ \<Rightarrow> fail_io (DestExists to_dir)
        | Inl e \<Rightarrow> if e \<noteq> Enoent then fail_io e
            else bind_io (os_mkdir_all (dir_path to_dir)) (\<lambda>_. os_rename from_dir to_dir)))"

lemma rename_dir_do:
  "rename_dir a b = bind_io (do_rename_dir a b) (\<lambda>_. return_io (if a = b then return_io () else undo_rename a b))"
proof (rule ext)
  fix w :: "'a os_scheme"
  show "rename_dir a b w = bind_io (do_rename_dir a b) (\<lambda>_. return_io (if a = b then return_io () else undo_rename a b)) w"
    by (auto simp: rename_dir_def do_rename_dir_def bind_io_def return_io_def fail_io_def attempt_def undo_rename_def
        split: prod.split sum.split)
qed

lemma bind_io_assoc: "bind_io (bind_io m k) l = bind_io m (\<lambda>x. bind_io (k x) l)"
  by (rule ext) (simp add: bind_io_def split: prod.split sum.split)

lemma bind_return_left: "bind_io (return_io x) k = k x"
  by (rule ext) (simp add: bind_io_def return_io_def)

lemma bind_fail_left: "bind_io (fail_io e) k = fail_io e"
  by (rule ext) (simp add: bind_io_def fail_io_def)

lemma quiet_do_rename [quiet_rules]: "quiet (do_rename_dir a b)"
  unfolding do_rename_dir_def by (intro quiet_rules)

lemma quiet_move [quiet_rules]: "quiet (move rt src dst)"
  unfolding move_def Let_def rename_dir_do bind_io_assoc bind_return_left
  by (intro quiet_rules)

lemma quiet_update [quiet_rules]:
  "quiet (store_update marshal rt a b m)" "quiet (store_ingest marshal rt p b m)"
  unfolding store_update_def store_ingest_def Let_def by (intro quiet_rules)+

end
