(* ===== verification/Archive.thy ===== *)
theory Archive
  imports Files
begin

text \<open>
  \<^verbatim>\<open>pkg/epub/zip.go\<close> and \<^verbatim>\<open>pkg/epub/internal/ocf\<close>: the entries of an epub's archive, which of them is
  the package document, which are encrypted, and the copy of an archive with some entries replaced. An
  entry is its header and its raw content. Reading zip bytes as entries and writing entries as bytes is
  \<^verbatim>\<open>archive/zip\<close>, and the two XML documents are decoded by \<^verbatim>\<open>encoding/xml\<close>: both are the record \<open>codec\<close>.
\<close>

record entry =
  EName :: string
  EMethod :: nat
  EModified :: time
  ERaw :: bytes

record codec =
  ZRead :: "bytes \<Rightarrow> err + entry list"
  ZWrite :: "entry list \<Rightarrow> bytes"
  ZInflate :: "entry \<Rightarrow> err + bytes"
  ZSize :: "entry \<Rightarrow> int"
  ZMake :: "string \<Rightarrow> nat \<Rightarrow> time \<Rightarrow> bytes \<Rightarrow> entry"
  XContainer :: "bytes \<Rightarrow> err + (string \<times> string) list"
  XEncryption :: "bytes \<Rightarrow> err + (string \<times> string) list"

record archive =
  AFiles :: "entry list"
  AOpf :: string

section \<open>Attributes\<close>

text \<open>\<^verbatim>\<open>strings.Fields\<close>: the maximal runs of runes that are not white space, byte for byte.\<close>

fun chunks_fuel :: "nat \<Rightarrow> string \<Rightarrow> string list" where
  "chunks_fuel n [] = []"
| "chunks_fuel 0 s = []"
| "chunks_fuel (Suc n) s = (let k = max 1 (rune_len s) in take k s # chunks_fuel n (drop k s))"

fun gather :: "string list \<Rightarrow> string \<Rightarrow> string list" where
  "gather [] cur = (if cur = [] then [] else [cur])"
| "gather (r # rs) cur =
     (if r \<in> set space_runes then (if cur = [] then gather rs [] else cur # gather rs [])
      else gather rs (cur @ r))"

definition fields :: "string \<Rightarrow> string list" where
  "fields s = gather (chunks_fuel (length s) s) []"

definition collapse :: "string \<Rightarrow> string" where
  "collapse s = join '' '' (fields s)"

definition hex_val :: "char \<Rightarrow> nat option" where
  "hex_val c = (let b = byte c in
     if 48 \<le> b \<and> b \<le> 57 then Some (b - 48)
     else if 97 \<le> b \<and> b \<le> 102 then Some (b - 87)
     else if 65 \<le> b \<and> b \<le> 70 then Some (b - 55)
     else None)"

text \<open>\<^verbatim>\<open>url.PathUnescape\<close>.\<close>

fun unescape :: "string \<Rightarrow> string option" where
  "unescape [] = Some []"
| "unescape (c # s) =
     (if c = CHR ''%'' then
        (case s of
           a # b # t \<Rightarrow>
             (case (hex_val a, hex_val b) of
                (Some x, Some y) \<Rightarrow> map_option ((#) (char_of (16 * x + y))) (unescape t)
              | _ \<Rightarrow> None)
         | _ \<Rightarrow> None)
      else map_option ((#) c) (unescape s))"

definition unescape_path :: "string \<Rightarrow> string" where
  "unescape_path s = (case unescape s of None \<Rightarrow> s | Some t \<Rightarrow> t)"

definition candidates :: "string \<Rightarrow> string list" where
  "candidates value =
     (let raw = collapse value; decoded = unescape_path raw
      in if decoded = raw then [raw] else [decoded, raw])"

section \<open>The container\<close>

definition container_path :: string where
  "container_path = ''META-INF/container.xml''"

definition metadata_type :: string where
  "metadata_type = ''application/oebps-package+xml''"

definition signatures_path :: string where
  "signatures_path = ''META-INF/signatures.xml''"

definition encryption_path :: string where
  "encryption_path = ''META-INF/encryption.xml''"

definition mimetype_path :: string where
  "mimetype_path = ''mimetype''"

definition mimetype_value :: string where
  "mimetype_value = ''application/epub+zip''"

definition package_paths :: "(string \<times> string) list \<Rightarrow> string list" where
  "package_paths rootfiles = concat (map (\<lambda>(full_path, media_type).
     if collapse media_type \<noteq> metadata_type then [] else candidates full_path) rootfiles)"

definition entry_of :: "entry list \<Rightarrow> string \<Rightarrow> entry option" where
  "entry_of es name = find (\<lambda>e. EName e = name) es"

definition arc_has :: "archive \<Rightarrow> string \<Rightarrow> bool" where
  "arc_has a name \<longleftrightarrow> entry_of (AFiles a) name \<noteq> None"

definition arc_size :: "codec \<Rightarrow> archive \<Rightarrow> string \<Rightarrow> int" where
  "arc_size c a name = (case entry_of (AFiles a) name of None \<Rightarrow> 0 | Some e \<Rightarrow> ZSize c e)"

definition arc_read :: "codec \<Rightarrow> archive \<Rightarrow> string \<Rightarrow> err + bytes" where
  "arc_read c a name = (case entry_of (AFiles a) name of None \<Rightarrow> Inl (EntryMissing name) | Some e \<Rightarrow> ZInflate c e)"

definition metadata_path :: "codec \<Rightarrow> entry list \<Rightarrow> err + string" where
  "metadata_path c es =
     (case entry_of es container_path of
        None \<Rightarrow> Inl (BadEpub ''no container file found'')
      | Some f \<Rightarrow> bind_res (ZInflate c f) (\<lambda>b. bind_res (XContainer c b) (\<lambda>roots.
          let paths = package_paths roots in
          if paths = [] then Inl (BadEpub ''no package rootfile declared in container'')
          else (case find (\<lambda>p. entry_of es p \<noteq> None) paths of
              Some p \<Rightarrow> Inr p
            | None \<Rightarrow> Inl (BadEpub ''declared package rootfile not found in archive'')))))"

definition open_archive :: "codec \<Rightarrow> entry list \<Rightarrow> err + archive" where
  "open_archive c es = bind_res (metadata_path c es) (\<lambda>opf. Inr \<lparr>AFiles = es, AOpf = opf\<rparr>)"

definition arc_validate :: "codec \<Rightarrow> archive \<Rightarrow> err + unit" where
  "arc_validate c a =
     (if \<not> arc_has a mimetype_path then Inl (BadEpub ''missing mimetype declaration'')
      else bind_res (arc_read c a mimetype_path) (\<lambda>b.
        if trim_space b \<noteq> mimetype_value then Inl (BadEpub ''unexpected mimetype'') else Inr ()))"

section \<open>Encryption\<close>

definition obfuscation_algorithms :: "string list" where
  "obfuscation_algorithms = [''http://ns.adobe.com/pdf/enc#RC'', ''http://www.idpf.org/2008/embedding'']"

definition encryption_info :: "(string \<times> string) list \<Rightarrow> (string \<times> string) list" where
  "encryption_info dat = fold (\<lambda>(algorithm, uri) m.
     let algo = collapse algorithm in
     if algo = [] then m
     else fold (\<lambda>name m. if name \<noteq> [] then (name, algo) # m else m) (candidates uri) m) dat []"

definition read_encryption :: "codec \<Rightarrow> archive \<Rightarrow> err + (string \<times> string) list option" where
  "read_encryption c a =
     (case entry_of (AFiles a) encryption_path of
        None \<Rightarrow> Inr None
      | Some f \<Rightarrow> bind_res (ZInflate c f) (\<lambda>b. bind_res (XEncryption c b) (\<lambda>dat. Inr (Some (encryption_info dat)))))"

definition is_encrypted :: "(string \<times> string) list option \<Rightarrow> string \<Rightarrow> bool" where
  "is_encrypted enc name =
     (case enc of
        None \<Rightarrow> False
      | Some m \<Rightarrow> (case map_of m name of None \<Rightarrow> False | Some algo \<Rightarrow> algo \<notin> set obfuscation_algorithms))"

section \<open>Writing a copy\<close>

text \<open>\<open>first\<close>: the entry is the one its name is looked up as.\<close>

definition write_entry :: "codec \<Rightarrow> (string \<times> bytes) list \<Rightarrow> bool \<Rightarrow> entry \<Rightarrow> entry" where
  "write_entry c replace first f =
     (case (if first then map_of replace (EName f) else None) of
        Some dat \<Rightarrow> ZMake c (EName f) (EMethod f) (EModified f) dat
      | None \<Rightarrow>
          if suffix ''/'' (EName f) then ZMake c (EName f) (EMethod f) (EModified f) [] else f)"

fun write_entries :: "codec \<Rightarrow> (string \<times> bytes) list \<Rightarrow> string list \<Rightarrow> entry list \<Rightarrow> entry list" where
  "write_entries c replace seen [] = []"
| "write_entries c replace seen (f # fs) =
     (if EName f = mimetype_path then write_entries c replace (EName f # seen) fs
      else write_entry c replace (EName f \<notin> set seen) f # write_entries c replace (EName f # seen) fs)"

definition write_to :: "codec \<Rightarrow> archive \<Rightarrow> (string \<times> bytes) list \<Rightarrow> err + entry list" where
  "write_to c a replace =
     (case entry_of (AFiles a) mimetype_path of
        None \<Rightarrow> Inl (BadEpub ''missing mimetype declaration'')
      | Some mt \<Rightarrow>
          (case find (\<lambda>x. \<not> arc_has a (fst x)) replace of
             Some x \<Rightarrow> Inl (EntryMissing (fst x))
           | None \<Rightarrow> Inr (write_entry c replace True mt # write_entries c replace [] (AFiles a))))"

section \<open>What a copy holds\<close>

lemma entry_of_Some: "entry_of es n = Some e \<Longrightarrow> e \<in> set es \<and> EName e = n"
  by (auto simp: entry_of_def find_Some_iff)

lemma entry_of_None: "entry_of es n = None \<longleftrightarrow> n \<notin> EName ` set es"
  by (auto simp: entry_of_def find_None_iff)

lemma entry_of_Cons: "entry_of (e # es) n = (if EName e = n then Some e else entry_of es n)"
  by (simp add: entry_of_def)

definition names_kept :: "codec \<Rightarrow> bool" where
  "names_kept c \<longleftrightarrow> (\<forall>n m t b. EName (ZMake c n m t b) = n)"

lemma write_entry_name: "names_kept c \<Longrightarrow> EName (write_entry c r b f) = EName f"
  by (simp add: write_entry_def names_kept_def split: option.split)

lemma write_entries_of:
  assumes "names_kept c" "n \<noteq> mimetype_path"
  shows "entry_of (write_entries c r seen es) n = map_option (write_entry c r (n \<notin> set seen)) (entry_of es n)"
proof (induction es arbitrary: seen)
  case (Cons e es)
  then show ?case using assms write_entry_name [OF assms(1), of r "EName e \<notin> set seen" e]
    by (auto simp: entry_of_Cons)
qed (simp add: entry_of_def)

lemma write_entries_names:
  "names_kept c \<Longrightarrow> map EName (write_entries c r seen es) = filter (\<lambda>n. n \<noteq> mimetype_path) (map EName es)"
  by (induction es arbitrary: seen) (simp_all add: write_entry_name)

text \<open>C38: a rewritten archive has \<open>mimetype\<close> as its first entry and every other entry of the original
  under its name and in its order; looking up an entry finds the replacement where one was given and the
  original entry, copied raw, where none was; and a replacement for an entry the archive does not have is
  an error instead of being dropped.\<close>

theorem write_to_replaces:
  assumes "names_kept c"
  shows "case write_to c a replace of
      Inl e \<Rightarrow> \<not> arc_has a mimetype_path \<or> (\<exists>x \<in> set replace. \<not> arc_has a (fst x) \<and> e = EntryMissing (fst x))
    | Inr es \<Rightarrow> (\<forall>x \<in> set replace. arc_has a (fst x)) \<and>
        map EName es = mimetype_path # filter (\<lambda>n. n \<noteq> mimetype_path) (map EName (AFiles a)) \<and>
        (\<forall>f n. entry_of (AFiles a) n = Some f \<longrightarrow> \<not> suffix ''/'' n \<longrightarrow>
           entry_of es n = Some (case map_of replace n of
             None \<Rightarrow> f | Some dat \<Rightarrow> ZMake c n (EMethod f) (EModified f) dat))"
proof (cases "entry_of (AFiles a) mimetype_path")
  case None
  then show ?thesis by (simp add: write_to_def arc_has_def)
next
  case (Some mt)
  note mt = entry_of_Some [OF Some]
  show ?thesis
  proof (cases "find (\<lambda>x. \<not> arc_has a (fst x)) replace")
    case None
    let ?es = "write_entry c replace True mt # write_entries c replace [] (AFiles a)"
    have w: "write_to c a replace = Inr ?es" using None Some by (simp add: write_to_def)
    have names: "map EName ?es = mimetype_path # filter (\<lambda>n. n \<noteq> mimetype_path) (map EName (AFiles a))"
      using mt by (simp add: write_entry_name [OF assms] write_entries_names [OF assms])
    have look: "entry_of ?es n = Some (write_entry c replace True f)" if "entry_of (AFiles a) n = Some f" for n f
      using that Some mt write_entries_of [OF assms, of n replace "[]" "AFiles a"]
      by (auto simp: entry_of_Cons write_entry_name [OF assms])
    have "entry_of ?es n = Some (case map_of replace n of None \<Rightarrow> f | Some dat \<Rightarrow> ZMake c n (EMethod f) (EModified f) dat)"
      if "entry_of (AFiles a) n = Some f" "\<not> suffix ''/'' n" for n f
      using look [OF that(1)] that(2) entry_of_Some [OF that(1)] by (auto simp: write_entry_def split: option.split)
    note kept = this
    have "\<forall>x \<in> set replace. arc_has a (fst x)" using None by (auto simp: find_None_iff)
    moreover have "\<forall>f n. entry_of (AFiles a) n = Some f \<longrightarrow> \<not> suffix ''/'' n \<longrightarrow> entry_of ?es n =
        Some (case map_of replace n of None \<Rightarrow> f | Some dat \<Rightarrow> ZMake c n (EMethod f) (EModified f) dat)"
      by (intro allI impI) (rule kept)
    ultimately show ?thesis unfolding w sum.case using names by (intro conjI)
  next
    case (Some x)
    then have "x \<in> set replace" "\<not> arc_has a (fst x)" by (auto simp: find_Some_iff)
    then have "\<exists>y \<in> set replace. \<not> arc_has a (fst y) \<and> EntryMissing (fst x) = EntryMissing (fst y)" by blast
    then show ?thesis by (simp add: write_to_def \<open>entry_of (AFiles a) mimetype_path = Some mt\<close> Some)
  qed
qed

text \<open>A codec whose entries hold their content as it is.\<close>

definition plain_codec :: codec where
  "plain_codec = \<lparr>ZRead = \<lambda>_. Inr [], ZWrite = \<lambda>_. [], ZInflate = \<lambda>e. Inr (ERaw e), ZSize = \<lambda>e. int (length (ERaw e)),
     ZMake = \<lambda>n m t b. \<lparr>EName = n, EMethod = m, EModified = t, ERaw = b\<rparr>,
     XContainer = \<lambda>_. Inr [(''p.opf'', metadata_type)], XEncryption = \<lambda>_. Inr []\<rparr>"

definition plain_entry :: "string \<Rightarrow> bytes \<Rightarrow> entry" where
  "plain_entry n b = \<lparr>EName = n, EMethod = 0, EModified = 0, ERaw = b\<rparr>"

theorem write_to_replaces_witness:
  "\<exists>es. write_to plain_codec \<lparr>AFiles = [plain_entry ''p.opf'' ''old'', plain_entry mimetype_path mimetype_value], AOpf = ''p.opf''\<rparr>
      [(''p.opf'', ''new'')] = Inr es \<and> entry_of es ''p.opf'' = Some (plain_entry ''p.opf'' ''new'')"
proof -
  let ?a = "\<lparr>AFiles = [plain_entry ''p.opf'' ''old'', plain_entry mimetype_path mimetype_value], AOpf = ''p.opf''\<rparr>"
  have "names_kept plain_codec" by (simp add: names_kept_def plain_codec_def)
  note t = write_to_replaces [OF this, of ?a "[(''p.opf'', ''new'')]"]
  have has: "arc_has ?a mimetype_path" "arc_has ?a ''p.opf''"
    by (simp_all add: arc_has_def entry_of_def plain_entry_def mimetype_path_def)
  then obtain es where es: "write_to plain_codec ?a [(''p.opf'', ''new'')] = Inr es"
    using t by (cases "write_to plain_codec ?a [(''p.opf'', ''new'')]") auto
  have e: "entry_of (AFiles ?a) ''p.opf'' = Some (plain_entry ''p.opf'' ''old'')"
    by (simp add: entry_of_def plain_entry_def)
  have "entry_of es ''p.opf'' = Some (plain_entry ''p.opf'' ''new'')"
    using t [unfolded es sum.case, THEN conjunct2, THEN conjunct2, rule_format, OF e]
    by (simp add: suffix_def plain_codec_def plain_entry_def)
  with es show ?thesis by blast
qed

end
