(* ===== verification/Epub_File.thy ===== *)
theory Epub_File
  imports Store Archive
begin

text \<open>
  \<^verbatim>\<open>pkg/epub\<close> (opening an epub, replacing its cover, staging the entries a save must replace, the atomic
  rewrite) and \<^verbatim>\<open>pkg/library/internal/epub\<close> (the record of a book out of an open epub, and edits applied
  to it). The three documents inside an epub that are read and written as XML trees (the package
  document, the NCX and the cover page: \<^verbatim>\<open>internal/opf\<close>, \<^verbatim>\<open>internal/ncx\<close>, \<^verbatim>\<open>internal/content\<close>, all on the
  tree of github.com/beevik/etree) are functions of the record \<open>env\<close>, as are TOML, image headers and the
  language registry.
\<close>

record epub_series =
  ESName :: string
  ESIndex :: string

record metadata =
  XTitle :: string
  XSortTitle :: string
  XAuthors :: "(string \<times> string) list"
  XSeries :: "epub_series option"
  XDescription :: string
  XLanguage :: string
  XPublisher :: string
  XRights :: string
  XSubjects :: "string list"
  XContributors :: "(string \<times> string) list"

text \<open>What \<^verbatim>\<open>Book.write\<close> asks of the package document, in its order.\<close>

datatype opf_edit =
    SetTitle "string option" string
  | SetDescription string
  | SetLanguage string
  | SetAuthors "(string \<times> string) list"
  | SetSeries "epub_series option"
  | SetPublisher string
  | SetRights string
  | SetSubjects "string list"
  | SetContributors "(string \<times> string) list"

record 'd env =
  TomlMarshal :: "meta \<Rightarrow> bytes"
  TomlUnmarshal :: "bytes \<Rightarrow> meta option"
  LangOk :: "string \<Rightarrow> bool"
  ImageConfig :: "bytes \<Rightarrow> (int \<times> int \<times> string) option"
  Zip :: codec
  OpfParse :: "bytes \<Rightarrow> err + 'd"
  OpfMetadata :: "string \<Rightarrow> 'd \<Rightarrow> metadata \<times> string \<times> (string \<times> string) list \<times> string"
  OpfApply :: "opf_edit list \<Rightarrow> 'd \<Rightarrow> bool \<times> 'd"
  OpfBytes :: "'d \<Rightarrow> err + bytes"
  OpfCoverPages :: "string \<Rightarrow> 'd \<Rightarrow> string list"
  OpfNcx :: "string \<Rightarrow> 'd \<Rightarrow> string"
  CoverFit :: "bytes \<Rightarrow> string \<Rightarrow> string \<Rightarrow> int \<Rightarrow> int \<Rightarrow> (bool \<times> (err + bytes)) option"
  NcxApply :: "bytes \<Rightarrow> string option \<Rightarrow> string list option \<Rightarrow> (bool \<times> (err + bytes)) option"

text \<open>An open epub: the archive, the package document and what it said when it was opened.\<close>

record 'd epub =
  EPath :: string
  EArc :: archive
  EMeta :: metadata
  EPubdate :: string
  EIdentifiers :: "(string \<times> string) list"
  ECoverPath :: string
  EOrig :: metadata
  ECover :: "bytes option"
  EDoc :: 'd

section \<open>Opening\<close>

definition from_res :: "err + 'a \<Rightarrow> ('a, 'z) io" where
  "from_res r = (case r of Inl e \<Rightarrow> fail_io e | Inr x \<Rightarrow> return_io x)"

definition max_package_size :: int where
  "max_package_size = 16 * 2 ^ 20"

definition open_file :: "codec \<Rightarrow> bytes \<Rightarrow> err + archive" where
  "open_file c b =
     bind_res (ZRead c b) (\<lambda>es.
     bind_res (open_archive c es) (\<lambda>a.
     bind_res (arc_validate c a) (\<lambda>_. Inr a)))"

definition new_book_of :: "'d env \<Rightarrow> string \<Rightarrow> archive \<Rightarrow> 'd \<Rightarrow> 'd epub" where
  "new_book_of env p a doc =
     (case OpfMetadata env (dir_path (AOpf a)) doc of (m, pubdate, ids, cover) \<Rightarrow>
        \<lparr>EPath = p, EArc = a, EMeta = m, EPubdate = pubdate, EIdentifiers = ids, ECoverPath = cover,
         EOrig = m, ECover = None, EDoc = doc\<rparr>)"

definition open_bytes :: "'d env \<Rightarrow> string \<Rightarrow> bytes \<Rightarrow> err + 'd epub" where
  "open_bytes env p b =
     bind_res (open_file (Zip env) b) (\<lambda>a.
       if arc_size (Zip env) a (AOpf a) > max_package_size then Inl (BadEpub ''package document over the limit'')
       else bind_res (arc_read (Zip env) a (AOpf a)) (\<lambda>raw.
            bind_res (OpfParse env raw) (\<lambda>doc. Inr (new_book_of env p a doc))))"

definition open_epub :: "'d env \<Rightarrow> string \<Rightarrow> ('d epub, 'z) io" where
  "open_epub env p = bind_io (os_read_file p) (\<lambda>b. from_res (open_bytes env p b))"

section \<open>Replacing the cover\<close>

definition lower :: "string \<Rightarrow> string" where
  "lower s = map ascii_fold s"

definition cover_format :: "string \<Rightarrow> string" where
  "cover_format cover_path =
     (let e = lower (ext_path cover_path) in
      if e = ''.jpg'' \<or> e = ''.jpeg'' then ''jpeg'' else if e = ''.png'' then ''png'' else [])"

definition set_cover :: "'d env \<Rightarrow> bytes \<Rightarrow> 'd epub \<Rightarrow> err + 'd epub" where
  "set_cover env img f =
     (if ECoverPath f = [] then Inl (BadEpub ''no cover in epub'')
      else let want = cover_format (ECoverPath f) in
        if want = [] then Inl (BadEpub ''cover format not replaceable in place'')
        else (case ImageConfig env img of
            None \<Rightarrow> Inl (BadEpub ''cover data is not a valid PNG or JPEG image'')
          | Some (_, _, got) \<Rightarrow>
              if got \<noteq> want then Inl (BadEpub ''a matching format is required'')
              else if \<not> arc_has (EArc f) (ECoverPath f) then Inl (EntryMissing (ECoverPath f))
              else Inr (f\<lparr>ECover := Some img\<rparr>)))"

section \<open>Staging\<close>

record moved_fields =
  MvTitle :: bool
  MvSortTitle :: bool
  MvDescription :: bool
  MvLanguage :: bool
  MvAuthors :: bool
  MvSeries :: bool
  MvPublisher :: bool
  MvRights :: bool
  MvSubjects :: bool
  MvContributors :: bool

definition moved_of :: "'d epub \<Rightarrow> moved_fields" where
  "moved_of f = (let b = EMeta f; o1 = EOrig f in
     \<lparr>MvTitle = (XTitle b \<noteq> XTitle o1), MvSortTitle = (XSortTitle b \<noteq> XSortTitle o1),
      MvDescription = (XDescription b \<noteq> XDescription o1), MvLanguage = (XLanguage b \<noteq> XLanguage o1),
      MvAuthors = (XAuthors b \<noteq> XAuthors o1), MvSeries = (XSeries b \<noteq> XSeries o1),
      MvPublisher = (XPublisher b \<noteq> XPublisher o1), MvRights = (XRights b \<noteq> XRights o1),
      MvSubjects = (XSubjects b \<noteq> XSubjects o1), MvContributors = (XContributors b \<noteq> XContributors o1)\<rparr>)"

definition nothing_moved :: moved_fields where
  "nothing_moved = \<lparr>MvTitle = False, MvSortTitle = False, MvDescription = False, MvLanguage = False,
     MvAuthors = False, MvSeries = False, MvPublisher = False, MvRights = False, MvSubjects = False,
     MvContributors = False\<rparr>"

definition moved_changed :: "moved_fields \<Rightarrow> bool" where
  "moved_changed m \<longleftrightarrow> m \<noteq> nothing_moved"

definition write_fields :: "metadata \<Rightarrow> moved_fields \<Rightarrow> opf_edit list" where
  "write_fields b m =
     (if MvTitle m \<or> MvSortTitle m then [SetTitle (if MvTitle m then Some (XTitle b) else None) (XSortTitle b)] else []) @
     (if MvDescription m then [SetDescription (XDescription b)] else []) @
     (if MvLanguage m then [SetLanguage (XLanguage b)] else []) @
     (if MvAuthors m then [SetAuthors (XAuthors b)] else []) @
     (if MvSeries m then [SetSeries (XSeries b)] else []) @
     (if MvPublisher m then [SetPublisher (XPublisher b)] else []) @
     (if MvRights m then [SetRights (XRights b)] else []) @
     (if MvSubjects m then [SetSubjects (XSubjects b)] else []) @
     (if MvContributors m then [SetContributors (XContributors b)] else [])"

text \<open>The entries to replace, by name: a Go map.\<close>

type_synonym staged = "(string \<times> bytes) list"

definition stage_entry :: "string \<Rightarrow> bytes \<Rightarrow> staged \<Rightarrow> staged" where
  "stage_entry n b r = (n, b) # filter (\<lambda>x. fst x \<noteq> n) r"

fun refit_cover_page :: "'d env \<Rightarrow> 'd epub \<Rightarrow> (string \<times> string) list option \<Rightarrow> int \<Rightarrow> int \<Rightarrow> string list \<Rightarrow>
    staged \<Rightarrow> err + staged" where
  "refit_cover_page env f enc width height [] replace = Inr replace"
| "refit_cover_page env f enc width height (entry # pages) replace =
     (if \<not> arc_has (EArc f) entry \<or> is_encrypted enc entry then refit_cover_page env f enc width height pages replace
      else bind_res (arc_read (Zip env) (EArc f) entry) (\<lambda>dat.
        case CoverFit env dat entry (ECoverPath f) width height of
          None \<Rightarrow> refit_cover_page env f enc width height pages replace
        | Some (changed, out) \<Rightarrow>
            if changed then bind_res out (\<lambda>b. Inr (stage_entry entry b replace))
            else refit_cover_page env f enc width height pages replace))"

definition sync_ncx :: "'d env \<Rightarrow> 'd epub \<Rightarrow> 'd \<Rightarrow> (string \<times> string) list option \<Rightarrow> moved_fields \<Rightarrow> staged \<Rightarrow>
    err + staged" where
  "sync_ncx env f doc enc m replace =
     (if \<not> MvTitle m \<and> \<not> MvAuthors m then Inr replace
      else let entry = OpfNcx env (dir_path (AOpf (EArc f))) doc in
        if entry = [] \<or> \<not> arc_has (EArc f) entry \<or> is_encrypted enc entry then Inr replace
        else bind_res (arc_read (Zip env) (EArc f) entry) (\<lambda>dat.
          case NcxApply env dat (if MvTitle m then Some (XTitle (EMeta f)) else None)
              (if MvAuthors m then Some (map fst (XAuthors (EMeta f))) else None) of
            None \<Rightarrow> Inr replace
          | Some (changed, out) \<Rightarrow>
              if changed then bind_res out (\<lambda>b. Inr (stage_entry entry b replace)) else Inr replace))"

definition stage_cover :: "'d env \<Rightarrow> 'd epub \<Rightarrow> (string \<times> string) list option \<Rightarrow> err + staged" where
  "stage_cover env f enc =
     (case ECover f of
        None \<Rightarrow> Inr []
      | Some img \<Rightarrow>
          if is_encrypted enc (ECoverPath f) then Inl (BadEpub ''refusing to replace encrypted cover'')
          else (case ImageConfig env img of
              None \<Rightarrow> Inl (BadEpub ''image'')
            | Some (width, height, _) \<Rightarrow>
                refit_cover_page env f enc width height (OpfCoverPages env (dir_path (AOpf (EArc f))) (EDoc f))
                  (stage_entry (ECoverPath f) img [])))"

definition stage_fields :: "'d env \<Rightarrow> 'd epub \<Rightarrow> (string \<times> string) list option \<Rightarrow> staged \<Rightarrow> err + staged" where
  "stage_fields env f enc replace =
     (let m = moved_of f in
      if \<not> moved_changed m then Inr replace
      else if is_encrypted enc (AOpf (EArc f)) then Inl (BadEpub ''refusing to edit: package document is encrypted'')
      else (case OpfApply env (write_fields (EMeta f) m) (EDoc f) of (changed, doc) \<Rightarrow>
        bind_res (if changed then bind_res (OpfBytes env doc) (\<lambda>out. Inr (stage_entry (AOpf (EArc f)) out replace))
                  else Inr replace) (sync_ncx env f doc enc m)))"

definition stage :: "'d env \<Rightarrow> 'd epub \<Rightarrow> err + staged" where
  "stage env f =
     (if arc_has (EArc f) signatures_path then Inl (BadEpub ''refusing to edit: the epub is signed'')
      else bind_res (read_encryption (Zip env) (EArc f)) (\<lambda>enc.
           bind_res (stage_cover env f enc) (stage_fields env f enc)))"

section \<open>Saving\<close>

definition rewrite_file :: "'d env \<Rightarrow> 'd epub \<Rightarrow> staged \<Rightarrow> ('d epub, 'z) io" where
  "rewrite_file env f replace =
     bind_io (os_create_temp (dir_path (EPath f)) ''.ebookfs-'' ''.epub.tmp'') (\<lambda>tmp.
     finally_io
       (bind_io (from_res (write_to (Zip env) (EArc f) replace)) (\<lambda>es.
        bind_io (os_write tmp (ZWrite (Zip env) es)) (\<lambda>_.
        bind_io (os_sync tmp) (\<lambda>_.
        bind_io (open_epub env tmp) (\<lambda>next_f.
        bind_io (os_rename tmp (EPath f)) (\<lambda>_.
        return_io (next_f\<lparr>EPath := EPath f\<rparr>)))))))
       (os_remove tmp))"

definition save :: "'d env \<Rightarrow> 'd epub \<Rightarrow> ('d epub, 'z) io" where
  "save env f = bind_io (from_res (stage env f)) (\<lambda>replace.
     if replace = [] then return_io f else rewrite_file env f replace)"

section \<open>Reading an epub for a frontend\<close>

text \<open>\<^verbatim>\<open>OpenReader\<close>: the archive and the cover's path the index holds; the package document is not parsed.\<close>

record reader =
  RdBytes :: bytes
  RdArc :: archive
  RdCover :: string

definition open_reader :: "'d env \<Rightarrow> string \<Rightarrow> string \<Rightarrow> (reader, 'z) io" where
  "open_reader env p cover = bind_io (os_read_file p) (\<lambda>b. bind_io (from_res (open_file (Zip env) b)) (\<lambda>a.
     return_io \<lparr>RdBytes = b, RdArc = a, RdCover = cover\<rparr>))"

definition reader_opf :: "'d env \<Rightarrow> reader \<Rightarrow> err + bytes" where
  "reader_opf env r = arc_read (Zip env) (RdArc r) (AOpf (RdArc r))"

definition reader_cover :: "'d env \<Rightarrow> reader \<Rightarrow> err + bytes" where
  "reader_cover env r = (if RdCover r = [] then Inl (BadEpub ''no cover in epub'')
     else arc_read (Zip env) (RdArc r) (RdCover r))"

definition reader_read_at :: "reader \<Rightarrow> nat \<Rightarrow> nat \<Rightarrow> bytes" where
  "reader_read_at r count off = take count (drop off (RdBytes r))"

section \<open>The record of a book\<close>

definition usable :: "'d epub \<Rightarrow> err option" where
  "usable f = (if XTitle (EMeta f) = [] then Some NoTitle
     else if XAuthors (EMeta f) = [] then Some NoAuthors else None)"

definition parsed_series :: "epub_series option \<Rightarrow> series_ref option" where
  "parsed_series s = map_option (\<lambda>s. \<lparr>SID = 0, SName = ESName s,
     SIndex = (if valid_series_index (ESIndex s) then ESIndex s else ''1'')\<rparr>) s"

definition bib_of_epub :: "'d env \<Rightarrow> 'd epub \<Rightarrow> err + bib" where
  "bib_of_epub env f =
     (case usable f of
        Some e \<Rightarrow> Inl e
      | None \<Rightarrow> (let m = EMeta f in Inr \<lparr>
          Title = XTitle m, SortTitle = XSortTitle m,
          Authors = first_of (map (\<lambda>(n, s). \<lparr>AID = 0, AName = n, ASortName = s\<rparr>) (XAuthors m)) AName,
          Series = parsed_series (XSeries m), Language = XLanguage m, Publisher = XPublisher m,
          Rights = XRights m, Pubdate = EPubdate f, Description = XDescription m,
          Subjects = first_of (XSubjects m) (\<lambda>s. s),
          Contributors = first_of (map (\<lambda>(n, r). \<lparr>CName = n, CRole = r\<rparr>) (XContributors m)) (\<lambda>c. c),
          Identifiers = EIdentifiers f, CoverPath = ECoverPath f,
          OpfSize = arc_size (Zip env) (EArc f) (AOpf (EArc f)),
          CoverSize = (if ECoverPath f \<noteq> [] then arc_size (Zip env) (EArc f) (ECoverPath f) else 0)\<rparr>))"

definition parse_epub :: "'d env \<Rightarrow> string \<Rightarrow> (bib, 'z) io" where
  "parse_epub env p = bind_io (open_epub env p) (\<lambda>f. from_res (bib_of_epub env f))"

section \<open>Applying edits\<close>

definition series_after :: "epub_series option \<Rightarrow> edits \<Rightarrow> epub_series option" where
  "series_after cur e =
     (let s = (case cur of None \<Rightarrow> \<lparr>ESName = [], ESIndex = []\<rparr> | Some s \<Rightarrow> s);
          s = (case EdSeries e of None \<Rightarrow> s | Some n \<Rightarrow> s\<lparr>ESName := n\<rparr>);
          s = (case EdSeriesIndex e of None \<Rightarrow> s | Some i \<Rightarrow> s\<lparr>ESIndex := i\<rparr>)
      in if ESName s = [] then None else Some s)"

definition or_else :: "'a option \<Rightarrow> 'a \<Rightarrow> 'a" where
  "or_else x d = (case x of None \<Rightarrow> d | Some y \<Rightarrow> y)"

definition epub_authors :: "author list \<Rightarrow> (string \<times> string) list" where
  "epub_authors as = map (\<lambda>a. (AName a, ASortName a)) as"

definition epub_contributors :: "contributor list \<Rightarrow> (string \<times> string) list" where
  "epub_contributors cs = map (\<lambda>c. (CName c, CRole c)) cs"

definition apply_edits :: "edits \<Rightarrow> metadata \<Rightarrow> metadata" where
  "apply_edits e m =
     m\<lparr>XTitle := or_else (EdTitle e) (XTitle m),
       XSortTitle := or_else (EdSortTitle e) (if EdTitle e \<noteq> None then [] else XSortTitle m),
       XDescription := or_else (EdDescription e) (XDescription m),
       XLanguage := or_else (EdLanguage e) (XLanguage m),
       XPublisher := or_else (EdPublisher e) (XPublisher m),
       XRights := or_else (EdRights e) (XRights m),
       XAuthors := (case EdAuthors e of None \<Rightarrow> XAuthors m | Some as \<Rightarrow> epub_authors as),
       XSeries := (if EdSeries e \<noteq> None \<or> EdSeriesIndex e \<noteq> None then series_after (XSeries m) e else XSeries m),
       XSubjects := or_else (EdSubjects e) (XSubjects m),
       XContributors := (case EdContributors e of None \<Rightarrow> XContributors m | Some cs \<Rightarrow> epub_contributors cs)\<rparr>"

definition rewrite_epub :: "'d env \<Rightarrow> string \<Rightarrow> book \<Rightarrow> edits \<Rightarrow> (bib, 'z) io" where
  "rewrite_epub env p b e =
     (if \<not> has_cover_edit e \<and> \<not> has_bib_edits e then return_io (Bib b)
      else (case validate (LangOk env) e b of
          Some ve \<Rightarrow> fail_io (Rejected ve)
        | None \<Rightarrow>
            bind_io (open_epub env p) (\<lambda>f.
            bind_io (case EdCover e of
                None \<Rightarrow> return_io f
              | Some img \<Rightarrow> from_res (set_cover env img f)) (\<lambda>f.
            bind_io (if has_bib_edits e then
                (let f1 = f\<lparr>EMeta := apply_edits e (EMeta f)\<rparr> in
                 case usable f1 of Some err \<Rightarrow> fail_io err | None \<Rightarrow> return_io f1)
              else return_io f) (\<lambda>f.
            bind_io (save env f) (\<lambda>f. from_res (bib_of_epub env f)))))))"

section \<open>Laws\<close>

lemma quiet_from_res [quiet_rules]: "quiet (from_res r)"
  unfolding from_res_def by (intro quiet_rules)

lemma quiet_open_epub [quiet_rules]: "quiet (open_epub env p)"
  unfolding open_epub_def by (intro quiet_rules)

lemma quiet_reader [quiet_rules]: "quiet (open_reader env p cover)"
  unfolding open_reader_def by (intro quiet_rules)

lemma quiet_epub [quiet_rules]: "quiet (parse_epub env p)" "quiet (rewrite_epub env p b e)"
  unfolding parse_epub_def rewrite_epub_def rewrite_file_def save_def Let_def by (intro quiet_rules)+

lemma bib_of_epub_distinct:
  assumes "bib_of_epub env f = Inr bib"
  shows "distinct (map AName (Authors bib))" "distinct (Subjects bib)" "distinct (Contributors bib)"
    "Title bib \<noteq> []" "Authors bib \<noteq> []" "Identifiers bib = EIdentifiers f"
  using assms by (auto simp: bib_of_epub_def usable_def Let_def first_of_ne split: if_splits)

end
