(* ===== verification/Library.thy ===== *)
theory Library
  imports Epub_File Index_Search
begin

text \<open>
  \<^verbatim>\<open>pkg/library\<close>: the facade that keeps the store and the index agreeing. The state is the machine's
  (\<open>os\<close>) with the index database \<open>WDb\<close> and the document map \<open>WDocs\<close> the kosync hook keeps in memory; every statement or transaction sent to the database is a call
  that can fail or be where the machine stops, like every call to the file system. The locks of the
  source (\<^verbatim>\<open>bookMu\<close>, \<^verbatim>\<open>ingestMu\<close>, \<^verbatim>\<open>mutateMu\<close>) make each operation below run alone on what it touches, so an
  operation is one sequential computation. \<open>k\<close> is the operation id \<^verbatim>\<open>newOpID\<close> draws.
\<close>

record world = os +
  WDb :: db
  WDocs :: "(string \<times> int) list"

type_synonym 'a wio = "world \<Rightarrow> (err + 'a) \<times> world"

text \<open>Hooks are given by whoever builds the library (\<^verbatim>\<open>AddHook\<close>). The first two phases can fail; an event
  gets the sidecar directory and \<^verbatim>\<open>openEpub\<close>. A panic of a hook is recovered, so an event is a function of
  the world.\<close>

record hook =
  PreParse :: "string \<Rightarrow> string \<Rightarrow> string wio"
  PreCommit :: "bib \<Rightarrow> err + bib"
  OnIngested :: "book \<Rightarrow> string \<Rightarrow> reader wio \<Rightarrow> world \<Rightarrow> world"
  OnEdited :: "book \<Rightarrow> string \<Rightarrow> reader wio \<Rightarrow> world \<Rightarrow> world"
  OnDeleting :: "book \<Rightarrow> string \<Rightarrow> reader wio \<Rightarrow> world \<Rightarrow> world"
  OnDeleted :: "int \<Rightarrow> world \<Rightarrow> world"

record library =
  LRoot :: string
  InboxTemp :: string
  Hooks :: "hook list"

definition db_call :: "(db \<Rightarrow> (db_error + 'a) \<times> db) \<Rightarrow> 'a wio" where
  "db_call f = syscall (\<lambda>w. case f (WDb w) of
      (Inl e, d) \<Rightarrow> (Inl (Db e), w\<lparr>WDb := d\<rparr>)
    | (Inr x, d) \<Rightarrow> (Inr x, w\<lparr>WDb := d\<rparr>))"

definition db_read :: "(db \<Rightarrow> 'a) \<Rightarrow> 'a wio" where
  "db_read f = db_call (\<lambda>d. (Inr (f d), d))"

section \<open>Reading\<close>

definition lib_get :: "int \<Rightarrow> book wio" where
  "lib_get i = db_call (\<lambda>d. (get_book i d, d))"

definition get :: "int \<Rightarrow> book wio" where
  "get i = bind_io (attempt (lib_get i)) (\<lambda>r. case r of
      Inl e \<Rightarrow> fail_io (if e = Db NoRows then BookNotFound i else e)
    | Inr b \<Rightarrow> return_io b)"

definition lib_search :: "query \<Rightarrow> book list wio" where
  "lib_search q = db_read (search q)"

definition lib_stats :: "stats wio" where
  "lib_stats = db_read index_stats"

definition lib_authors :: "facet list wio" where
  "lib_authors = db_read list_authors"

definition lib_series :: "facet list wio" where
  "lib_series = db_read list_series"

definition lib_tags :: "facet list wio" where
  "lib_tags = db_read list_tags"

definition lib_content :: "'d env \<Rightarrow> library \<Rightarrow> int \<Rightarrow> reader wio" where
  "lib_content env l i = bind_io (get i) (\<lambda>b.
     open_reader env (abs_path (LRoot l) (EpubPath (Loc b))) (CoverPath (Bib b)))"

section \<open>Hooks\<close>

fun pre_parse :: "hook list \<Rightarrow> string \<Rightarrow> string \<Rightarrow> string wio" where
  "pre_parse [] current temp_dir = return_io current"
| "pre_parse (h # hs) current temp_dir =
     bind_io (PreParse h current temp_dir) (\<lambda>p. pre_parse hs (if p \<noteq> [] then p else current) temp_dir)"

fun pre_commit :: "hook list \<Rightarrow> bib \<Rightarrow> err + bib" where
  "pre_commit [] b = Inr b"
| "pre_commit (h # hs) b = bind_res (PreCommit h b) (pre_commit hs)"

definition dispatch_event :: "'d env \<Rightarrow> library \<Rightarrow> book \<Rightarrow> location \<Rightarrow>
    (hook \<Rightarrow> string \<Rightarrow> reader wio \<Rightarrow> world \<Rightarrow> world) \<Rightarrow> world \<Rightarrow> world" where
  "dispatch_event env l b loc call w =
     (if Hooks l = [] then w
      else (case open_sidecars (LRoot l) loc w of
          (Inl _, w1) \<Rightarrow> w1
        | (Inr dir, w1) \<Rightarrow> foldl (\<lambda>w h. call h dir (lib_content env l (MID (Meta b))) w) w1 (Hooks l)))"

definition on_ingested :: "'d env \<Rightarrow> library \<Rightarrow> book \<Rightarrow> location \<Rightarrow> world \<Rightarrow> world" where
  "on_ingested env l b loc = dispatch_event env l b loc (\<lambda>h. OnIngested h b)"

definition on_edited :: "'d env \<Rightarrow> library \<Rightarrow> book \<Rightarrow> location \<Rightarrow> world \<Rightarrow> world" where
  "on_edited env l b loc = dispatch_event env l b loc (\<lambda>h. OnEdited h b)"

definition on_deleting :: "'d env \<Rightarrow> library \<Rightarrow> book \<Rightarrow> location \<Rightarrow> world \<Rightarrow> world" where
  "on_deleting env l b loc = dispatch_event env l b loc (\<lambda>h. OnDeleting h b)"

definition on_deleted :: "library \<Rightarrow> int \<Rightarrow> world \<Rightarrow> world" where
  "on_deleted l i w = foldl (\<lambda>w h. OnDeleted h i w) w (Hooks l)"

definition event :: "(world \<Rightarrow> world) \<Rightarrow> unit wio" where
  "event f w = (Inr (), f w)"

section \<open>Editing\<close>

definition apply_meta :: "time \<Rightarrow> meta \<Rightarrow> edits \<Rightarrow> meta" where
  "apply_meta t m e = m\<lparr>Status := or_else (EdStatus e) (Status m), Rating := or_else (EdRating e) (Rating m),
     Tags := or_else (EdTags e) (Tags m), DateModified := t\<rparr>"

definition book_from_bib :: "time \<Rightarrow> bib \<Rightarrow> meta \<Rightarrow> location \<Rightarrow> path_info \<Rightarrow> book" where
  "book_from_bib t b m loc obs = (new_book t b m loc)\<lparr>EpubSize := PSize obs\<rparr>"

definition mark :: "string \<Rightarrow> op wio" where
  "mark k = db_call (mark_pending k begin_op)"

definition cancel_op :: "op \<Rightarrow> unit wio" where
  "cancel_op op = bind_io (attempt (db_call (\<lambda>d. (Inr (), snd (cancel op d))))) (\<lambda>_. return_io ())"

definition edit_marked :: "'d env \<Rightarrow> library \<Rightarrow> op \<Rightarrow> book \<Rightarrow> edits \<Rightarrow> book wio" where
  "edit_marked env l op b e =
     bind_io now_io (\<lambda>t.
     let m = apply_meta t (Meta b) e in
     bind_io (attempt (rewrite_epub env (abs_path (LRoot l) (EpubPath (Loc b))) b e)) (\<lambda>r. case r of
         Inl err \<Rightarrow> bind_io (cancel_op op) (\<lambda>_. fail_io err)
       | Inr bib \<Rightarrow>
           (let loc = layout (Authors bib) (Title bib) (MID m) in
            bind_io (store_update (TomlMarshal env) (LRoot l) (Loc b) loc m) (\<lambda>mt.
            bind_io now_io (\<lambda>t.
            let updated = book_from_bib t bib m loc mt in
            bind_io (db_call (op_put op updated mt)) (\<lambda>_.
            bind_io (event (on_edited env l updated loc)) (\<lambda>_.
            return_io updated)))))))"

definition edit :: "'d env \<Rightarrow> library \<Rightarrow> string \<Rightarrow> int \<Rightarrow> edits \<Rightarrow> book wio" where
  "edit env l k i e0 =
     bind_io (get i) (\<lambda>b.
     let e = normalized e0 in
     case validate (LangOk env) e b of
       Some ve \<Rightarrow> fail_io (Rejected ve)
     | None \<Rightarrow> bind_io (mark k) (\<lambda>op. edit_marked env l op b e))"

section \<open>Deleting\<close>

definition delete_marked :: "library \<Rightarrow> op \<Rightarrow> book \<Rightarrow> int \<Rightarrow> unit wio" where
  "delete_marked l op b i =
     bind_io (store_delete (LRoot l) (Loc b)) (\<lambda>_.
     bind_io (db_call (op_delete op i)) (\<lambda>_.
     event (on_deleted l i)))"

definition delete :: "'d env \<Rightarrow> library \<Rightarrow> string \<Rightarrow> int \<Rightarrow> unit wio" where
  "delete env l k i =
     bind_io (get i) (\<lambda>b.
     bind_io (event (on_deleting env l b (Loc b))) (\<lambda>_.
     bind_io (mark k) (\<lambda>op. delete_marked l op b i)))"

section \<open>Sidecars\<close>

definition with_sidecars :: "library \<Rightarrow> int \<Rightarrow> (string \<Rightarrow> 'a wio) \<Rightarrow> 'a wio" where
  "with_sidecars l i fn = bind_io (get i) (\<lambda>b. bind_io (open_sidecars (LRoot l) (Loc b)) fn)"

text \<open>\<^verbatim>\<open>os.Root\<close> refuses a name that leaves its directory.\<close>

definition root_name :: "string \<Rightarrow> string \<Rightarrow> (string, 'z) io" where
  "root_name dir n =
     (if n = [] \<or> hd n = slash \<or> (comps n \<noteq> [] \<and> hd (comps n) = ''..'') then fail_io Einval
      else return_io (join_path [dir, n]))"

definition read_sidecar :: "library \<Rightarrow> int \<Rightarrow> string \<Rightarrow> bytes wio" where
  "read_sidecar l i name = with_sidecars l i (\<lambda>dir. bind_io (root_name dir name) os_read_file)"

text \<open>Writing a file by name creates it when it is not there.\<close>

definition os_write_file :: "string \<Rightarrow> bytes \<Rightarrow> (unit, 'z) io" where
  "os_write_file s b = syscall (\<lambda>w. case node_at (comps s) (FS w) of
      Some Dir \<Rightarrow> (Inl Eisdir, w)
    | _ \<Rightarrow> (case node_at (butlast (comps s)) (FS w) of
          Some Dir \<Rightarrow> (Inr (), w\<lparr>FS := put_node (comps s) (File b (Clock w)) (FS w), Clock := Clock w + 1\<rparr>)
        | Some (File _ _) \<Rightarrow> (Inl Enotdir, w)
        | None \<Rightarrow> (Inl (missing (comps s) (FS w)), w)))"

definition write_sidecar :: "library \<Rightarrow> int \<Rightarrow> string \<Rightarrow> bytes \<Rightarrow> unit wio" where
  "write_sidecar l i name dat = with_sidecars l i (\<lambda>dir.
     bind_io (root_name dir (CHR ''.'' # name @ ''.tmp'')) (\<lambda>tmp.
     bind_io (os_write_file tmp dat) (\<lambda>_.
     bind_io (root_name dir name) (\<lambda>dst. os_rename tmp dst))))"

section \<open>Ingesting\<close>

definition author_names :: "author list \<Rightarrow> string list" where
  "author_names as = remdups_adj (sort (map AName as))"

definition ingest_marked :: "'d env \<Rightarrow> library \<Rightarrow> op \<Rightarrow> string \<Rightarrow> bib \<Rightarrow> meta \<Rightarrow> location \<Rightarrow> book wio" where
  "ingest_marked env l op p bib m loc =
     bind_io (attempt
       (bind_io (store_ingest (TomlMarshal env) (LRoot l) p loc m) (\<lambda>mt.
        bind_io now_io (\<lambda>t.
        let b = book_from_bib t bib m loc mt in
        bind_io (db_call (op_put op b mt)) (\<lambda>_. return_io b))))) (\<lambda>r. case r of
         Inl err \<Rightarrow>
           bind_io (attempt (store_delete (LRoot l) loc)) (\<lambda>rm. case rm of
               Inr _ \<Rightarrow> bind_io (cancel_op op) (\<lambda>_. fail_io err)
             | Inl _ \<Rightarrow> fail_io err)
       | Inr b \<Rightarrow> bind_io (event (on_ingested env l b loc)) (\<lambda>_. return_io b))"

definition ingest_bib :: "'d env \<Rightarrow> library \<Rightarrow> string \<Rightarrow> string \<Rightarrow> bib \<Rightarrow> book wio" where
  "ingest_bib env l k p bib =
     bind_io (db_read (exists_book (Title bib) (author_names (Authors bib)))) (\<lambda>dupe.
     if dupe then fail_io (DuplicateBook (Title bib))
     else bind_io (path_taken (LRoot l) (Authors bib) (Title bib)) (\<lambda>taken.
       if taken then fail_io (DuplicateOnDisk (Title bib))
       else bind_io (db_call (\<lambda>d. (Inr (fst (next_book_id d)), snd (next_book_id d)))) (\<lambda>i.
         bind_io now_io (\<lambda>t.
         let m = \<lparr>MID = i, DateAdded = t, DateModified = t, Status = [], Rating = Fin 0, Tags = []\<rparr>;
             loc = layout (Authors bib) (Title bib) i
         in bind_io (mark k) (\<lambda>op. ingest_marked env l op p bib m loc)))))"

definition ingest_path :: "'d env \<Rightarrow> library \<Rightarrow> string \<Rightarrow> string \<Rightarrow> book wio" where
  "ingest_path env l k epub_path =
     bind_io (os_mkdir_temp (InboxTemp l) ''hooks-'') (\<lambda>hook_dir.
     finally_io
       (bind_io (pre_parse (Hooks l) epub_path hook_dir) (\<lambda>p.
        bind_io (parse_epub env p) (\<lambda>bib.
        bind_io (from_res (pre_commit (Hooks l) bib)) (\<lambda>bib.
        ingest_bib env l k p bib))))
       (os_remove_all hook_dir))"

definition create_ingest :: "library \<Rightarrow> string wio" where
  "create_ingest l = os_create_temp (InboxTemp l) [] ''.epub''"

definition ingest :: "'d env \<Rightarrow> library \<Rightarrow> string \<Rightarrow> string \<Rightarrow> book wio" where
  "ingest env l k p = bind_io (attempt (ingest_path env l k p)) (\<lambda>r.
     bind_io (attempt (os_remove p)) (\<lambda>_. from_res r))"

end
