(* ===== verification/Kosync.thy ===== *)
theory Kosync
  imports Library
begin

text \<open>
  \<^verbatim>\<open>internal/kosync\<close>: reading positions kept for KOReader devices. A book is known to a device by a hash of
  samples of its epub (\<open>partial_md5\<close>); the hash and the position are in the book's sidecar \<^verbatim>\<open>kosync.json\<close>,
  and a map from hashes to ids (\<open>WDocs\<close>, saved as \<^verbatim>\<open>mapping.json\<close>) is derived from the sidecars. A hook of
  the library keeps both up to date, and the handlers answer a device. JSON and MD5 are the parameters of
  \<open>kcodec\<close>; a response is its status and what its body encodes; logging is left out.
\<close>

section \<open>Data\<close>

record progress =
  PgPercentage :: float64
  PgProgress :: string
  PgDevice :: string
  PgDeviceID :: string
  PgTimestamp :: int

record sidecar_data =
  DocumentIDs :: "string list"
  SdProgress :: progress

text \<open>The body of a \<^verbatim>\<open>PUT\<close>, where a pointer that is not set is \<open>None\<close>.\<close>

record put_request =
  PqDocument :: string
  PqPercentage :: "float64 option"
  PqProgress :: "string option"
  PqDevice :: "string option"
  PqDeviceID :: string

text \<open>\<open>JDecode\<close> reads the first value of a stream, \<open>JUnmarshal\<close> a whole document, \<open>JIds\<close> only the ids of one.\<close>

record kcodec =
  JMarshal :: "sidecar_data \<Rightarrow> err + bytes"
  JDecode :: "bytes \<Rightarrow> sidecar_data option"
  JUnmarshal :: "bytes \<Rightarrow> sidecar_data option"
  JIds :: "bytes \<Rightarrow> string list option"
  JMapping :: "(string \<times> int) list \<Rightarrow> bytes"
  JUnMapping :: "bytes \<Rightarrow> (string \<times> int) list option"
  JPut :: "bytes \<Rightarrow> put_request option"
  Md5Hex :: "bytes \<Rightarrow> string"

record config =
  MappingPath :: string
  Username :: string
  PasswordHash :: string
  ReadingThreshold :: float64
  ReadThreshold :: float64

definition no_progress :: progress where
  "no_progress = \<lparr>PgPercentage = Fin 0, PgProgress = [], PgDevice = [], PgDeviceID = [], PgTimestamp = 0\<rparr>"

definition unix_seconds :: "time \<Rightarrow> int" where
  "unix_seconds t = (t - unix_epoch) div 1000000000"

section \<open>The document id\<close>

definition sample_size :: int where "sample_size = 1024"

definition sample_offsets :: "int list" where
  "sample_offsets = 0 # map (\<lambda>i. 1024 * 2 ^ (2 * i)) [0..<11]"

fun partial_samples :: "reader \<Rightarrow> int \<Rightarrow> int list \<Rightarrow> bytes \<Rightarrow> err + bytes" where
  "partial_samples r sz [] acc = Inr acc"
| "partial_samples r sz (off # offs) acc =
     (if off \<ge> sz then Inr acc
      else let remaining = sz - off;
               to_read = (if remaining < sample_size then remaining else sample_size);
               buf = reader_read_at r (nat to_read) (nat off)
        in if length buf \<noteq> nat to_read then Inl ShortRead else partial_samples r sz offs (acc @ buf))"

definition partial_md5 :: "kcodec \<Rightarrow> reader \<Rightarrow> int \<Rightarrow> err + string" where
  "partial_md5 c r sz = bind_res (partial_samples r sz sample_offsets []) (\<lambda>b. Inr (Md5Hex c b))"

section \<open>The sidecar\<close>

definition kosync_name :: string where "kosync_name = ''kosync.json''"

definition read_sidecar_data :: "kcodec \<Rightarrow> string \<Rightarrow> (sidecar_data, 'z) io" where
  "read_sidecar_data c dir = bind_io (attempt (os_read_file (join_path [dir, kosync_name]))) (\<lambda>r. case r of
      Inl e \<Rightarrow> if e = Enoent then return_io \<lparr>DocumentIDs = [], SdProgress = no_progress\<rparr> else fail_io e
    | Inr b \<Rightarrow> (case JDecode c b of None \<Rightarrow> fail_io BadJson | Some d \<Rightarrow> return_io d))"

definition write_sidecar_data :: "kcodec \<Rightarrow> string \<Rightarrow> sidecar_data \<Rightarrow> (unit, 'z) io" where
  "write_sidecar_data c dir dat = bind_io (from_res (JMarshal c dat)) (\<lambda>raw.
     let tmp = join_path [dir, CHR ''.'' # kosync_name @ ''.tmp''] in
     bind_io (os_write_file tmp raw) (\<lambda>_. os_rename tmp (join_path [dir, kosync_name])))"

section \<open>The mapping\<close>

definition mapping_file :: "string \<Rightarrow> string" where
  "mapping_file dir = join_path [dir, ''mapping.json'']"

definition set_docs :: "((string \<times> int) list \<Rightarrow> (string \<times> int) list) \<Rightarrow> unit wio" where
  "set_docs f w = (Inr (), w\<lparr>WDocs := f (WDocs w)\<rparr>)"

definition put_doc :: "string \<Rightarrow> int \<Rightarrow> (string \<times> int) list \<Rightarrow> (string \<times> int) list" where
  "put_doc k i m = (k, i) # filter (\<lambda>x. fst x \<noteq> k) m"

definition drop_doc :: "string \<Rightarrow> (string \<times> int) list \<Rightarrow> (string \<times> int) list" where
  "drop_doc k m = filter (\<lambda>x. fst x \<noteq> k) m"

definition mapping_save :: "kcodec \<Rightarrow> string \<Rightarrow> unit wio" where
  "mapping_save c dir w =
     (let path = mapping_file dir; tmp = path @ ''.tmp'' in
      bind_io (os_write_file tmp []) (\<lambda>_.
      bind_io (attempt (bind_io (os_write tmp (JMapping c (WDocs w))) (\<lambda>_. os_rename tmp path))) (\<lambda>r. case r of
          Inl e \<Rightarrow> bind_io (attempt (os_remove tmp)) (\<lambda>_. fail_io e)
        | Inr _ \<Rightarrow> return_io ())) w)"

definition mapping_get :: "string \<Rightarrow> int option wio" where
  "mapping_get k w = (Inr (map_of (WDocs w) k), w)"

definition mapping_set :: "kcodec \<Rightarrow> string \<Rightarrow> string \<Rightarrow> int \<Rightarrow> unit wio" where
  "mapping_set c dir k i = bind_io (set_docs (put_doc k i)) (\<lambda>_.
     bind_io (attempt (mapping_save c dir)) (\<lambda>_. return_io ()))"

definition mapping_delete :: "kcodec \<Rightarrow> string \<Rightarrow> string \<Rightarrow> unit wio" where
  "mapping_delete c dir k = bind_io (set_docs (drop_doc k)) (\<lambda>_.
     bind_io (attempt (mapping_save c dir)) (\<lambda>_. return_io ()))"

definition new_empty_mapping :: "string \<Rightarrow> unit wio" where
  "new_empty_mapping dir = bind_io (attempt (os_mkdir_all dir)) (\<lambda>_. set_docs (\<lambda>_. []))"

definition load_mapping :: "kcodec \<Rightarrow> string \<Rightarrow> unit wio" where
  "load_mapping c dir = bind_io (os_mkdir_all dir) (\<lambda>_.
     bind_io (attempt (os_read_file (mapping_file dir))) (\<lambda>r. case r of
         Inl e \<Rightarrow> if e = Enoent then set_docs (\<lambda>_. []) else fail_io e
       | Inr b \<Rightarrow> (case JUnMapping c b of None \<Rightarrow> fail_io BadJson | Some m \<Rightarrow> set_docs (\<lambda>_. m))))"

definition mapping_is_empty :: "bool wio" where
  "mapping_is_empty w = (Inr (WDocs w = []), w)"

definition create_sidecar_for_book :: "kcodec \<Rightarrow> 'd env \<Rightarrow> library \<Rightarrow> book \<Rightarrow> (string \<times> int) list \<Rightarrow>
    (string \<times> int) list wio" where
  "create_sidecar_for_book c env l b m =
     bind_io (lib_content env l (MID (Meta b))) (\<lambda>r.
     bind_io (from_res (partial_md5 c r (EpubSize b))) (\<lambda>k.
     bind_io (from_res (JMarshal c \<lparr>DocumentIDs = [k], SdProgress = no_progress\<rparr>)) (\<lambda>raw.
     bind_io (write_sidecar l (MID (Meta b)) kosync_name raw) (\<lambda>_.
     return_io (put_doc k (MID (Meta b)) m)))))"

definition rebuild_book :: "kcodec \<Rightarrow> 'd env \<Rightarrow> library \<Rightarrow> book \<Rightarrow> (string \<times> int) list \<Rightarrow> (string \<times> int) list wio" where
  "rebuild_book c env l b m =
     bind_io (attempt (read_sidecar l (MID (Meta b)) kosync_name)) (\<lambda>r. case r of
         Inl e \<Rightarrow>
           if e = Enoent then bind_io (attempt (create_sidecar_for_book c env l b m)) (\<lambda>r. case r of
               Inl _ \<Rightarrow> return_io m
             | Inr m' \<Rightarrow> return_io m')
           else return_io m
       | Inr raw \<Rightarrow> (case JIds c raw of
             None \<Rightarrow> return_io m
           | Some ids \<Rightarrow> return_io (fold (\<lambda>k m. if k \<noteq> [] then put_doc k (MID (Meta b)) m else m) ids m)))"

fun rebuild_books :: "kcodec \<Rightarrow> 'd env \<Rightarrow> library \<Rightarrow> book list \<Rightarrow> (string \<times> int) list \<Rightarrow> (string \<times> int) list wio" where
  "rebuild_books c env l [] m = return_io m"
| "rebuild_books c env l (b # bs) m = bind_io (rebuild_book c env l b m) (rebuild_books c env l bs)"

definition mapping_rebuild :: "kcodec \<Rightarrow> 'd env \<Rightarrow> library \<Rightarrow> string \<Rightarrow> unit wio" where
  "mapping_rebuild c env l dir =
     bind_io (lib_search empty_query) (\<lambda>bs.
     bind_io (rebuild_books c env l bs []) (\<lambda>m.
     bind_io (set_docs (\<lambda>_. m)) (\<lambda>_. mapping_save c dir)))"

section \<open>The hook\<close>

definition compute_document_id :: "kcodec \<Rightarrow> book \<Rightarrow> reader wio \<Rightarrow> string wio" where
  "compute_document_id c b get_epub = bind_io get_epub (\<lambda>r. from_res (partial_md5 c r (EpubSize b)))"

definition hook_ingested :: "kcodec \<Rightarrow> string \<Rightarrow> book \<Rightarrow> string \<Rightarrow> reader wio \<Rightarrow> unit wio" where
  "hook_ingested c dir b sidecars get_epub =
     bind_io (compute_document_id c b get_epub) (\<lambda>k.
     bind_io (write_sidecar_data c sidecars \<lparr>DocumentIDs = [k], SdProgress = no_progress\<rparr>) (\<lambda>_.
     mapping_set c dir k (MID (Meta b))))"

definition hook_edited :: "kcodec \<Rightarrow> string \<Rightarrow> book \<Rightarrow> string \<Rightarrow> reader wio \<Rightarrow> unit wio" where
  "hook_edited c dir b sidecars get_epub =
     bind_io (compute_document_id c b get_epub) (\<lambda>k.
     bind_io (read_sidecar_data c sidecars) (\<lambda>dat.
     if DocumentIDs dat \<noteq> [] \<and> hd (DocumentIDs dat) = k then return_io ()
     else bind_io (write_sidecar_data c sidecars (dat\<lparr>DocumentIDs := k # DocumentIDs dat\<rparr>)) (\<lambda>_.
          mapping_set c dir k (MID (Meta b)))))"

fun mapping_delete_all :: "kcodec \<Rightarrow> string \<Rightarrow> string list \<Rightarrow> unit wio" where
  "mapping_delete_all c dir [] = return_io ()"
| "mapping_delete_all c dir (k # ks) = bind_io (mapping_delete c dir k) (\<lambda>_. mapping_delete_all c dir ks)"

definition hook_deleting :: "kcodec \<Rightarrow> string \<Rightarrow> book \<Rightarrow> string \<Rightarrow> reader wio \<Rightarrow> unit wio" where
  "hook_deleting c dir b sidecars get_epub =
     bind_io (read_sidecar_data c sidecars) (\<lambda>dat. mapping_delete_all c dir (DocumentIDs dat))"

text \<open>The hook logs an error and goes on, so what is left of an event is the world after it.\<close>

definition kosync_hook :: "kcodec \<Rightarrow> string \<Rightarrow> hook" where
  "kosync_hook c dir = \<lparr>PreParse = \<lambda>_ _. return_io [], PreCommit = Inr,
     OnIngested = \<lambda>b s r w. snd (hook_ingested c dir b s r w),
     OnEdited = \<lambda>b s r w. snd (hook_edited c dir b s r w),
     OnDeleting = \<lambda>b s r w. snd (hook_deleting c dir b s r w),
     OnDeleted = \<lambda>_ w. w\<rparr>"

text \<open>\<^verbatim>\<open>New\<close>: the map is loaded, or rebuilt when it is empty or cannot be, and the hook is added.\<close>

definition new_kosync :: "kcodec \<Rightarrow> 'd env \<Rightarrow> library \<Rightarrow> config \<Rightarrow> library wio" where
  "new_kosync c env l cfg =
     bind_io (attempt (load_mapping c (MappingPath cfg))) (\<lambda>r.
     bind_io (case r of Inl _ \<Rightarrow> new_empty_mapping (MappingPath cfg) | Inr _ \<Rightarrow> return_io ()) (\<lambda>_.
     bind_io mapping_is_empty (\<lambda>empty.
     bind_io (if empty then mapping_rebuild c env l (MappingPath cfg) else return_io ()) (\<lambda>_.
     return_io (l\<lparr>Hooks := Hooks l @ [kosync_hook c (MappingPath cfg)]\<rparr>)))))"

section \<open>Requests and responses\<close>

text \<open>A request after \<^verbatim>\<open>net/http\<close> has read it: \<open>RqPath\<close> are the decoded segments of its path below the prefix,
  and a header that is absent is empty.\<close>

record request =
  RqMethod :: string
  RqPath :: "string list"
  RqAccept :: string
  RqUser :: string
  RqKey :: string
  RqBody :: bytes

datatype reply =
    ErrorReply nat string
  | StateReply
  | AuthorizedReply
  | EmptyReply
  | ProgressReply string progress
  | StoredReply string int
  | MuxReply

record response =
  RsStatus :: nat
  RsReply :: reply

definition reply_error :: "nat \<Rightarrow> nat \<Rightarrow> string \<Rightarrow> response" where
  "reply_error status code message = \<lparr>RsStatus = status, RsReply = ErrorReply code message\<rparr>"

definition reply_ok :: "reply \<Rightarrow> response" where
  "reply_ok r = \<lparr>RsStatus = 200, RsReply = r\<rparr>"

definition code_accept_not_set :: nat where "code_accept_not_set = 100"
definition code_accept_invalid :: nat where "code_accept_invalid = 101"
definition code_accept_version_unsup :: nat where "code_accept_version_unsup = 102"
definition code_json_parse_error :: nat where "code_json_parse_error = 103"
definition code_unknown_server :: nat where "code_unknown_server = 2000"
definition code_unauthorized :: nat where "code_unauthorized = 2001"
definition code_invalid_request :: nat where "code_invalid_request = 2003"
definition code_document_missing :: nat where "code_document_missing = 2004"
definition code_registration_off :: nat where "code_registration_off = 2005"

definition server_error :: response where
  "server_error = reply_error 502 code_unknown_server ''Unknown server error.''"

definition unauthorized :: response where
  "unauthorized = reply_error 401 code_unauthorized ''Unauthorized''"

section \<open>The Accept header\<close>

text \<open>The version in \<^verbatim>\<open>^application/vnd\.koreader\.v(\d+).*json$\<close>; a dot does not match a newline.\<close>

definition accept_version :: "string \<Rightarrow> string option" where
  "accept_version s =
     (let p = ''application/vnd.koreader.v'' in
      if take (length p) s \<noteq> p then None
      else let r = drop (length p) s; v = takeWhile is_digit r; t = dropWhile is_digit r in
        if v \<noteq> [] \<and> suffix ''json'' t \<and> CHR 0x0A \<notin> set t then Some v else None)"

definition check_accept :: "request \<Rightarrow> response option" where
  "check_accept rq =
     (if RqAccept rq = [] then Some (reply_error 412 code_accept_not_set ''Accept header not set.'')
      else (case accept_version (RqAccept rq) of
          None \<Rightarrow> Some (reply_error 412 code_accept_invalid ''Invalid Accept header format.'')
        | Some v \<Rightarrow>
            if v \<noteq> ''1'' then Some (reply_error 412 code_accept_version_unsup
              ''Unsupported version specified in the Accept header.'')
            else None))"

section \<open>Handlers\<close>

definition authenticate :: "config \<Rightarrow> request \<Rightarrow> bool" where
  "authenticate cfg rq \<longleftrightarrow> RqUser rq = Username cfg \<and> RqKey rq = PasswordHash cfg"

definition validate_document_id :: "string \<Rightarrow> response option" where
  "validate_document_id k =
     (if k = [] \<or> CHR '':'' \<in> set k
      then Some (reply_error 403 code_document_missing (''Field '' @ [CHR 0x27] @ ''document'' @ [CHR 0x27] @ '' not provided.''))
      else None)"

definition healthcheck :: response where
  "healthcheck = reply_ok StateReply"

definition auth :: "config \<Rightarrow> request \<Rightarrow> response" where
  "auth cfg rq = (if \<not> authenticate cfg rq then unauthorized else reply_ok AuthorizedReply)"

definition users_create :: response where
  "users_create = reply_error 402 code_registration_off ''User registration is disabled.''"

definition get_progress :: "kcodec \<Rightarrow> library \<Rightarrow> config \<Rightarrow> request \<Rightarrow> string \<Rightarrow> response wio" where
  "get_progress c l cfg rq k =
     (if \<not> authenticate cfg rq then return_io unauthorized
      else (case validate_document_id k of
          Some e \<Rightarrow> return_io e
        | None \<Rightarrow> bind_io (mapping_get k) (\<lambda>i. case i of
              None \<Rightarrow> return_io (reply_ok EmptyReply)
            | Some i \<Rightarrow> bind_io (attempt (read_sidecar l i kosync_name)) (\<lambda>r. case r of
                  Inl e \<Rightarrow> return_io (if e = Enoent then reply_ok EmptyReply else server_error)
                | Inr raw \<Rightarrow> (case JUnmarshal c raw of
                      None \<Rightarrow> return_io server_error
                    | Some dat \<Rightarrow> return_io (reply_ok (ProgressReply k (SdProgress dat))))))))"

text \<open>\<open>float_le a b\<close> is \<^verbatim>\<open>b >= a\<close>.\<close>

fun float_le :: "float64 \<Rightarrow> float64 \<Rightarrow> bool" where
  "float_le NaN _ = False"
| "float_le _ NaN = False"
| "float_le NegInf _ = True"
| "float_le _ PosInf = True"
| "float_le (Fin a) (Fin b) = (a \<le> b)"
| "float_le _ _ = False"

definition target_status :: "config \<Rightarrow> float64 \<Rightarrow> string" where
  "target_status cfg percentage =
     (if float_le (ReadThreshold cfg) percentage then status_read
      else if float_le (ReadingThreshold cfg) percentage then status_reading
      else status_unread)"

definition update_book_status :: "'d env \<Rightarrow> library \<Rightarrow> config \<Rightarrow> string \<Rightarrow> int \<Rightarrow> float64 \<Rightarrow> unit wio" where
  "update_book_status env l cfg k i percentage =
     bind_io (get i) (\<lambda>b.
     let target = target_status cfg percentage; cur = Status (Meta b) in
     if target = status_unread \<and> cur \<noteq> status_unread then return_io ()
     else if cur = status_read \<and> target \<noteq> status_read then return_io ()
     else if cur = target then return_io ()
     else bind_io (edit env l k i (no_edits\<lparr>EdStatus := Some target\<rparr>)) (\<lambda>_. return_io ()))"

definition store_progress :: "kcodec \<Rightarrow> library \<Rightarrow> int \<Rightarrow> float64 \<Rightarrow> string \<Rightarrow> string \<Rightarrow> string \<Rightarrow> int wio" where
  "store_progress c l i percentage pos device device_id =
     with_sidecars l i (\<lambda>dir.
       bind_io (read_sidecar_data c dir) (\<lambda>dat.
       bind_io now_io (\<lambda>t.
       let ts = unix_seconds t in
       bind_io (write_sidecar_data c dir (dat\<lparr>SdProgress := \<lparr>PgPercentage = percentage, PgProgress = pos,
           PgDevice = device, PgDeviceID = device_id, PgTimestamp = ts\<rparr>\<rparr>)) (\<lambda>_. return_io ts))))"

definition put_progress :: "kcodec \<Rightarrow> 'd env \<Rightarrow> library \<Rightarrow> config \<Rightarrow> string \<Rightarrow> request \<Rightarrow> response wio" where
  "put_progress c env l cfg k rq =
     (if \<not> authenticate cfg rq then return_io unauthorized
      else (case JPut c (RqBody rq) of
          None \<Rightarrow> return_io (reply_error 400 code_json_parse_error ''Could not parse JSON in body.'')
        | Some q \<Rightarrow>
            (case validate_document_id (PqDocument q) of
               Some e \<Rightarrow> return_io e
             | None \<Rightarrow>
                 (case (PqPercentage q, PqProgress q, PqDevice q) of
                    (Some percentage, Some pos, Some device) \<Rightarrow>
                      bind_io (mapping_get (PqDocument q)) (\<lambda>i. case i of
                          None \<Rightarrow> bind_io now_io (\<lambda>t. return_io (reply_ok (StoredReply (PqDocument q) (unix_seconds t))))
                        | Some i \<Rightarrow>
                            bind_io (attempt (store_progress c l i percentage pos device (PqDeviceID q))) (\<lambda>r. case r of
                                Inl _ \<Rightarrow> return_io server_error
                              | Inr ts \<Rightarrow>
                                  bind_io (attempt (update_book_status env l cfg k i percentage)) (\<lambda>_.
                                  return_io (reply_ok (StoredReply (PqDocument q) ts)))))
                  | _ \<Rightarrow> return_io (reply_error 403 code_invalid_request ''Invalid request'')))))"

text \<open>\<^verbatim>\<open>registerRoutes\<close>: a pattern for \<^verbatim>\<open>GET\<close> matches \<^verbatim>\<open>HEAD\<close> too, and a path that matches under another method
  gets status 405.\<close>

definition mux_status :: "nat \<Rightarrow> response" where
  "mux_status n = \<lparr>RsStatus = n, RsReply = MuxReply\<rparr>"

definition is_get :: "string \<Rightarrow> bool" where
  "is_get m \<longleftrightarrow> m = ''GET'' \<or> m = ''HEAD''"

definition handle :: "kcodec \<Rightarrow> 'd env \<Rightarrow> library \<Rightarrow> config \<Rightarrow> string \<Rightarrow> request \<Rightarrow> response wio" where
  "handle c env l cfg k rq =
     (if RqPath rq = [''healthcheck''] then
        return_io (if is_get (RqMethod rq) then healthcheck else mux_status 405)
      else if RqPath rq = [''users'', ''auth''] then
        return_io (if is_get (RqMethod rq) then auth cfg rq else mux_status 405)
      else if RqPath rq = [''users'', ''create''] then
        return_io (if RqMethod rq = ''POST'' then users_create else mux_status 405)
      else if RqPath rq = [''syncs'', ''progress''] then
        (if RqMethod rq = ''PUT'' then put_progress c env l cfg k rq else return_io (mux_status 405))
      else (case RqPath rq of
          [a, b, doc] \<Rightarrow>
            if a = ''syncs'' \<and> b = ''progress'' \<and> doc \<noteq> [] then
              (if is_get (RqMethod rq) then get_progress c l cfg rq doc else return_io (mux_status 405))
            else return_io (mux_status 404)
        | _ \<Rightarrow> return_io (mux_status 404)))"

definition serve :: "kcodec \<Rightarrow> 'd env \<Rightarrow> library \<Rightarrow> config \<Rightarrow> string \<Rightarrow> request \<Rightarrow> response wio" where
  "serve c env l cfg k rq = (case check_accept rq of
      Some e \<Rightarrow> return_io e
    | None \<Rightarrow> handle c env l cfg k rq)"

end
