(* ===== verification/Reindex.thy ===== *)
theory Reindex
  imports Library
begin

text \<open>
  \<^verbatim>\<open>pkg/library/reindex.go\<close> and \<^verbatim>\<open>open.go\<close>: rebuilding the index from the store, and deciding at start
  whether that is needed. The scan reads each walked directory in its own goroutine; what it found is
  recorded under a mutex, so a run is some order of the entries, and \<open>scan_entries\<close> takes the entries in
  the order they were recorded.
\<close>

section \<open>Scanning\<close>

record scan_state =
  SIndexed :: "book_path list"
  SUnindexed :: "(string \<times> path_info) list"
  SMaxID :: int

definition empty_scan :: scan_state where
  "empty_scan = \<lparr>SIndexed = [], SUnindexed = [], SMaxID = 0\<rparr>"

definition scan_add :: "book_path \<Rightarrow> scan_state \<Rightarrow> scan_state" where
  "scan_add bp s = s\<lparr>SIndexed := SIndexed s @ [bp]\<rparr>"

definition scan_skip :: "string \<Rightarrow> path_info \<Rightarrow> scan_state \<Rightarrow> scan_state" where
  "scan_skip p obs s = s\<lparr>SUnindexed := filter (\<lambda>x. fst x \<noteq> p) (SUnindexed s) @ [(p, obs)]\<rparr>"

definition reserve_id :: "int \<Rightarrow> scan_state \<Rightarrow> scan_state" where
  "reserve_id i s = (if i > SMaxID s then s\<lparr>SMaxID := i\<rparr> else s)"

record store_scan =
  ScanEntries :: "location list"
  ScanInfo :: "(string \<times> path_info) list"

definition path_info_of :: "library \<Rightarrow> (string \<times> path_info) list \<Rightarrow> location \<Rightarrow> path_info wio" where
  "path_info_of l known loc =
     (case map_of known (EpubPath loc) of
        Some obs \<Rightarrow> if \<not> is_unobserved obs then return_io obs else store_stat (LRoot l) loc
      | None \<Rightarrow> store_stat (LRoot l) loc)"

text \<open>What one directory turns out to be, and how it is recorded.\<close>

datatype finding =
    Unreadable path_info
  | Skipped int path_info
  | Indexed book path_info

definition scan_find :: "'d env \<Rightarrow> library \<Rightarrow> (string \<times> path_info) list \<Rightarrow> location \<Rightarrow> finding wio" where
  "scan_find env l known e =
     bind_io (attempt (path_info_of l known e)) (\<lambda>stat.
     let obs = (case stat of Inl _ \<Rightarrow> unobserved | Inr obs \<Rightarrow> obs) in
     bind_io (attempt (read_meta (TomlUnmarshal env) (LRoot l) e)) (\<lambda>r. case r of
         Inl _ \<Rightarrow> return_io (Unreadable obs)
       | Inr m \<Rightarrow>
           (case stat of
              Inl _ \<Rightarrow> return_io (Skipped (MID m) obs)
            | Inr _ \<Rightarrow>
                bind_io (attempt (parse_epub env (abs_path (LRoot l) (EpubPath e)))) (\<lambda>r. case r of
                    Inl _ \<Rightarrow> return_io (Skipped (MID m) obs)
                  | Inr bib \<Rightarrow> bind_io now_io (\<lambda>t. return_io (Indexed (book_from_bib t bib m e obs) obs))))))"

definition record_finding :: "location \<Rightarrow> finding \<Rightarrow> scan_state \<Rightarrow> scan_state" where
  "record_finding e f s = (case f of
      Unreadable obs \<Rightarrow>
        scan_skip (EpubPath e) obs
          (case id_from_path (loc_dir e) of Some i \<Rightarrow> reserve_id i s | None \<Rightarrow> s)
    | Skipped i obs \<Rightarrow> scan_skip (EpubPath e) obs (reserve_id i s)
    | Indexed b obs \<Rightarrow> scan_add (b, obs) (reserve_id (MID (Meta b)) s))"

definition scan_entry :: "'d env \<Rightarrow> library \<Rightarrow> (string \<times> path_info) list \<Rightarrow> location \<Rightarrow> scan_state \<Rightarrow> scan_state wio" where
  "scan_entry env l known e s =
     bind_io (scan_find env l known e) (\<lambda>f. return_io (record_finding e f s))"

fun scan_entries :: "'d env \<Rightarrow> library \<Rightarrow> (string \<times> path_info) list \<Rightarrow> location list \<Rightarrow> scan_state \<Rightarrow> scan_state wio" where
  "scan_entries env l known [] s = return_io s"
| "scan_entries env l known (e # es) s =
     bind_io (scan_entry env l known e s) (\<lambda>s'. scan_entries env l known es s')"

section \<open>Duplicate ids\<close>

fun find_duplicate :: "(int \<times> string) list \<Rightarrow> book_path list \<Rightarrow> err option" where
  "find_duplicate owners [] = None"
| "find_duplicate owners (bp # bps) =
     (let i = MID (Meta (fst bp)); p = EpubPath (Loc (fst bp)) in
      case map_of owners i of
        Some owner \<Rightarrow> Some (DuplicateId i owner p)
      | None \<Rightarrow> find_duplicate ((i, p) # owners) bps)"

definition sort_indexed :: "scan_state \<Rightarrow> scan_state" where
  "sort_indexed s = s\<lparr>SIndexed := sort_key (\<lambda>bp. EpubPath (Loc (fst bp))) (SIndexed s)\<rparr>"

definition check_duplicate_ids :: "scan_state \<Rightarrow> scan_state wio" where
  "check_duplicate_ids s = (let s' = sort_indexed s in
     case find_duplicate [] (SIndexed s') of Some e \<Rightarrow> fail_io e | None \<Rightarrow> return_io s')"

section \<open>Moving to canonical places\<close>

fun move_to_canonical :: "library \<Rightarrow> book_path list \<Rightarrow> book_path list wio" where
  "move_to_canonical l [] = return_io []"
| "move_to_canonical l ((b, obs) # bps) =
     (let canonical = layout (Authors (Bib b)) (Title (Bib b)) (MID (Meta b)) in
      bind_io
        (if loc_dir canonical \<noteq> loc_dir (Loc b) \<or> loc_filename canonical \<noteq> loc_filename (Loc b)
         then bind_io (attempt (move (LRoot l) (Loc b) canonical)) (\<lambda>r. case r of
             Inl _ \<Rightarrow> return_io b
           | Inr _ \<Rightarrow> return_io (b\<lparr>Loc := canonical\<rparr>))
         else return_io b) (\<lambda>b'.
      bind_io (move_to_canonical l bps) (\<lambda>rest. return_io ((b', obs) # rest))))"

section \<open>Rebuilding\<close>

text \<open>\<^verbatim>\<open>Index.Rebuild\<close> as the statements it sends one by one, any of which can fail; the last is \<^verbatim>\<open>ANALYZE\<close>.\<close>

definition rebuild_index :: "string \<Rightarrow> book_path list \<Rightarrow> (string \<times> path_info) list \<Rightarrow> int \<Rightarrow> unit wio" where
  "rebuild_index k bs skipped m =
     bind_io (db_call (\<lambda>d. (Inr (), ensure_schema d))) (\<lambda>_.
     bind_io (db_call (\<lambda>d. case insert_pending_op k d of Inl e \<Rightarrow> (Inl e, d) | Inr d' \<Rightarrow> (Inr (), d'))) (\<lambda>_.
     bind_io (db_call (rebuild_body bs skipped m)) (\<lambda>_.
     bind_io (db_call (\<lambda>d. (Inr (), d\<lparr>UserVersion := schema_version\<rparr>))) (\<lambda>_.
     db_call (\<lambda>d. (Inr (), d))))))"

definition reindex_scan :: "'d env \<Rightarrow> library \<Rightarrow> string \<Rightarrow> (location list \<Rightarrow> location list) \<Rightarrow> store_scan \<Rightarrow> unit wio" where
  "reindex_scan env l k order scan =
     bind_io (scan_entries env l (ScanInfo scan) (order (ScanEntries scan)) empty_scan) (\<lambda>s.
     bind_io (check_duplicate_ids s) (\<lambda>s.
     bind_io (move_to_canonical l (SIndexed s)) (\<lambda>bs.
     rebuild_index k bs (SUnindexed s) (SMaxID s))))"

definition reindex :: "'d env \<Rightarrow> library \<Rightarrow> string \<Rightarrow> (location list \<Rightarrow> location list) \<Rightarrow> store_scan option \<Rightarrow> unit wio" where
  "reindex env l k order scan =
     bind_io (case scan of
         Some s \<Rightarrow> return_io s
       | None \<Rightarrow> bind_io (walk (LRoot l)) (\<lambda>entries. return_io \<lparr>ScanEntries = entries, ScanInfo = []\<rparr>))
       (reindex_scan env l k order)"

section \<open>Drift\<close>

fun stat_entries :: "library \<Rightarrow> location list \<Rightarrow> (string \<times> path_info) list \<Rightarrow> (string \<times> path_info) list wio" where
  "stat_entries l [] info = return_io info"
| "stat_entries l (e # es) info =
     bind_io (attempt (store_stat (LRoot l) e)) (\<lambda>r.
     let mt = (case r of Inl _ \<Rightarrow> unobserved | Inr mt \<Rightarrow> mt) in
     stat_entries l es (filter (\<lambda>x. fst x \<noteq> EpubPath e) info @ [(EpubPath e, mt)]))"

definition drifted :: "(string \<times> path_info) list \<Rightarrow> (string \<times> path_info) list \<Rightarrow> bool" where
  "drifted on_disk indexed \<longleftrightarrow>
     length on_disk \<noteq> length indexed \<or>
     (\<exists>x \<in> set on_disk. case map_of indexed (fst x) of
          None \<Rightarrow> True | Some im \<Rightarrow> \<not> path_info_equal im (snd x))"

definition indexed_info :: "db \<Rightarrow> (string \<times> path_info) list option" where
  "indexed_info d = (case all_path_info d of
      Inl _ \<Rightarrow> None
    | Inr m \<Rightarrow> Some (pick (\<lambda>p. map_option (Pair p) (m p)) (map KEpubPath (get_all_path_info d))))"

definition store_drifted :: "library \<Rightarrow> (store_scan option \<times> bool) wio" where
  "store_drifted l =
     bind_io (attempt (walk (LRoot l))) (\<lambda>r. case r of
         Inl _ \<Rightarrow> return_io (None, True)
       | Inr entries \<Rightarrow>
           bind_io (stat_entries l entries []) (\<lambda>info.
           let on_disk = \<lparr>ScanEntries = entries, ScanInfo = info\<rparr> in
           bind_io (attempt (db_read indexed_info)) (\<lambda>r. case r of
               Inl _ \<Rightarrow> return_io (Some on_disk, True)
             | Inr None \<Rightarrow> return_io (Some on_disk, True)
             | Inr (Some indexed) \<Rightarrow> return_io (Some on_disk, drifted info indexed))))"

definition lib_needs_reindex :: "bool wio" where
  "lib_needs_reindex = bind_io (attempt (db_read needs_reindex)) (\<lambda>r. case r of
      Inl _ \<Rightarrow> return_io True
    | Inr b \<Rightarrow> return_io b)"

section \<open>Opening\<close>

fun clean_temp_files :: "string \<Rightarrow> (string \<times> node) list \<Rightarrow> unit wio" where
  "clean_temp_files dir [] = return_io ()"
| "clean_temp_files dir (e # es) =
     (if snd e = Dir \<or> \<not> suffix ''.epub'' (fst e) then clean_temp_files dir es
      else bind_io (attempt (os_remove (join_path [dir, fst e]))) (\<lambda>_. clean_temp_files dir es))"

definition clean_inbox_temp :: "string \<Rightarrow> unit wio" where
  "clean_inbox_temp dir = bind_io (os_read_dir dir) (clean_temp_files dir)"

definition check_same_filesystem :: "string \<Rightarrow> string \<Rightarrow> unit wio" where
  "check_same_filesystem a b =
     bind_io (os_create_temp a ''.fschk-'' []) (\<lambda>tmp.
     finally_io
       (let dst = join_path [b, base_path tmp] in
        bind_io (attempt (os_rename tmp dst)) (\<lambda>r. case r of
            Inl e \<Rightarrow> bind_io (attempt (os_remove dst)) (\<lambda>_. fail_io e)
          | Inr _ \<Rightarrow> bind_io (attempt (os_remove dst)) (\<lambda>_. return_io ())))
       (os_remove tmp))"

definition open_library :: "'d env \<Rightarrow> library \<Rightarrow> string \<Rightarrow> (location list \<Rightarrow> location list) \<Rightarrow> bool \<Rightarrow> unit wio" where
  "open_library env l k order force =
     bind_io (os_mkdir_all (LRoot l)) (\<lambda>_.
     bind_io (os_mkdir_all (InboxTemp l)) (\<lambda>_.
     bind_io (clean_inbox_temp (InboxTemp l)) (\<lambda>_.
     bind_io (check_same_filesystem (LRoot l) (InboxTemp l)) (\<lambda>_.
     bind_io (if force then return_io True else lib_needs_reindex) (\<lambda>needs.
     if needs then reindex env l k order None
     else bind_io (store_drifted l) (\<lambda>(on_disk, drift).
       if drift then reindex env l k order on_disk else return_io ()))))))"

end
