(* ===== verification/Store_Safe.thy ===== *)
theory Store_Safe
  imports Store
begin

text \<open>
  What the operations of the store do to the files, whatever call fails and wherever the machine stops:
  a move never loses the epub, the sidecar is the old one or the new one, and nothing outside the book's
  own directory changes.
\<close>

section \<open>A file that stays\<close>

definition has :: "path \<Rightarrow> node \<Rightarrow> 'z assn" where
  "has p n w \<longleftrightarrow> tree_ok (FS w) \<and> node_at p (FS w) = Some n"

lemma keeps_same_fs: "(\<And>w. FS (snd (m w)) = FS w) \<Longrightarrow> keeps (has p n) m"
  by (simp add: keeps_def has_def)

lemma same_fs_reads: "FS (snd (os_stat s w)) = FS w" "FS (snd (os_read_dir s w)) = FS w"
  "FS (snd (os_read_file s w)) = FS w" "FS (snd (os_sync s w)) = FS w" "FS (snd (now_io w)) = FS w"
  by (auto simp: os_stat_def os_read_dir_def os_read_file_def os_sync_def now_io_def syscall_def return_io_def
      split: list.split fate.split option.split node.split)

lemma keeps_reads [keep_rules]: "keeps (has p n) (os_stat s)" "keeps (has p n) (os_read_dir s)"
  "keeps (has p n) (os_read_file s)" "keeps (has p n) (os_sync s)" "keeps (has p n) now_io"
  by (rule keeps_same_fs, rule same_fs_reads)+

lemma keeps_fs_call:
  assumes "\<And>fs fs'. f fs = Inr fs' \<Longrightarrow> tree_ok fs \<Longrightarrow> node_at p fs = Some n \<Longrightarrow> tree_ok fs' \<and> node_at p fs' = Some n"
  shows "keeps (has p n) (syscall (with_fs f))"
  unfolding keeps_def has_def
proof (intro allI impI)
  fix w :: "'a os_scheme"
  assume a: "tree_ok (FS w) \<and> node_at p (FS w) = Some n"
  obtain r w' where s: "syscall (with_fs f) w = (r, w')" by (cases "syscall (with_fs f) w")
  from fs_call [OF s] assms a s show "tree_ok (FS (snd (syscall (with_fs f) w))) \<and>
      node_at p (FS (snd (syscall (with_fs f) w))) = Some n"
    by (cases r) auto
qed

lemma mkdir_keeps: "mkdir_fs q fs = Inr fs' \<Longrightarrow> node_at p fs = Some n \<Longrightarrow> node_at p fs' = Some n"
  by (auto simp: mkdir_fs_def node_at_put split: if_splits option.splits node.splits)

lemma remove_keeps: "remove_fs q fs = Inr fs' \<Longrightarrow> q \<noteq> p \<Longrightarrow> node_at p fs = Some n \<Longrightarrow> node_at p fs' = Some n"
  by (auto simp: remove_fs_def node_at_drop split: if_splits option.splits node.splits)

lemma rename_keeps:
  assumes "tree_ok fs" "rename_fs q r fs = Inr fs'" "\<not> prefix q p" "r \<noteq> p" "node_at p fs = Some n"
  shows "node_at p fs' = Some n"
proof (cases "q = r")
  case True
  with assms(2,5) show ?thesis by (auto simp: rename_fs_def split: option.splits)
next
  case False
  from rename_cases [OF assms(1,2) False] obtain "\<not> prefix q r" "q \<noteq> []" "r \<noteq> []" "fs' = move_node q r fs"
    "\<And>s. prefix r s \<Longrightarrow> s \<noteq> r \<Longrightarrow> node_at s fs = None" by metis
  moreover from this assms(4,5) have "\<not> prefix r p" by (metis option.distinct(1))
  ultimately show ?thesis using assms(3,5) by (simp add: node_at_move_other)
qed

lemma keeps_mkdir [keep_rules]: "keeps (has p n) (syscall (with_fs (mkdir_fs q)))"
  by (rule keeps_fs_call) (use mkdir_keeps tree_ok_mkdir in blast)

lemma keeps_mkdir_list [keep_rules]: "keeps (has p n :: 'z assn) (mkdir_list ps)"
proof (induction ps)
  case (Cons q qs)
  have b: "keeps (has p n :: 'z assn) (bind_io (syscall (with_fs (mkdir_fs q))) (\<lambda>_. mkdir_list qs))"
    by (intro keep_rules Cons.IH)
  show ?case using Cons.IH b by (auto simp: keeps_def split: option.split node.split)
qed (simp add: keeps_def)

lemma keeps_mkdir_all [keep_rules]: "keeps (has p n) (os_mkdir_all s)"
  unfolding os_mkdir_all_def Let_def by (rule keeps_mkdir_list)

lemma keeps_remove: "comps s \<noteq> p \<Longrightarrow> keeps (has p n) (os_remove s)"
  unfolding os_remove_def by (rule keeps_fs_call) (use remove_keeps tree_ok_remove in blast)

lemma keeps_rename: "\<not> prefix (comps s) p \<Longrightarrow> comps t \<noteq> p \<Longrightarrow> keeps (has p n) (os_rename s t)"
  unfolding os_rename_def by (rule keeps_fs_call) (use rename_keeps tree_ok_rename in blast)

lemma keeps_remove_if_empty: "comps s \<noteq> p \<Longrightarrow> keeps (has p n) (remove_if_empty s)"
  unfolding remove_if_empty_def by (intro keep_rules keeps_remove)

lemma keeps_write: "comps s \<noteq> p \<Longrightarrow> keeps (has p n) (os_write s b)"
  unfolding keeps_triple
proof (rule tripleI)
  fix w r w' assume a: "has p n w" "os_write s b w = (r, w')" and ne: "comps s \<noteq> p"
  have "FS w' = FS w \<or> (\<exists>c t t'. node_at (comps s) (FS w) = Some (File c t) \<and> FS w' = put_node (comps s) (File b t') (FS w))"
    using a(2) unfolding os_write_def by (cases rule: syscall_cases) (auto split: option.splits node.splits)
  moreover have "tree_ok (put_node (comps s) (File b t') (FS w))" if f: "node_at (comps s) (FS w) = Some (File c t)" for c t t'
    using a(1) f tree_ok_node [of "FS w" "comps s"] file_no_below [of "FS w" "comps s" c t]
    by (cases "comps s = []") (auto simp: has_def intro!: tree_ok_put)
  ultimately have "has p n w'" using a(1) ne by (auto simp: has_def node_at_put)
  then show "case r of Inl _ \<Rightarrow> has p n w' | Inr x \<Rightarrow> has p n w'" by (simp split: sum.split)
qed

section \<open>Moving\<close>

text \<open>A rename that succeeds carries everything below the source.\<close>

lemma rename_carries:
  assumes "tree_ok fs" "rename_fs q r fs = Inr fs'" "node_at (q @ x) fs = Some n"
  shows "tree_ok fs' \<and> node_at (r @ x) fs' = Some n \<and> (q = r \<or> \<not> prefix r q)"
proof (cases "q = r")
  case True
  with assms show ?thesis by (auto simp: rename_fs_def split: option.splits)
next
  case False
  from rename_cases [OF assms(1,2) False] obtain "\<not> prefix q r" "\<not> prefix r q" "q \<noteq> []" "r \<noteq> []"
    "fs' = move_node q r fs" "\<And>s. prefix r s \<Longrightarrow> s \<noteq> r \<Longrightarrow> node_at s fs = None" by metis
  then show ?thesis
    using node_at_move [of q r fs "r @ x"] assms tree_ok_rename [OF assms(1,2)] by (simp add: tree_ok_def)
qed

lemma triple_rename:
  "triple (has (comps s @ x) n) (os_rename s t) (has (comps s @ x) n)
     (\<lambda>_ w. has (comps t @ x) n w \<and> (comps s = comps t \<or> \<not> prefix (comps t) (comps s)))"
  unfolding os_rename_def
proof (rule tripleI)
  fix w r w' assume a: "has (comps s @ x) n w" "syscall (with_fs (rename_fs (comps s) (comps t))) w = (r, w')"
  from fs_call [OF a(2)] a(1) rename_carries [of "FS w" "comps s" "comps t" "FS w'" x n]
  show "case r of Inl _ \<Rightarrow> has (comps s @ x) n w' | Inr _ \<Rightarrow> has (comps t @ x) n w' \<and>
      (comps s = comps t \<or> \<not> prefix (comps t) (comps s))"
    by (cases r) (auto simp: has_def)
qed

lemma triple_do_rename:
  "triple (has (comps a @ x) n) (do_rename_dir a b) (has (comps a @ x) n)
     (\<lambda>_ w. has (comps b @ x) n w \<and> (comps a = comps b \<or> \<not> prefix (comps b) (comps a)))"
proof (cases "a = b")
  case False
  have k: "keeps (has (comps a @ x) n) (attempt (os_stat b))"
    "keeps (has (comps a @ x) n) (os_mkdir_all (dir_path b))" by (intro keep_rules)+
  show ?thesis unfolding do_rename_dir_def using False
    by (auto intro!: triple_bind [OF k(1) [unfolded keeps_triple]] triple_sum triple_return
        triple_bind [OF k(2) [unfolded keeps_triple]] triple_rename)
qed (auto simp: do_rename_dir_def intro: triple_return)

lemma comps_parent:
  assumes "s \<noteq> []" "hd s = slash"
  shows "comps (dir_path (clean s)) = butlast (comps s)"
proof -
  obtain ps where ps: "comps s = ps" "\<forall>c \<in> set ps. plain c"
    using clean_list_comps [of s] assms by (auto simp: clean_list_def comps_def)
  show ?thesis
  proof (cases ps rule: rev_cases)
    case Nil
    then have "clean s = ''/''" using ps(1) assms by (simp add: clean_def comps_def)
    then show ?thesis using Nil ps(1) by (simp add: comps_def dir_path_def last_slash_split_def clean_comps_def clean_def)
  next
    case (snoc qs q)
    then show ?thesis using ps comps_dir_path [of s qs q] by (simp add: comps_def)
  qed
qed

lemma abs_path_clean:
  assumes "hd rt = slash" "rt \<noteq> []"
  shows "\<exists>s. abs_path rt rel = clean s \<and> s \<noteq> [] \<and> hd s = slash"
proof (cases "rel = []")
  case True
  then show ?thesis using assms by (intro exI [of _ rt]) (simp add: abs_path_def join_path_def)
next
  case False
  then show ?thesis using assms by (intro exI [of _ "rt @ slash # rel"]) (simp add: abs_path_def join_path_def)
qed

lemma comps_name: "plain f \<Longrightarrow> comps (join_path [d, f]) = comps d @ [f]"
  by (simp add: comps_def comps_join_one)

text \<open>Where the epub is after a move of its directory from \<open>A\<close> to \<open>D\<close> and of its name from \<open>s\<close> to \<open>d\<close>.\<close>

definition survives :: "path \<Rightarrow> string \<Rightarrow> path \<Rightarrow> string \<Rightarrow> node \<Rightarrow> 'z assn" where
  "survives A s D d n w \<longleftrightarrow> has (A @ [s]) n w \<or> has (D @ [s]) n w \<or> has (D @ [d]) n w"

lemma triple_move:
  assumes rt: "hd rt = slash" "rt \<noteq> []"
    and A: "comps (abs_path rt (loc_dir src)) = A" "loc_filename src = s" "plain s"
    and D: "comps (abs_path rt (loc_dir dst)) = D" "loc_filename dst = d" "plain d"
    and ne: "EpubPath src \<noteq> EpubPath dst"
  shows "triple (has (A @ [s]) n) (move rt src dst) (survives A s D d n) (\<lambda>_. has (D @ [d]) n)"
proof -
  let ?a = "abs_path rt (loc_dir src)" and ?b = "abs_path rt (loc_dir dst)"
  let ?f = "join_path [?b, s]" and ?t = "join_path [?b, d]"
  let ?moved = "\<lambda>w. has (D @ [s]) n w \<and> (A = D \<or> \<not> prefix D A)"
  note names = comps_name [OF A(3), of ?b, unfolded D(1)] comps_name [OF D(3), of ?b, unfolded D(1)]
  have ren: "triple (has (D @ [s]) n) (os_rename ?f ?t) (has (D @ [s]) n) (\<lambda>_. has (D @ [d]) n)"
    by (rule triple_conseq [OF triple_rename [of ?f "[]" n ?t]]) (simp_all add: names)
  have undo: "triple (has (D @ [s]) n) (undo_rename ?a ?b) (survives A s D d n) (\<lambda>_. survives A s D d n)"
    unfolding undo_rename_def
    by (rule triple_bind [OF triple_attempt, of _ _ "\<lambda>_. survives A s D d n"],
        rule triple_conseq [OF triple_rename [of ?b "[s]" n ?a]]) (auto simp: A D survives_def intro: triple_return)
  obtain cs where cs: "?a = clean cs" "cs \<noteq> []" "hd cs = slash" using abs_path_clean [OF rt] by blast
  have parent: "comps (dir_path ?a) = butlast A"
    using comps_parent [OF cs(2,3)] cs(1) A(1) by (simp add: comps_def)
  have last: "keeps (has (D @ [d]) n) (remove_if_empty (dir_path ?a))" if "A = D \<or> \<not> prefix D A"
  proof (rule keeps_remove_if_empty)
    show "comps (dir_path ?a) \<noteq> D @ [d]"
    proof
      assume "comps (dir_path ?a) = D @ [d]"
      then have b: "butlast A = D @ [d]" using parent by simp
      then have "prefix D A" by (metis append.assoc append_butlast_last_id butlast.simps(1) prefix_def snoc_eq_iff_butlast)
      with that have "A = D" by simp
      with b have "length D - 1 = Suc (length D)" by (metis length_append_singleton length_butlast)
      then show False by simp
    qed
  qed
  let ?undo = "if ?a = ?b then return_io () else undo_rename ?a ?b"
  have name: "triple ?moved (if ?t \<noteq> ?f then bind_io (attempt (os_rename ?f ?t)) (\<lambda>r. case r of
        Inl e \<Rightarrow> bind_io ?undo (\<lambda>_. fail_io e) | Inr _ \<Rightarrow> return_io ()) else return_io ())
      (survives A s D d n) (\<lambda>_ w. has (D @ [d]) n w \<and> (A = D \<or> \<not> prefix D A))"
  proof (cases "?t = ?f")
    case True
    then have "s = d" using names by simp
    with True show ?thesis by (auto intro: triple_return)
  next
    case False
    have rolled: "triple (has (D @ [s]) n) (bind_io ?undo (\<lambda>_. fail_io e)) (survives A s D d n) Q" for e Q
    proof (rule triple_bind [of _ _ _ "\<lambda>_. survives A s D d n"])
      show "triple (has (D @ [s]) n) ?undo (survives A s D d n) (\<lambda>_. survives A s D d n)"
        by (cases "?a = ?b") (simp_all add: triple_return survives_def [abs_def], simp add: undo [unfolded survives_def [abs_def]])
    qed (simp add: triple_return)
    have tried: "triple ?moved (attempt (os_rename ?f ?t)) (survives A s D d n)
        (\<lambda>r w. (A = D \<or> \<not> prefix D A) \<and> (case r of Inl _ \<Rightarrow> has (D @ [s]) n w | Inr _ \<Rightarrow> has (D @ [d]) n w))"
      by (rule triple_attempt, rule tripleI) (use tripleD [OF ren] in \<open>fastforce split: sum.splits\<close>)
    show ?thesis unfolding if_P [OF False]
    proof (rule triple_bind [OF tried], rule triple_pull)
      fix r :: "err + unit" assume ad: "A = D \<or> \<not> prefix D A"
      show "triple (\<lambda>w. case r of Inl _ \<Rightarrow> has (D @ [s]) n w | Inr _ \<Rightarrow> has (D @ [d]) n w)
          (case r of Inl e \<Rightarrow> bind_io ?undo (\<lambda>_. fail_io e) | Inr _ \<Rightarrow> return_io ())
          (survives A s D d n) (\<lambda>_ w. has (D @ [d]) n w \<and> (A = D \<or> \<not> prefix D A))"
      proof (cases r)
        case (Inl e)
        show ?thesis unfolding Inl sum.case by (rule rolled)
      next
        case (Inr u)
        show ?thesis unfolding Inr sum.case by (rule triple_return) (use ad in simp)
      qed
    qed
  qed
  have first: "triple (has (A @ [s]) n) (do_rename_dir ?a ?b) (survives A s D d n) (\<lambda>_. ?moved)"
    by (rule triple_conseq [OF triple_do_rename [of ?a "[s]" n ?b]]) (auto simp: A D survives_def)
  have fin: "triple (\<lambda>w. has (D @ [d]) n w \<and> (A = D \<or> \<not> prefix D A)) (remove_if_empty (dir_path ?a))
      (survives A s D d n) (\<lambda>_. has (D @ [d]) n)"
  proof (cases "A = D \<or> \<not> prefix D A")
    case True
    show ?thesis by (rule triple_conseq [OF last [OF True, unfolded keeps_triple]]) (auto simp: survives_def)
  qed (simp add: triple_def)
  show ?thesis
    unfolding move_def Let_def rename_dir_do bind_io_assoc bind_return_left A D if_not_P [OF ne]
    by (rule triple_bind [OF first], rule triple_bind [OF name], rule fin)
qed

text \<open>C36: moving a book to where its title and authors put it never loses the epub: whatever call fails
  and wherever the machine stops, its bytes are at the old place, or in the new directory under the old
  or the new name, and a move that reports success has them at the new place.\<close>

theorem move_keeps_epub:
  assumes "move rt src dst w = (r, w')" "hd rt = slash" "rt \<noteq> []" "tree_ok (FS w)"
    and "plain (loc_filename src)" "plain (loc_filename dst)" "EpubPath src \<noteq> EpubPath dst"
    and "node_at (comps (abs_path rt (loc_dir src)) @ [loc_filename src]) (FS w) = Some n"
  shows "tree_ok (FS w') \<and> (case r of
      Inr _ \<Rightarrow> node_at (comps (abs_path rt (loc_dir dst)) @ [loc_filename dst]) (FS w') = Some n
    | Inl _ \<Rightarrow> Some n \<in> (\<lambda>p. node_at p (FS w')) `
        {comps (abs_path rt (loc_dir src)) @ [loc_filename src], comps (abs_path rt (loc_dir dst)) @ [loc_filename src],
         comps (abs_path rt (loc_dir dst)) @ [loc_filename dst]})"
  using tripleD [OF triple_move [OF assms(2,3) refl refl assms(5) refl refl assms(6,7), of n] assms(1)] assms(4,8)
  by (cases r) (auto simp: has_def survives_def)

section \<open>Replacing a file by renaming a temporary one over it\<close>

lemma triple_ex: "(\<And>x. triple (P x) m E Q) \<Longrightarrow> triple (\<lambda>w. \<exists>x. P x w) m E Q"
  by (rule tripleI) (blast dest: tripleD)

definition holds_at :: "path \<Rightarrow> node option \<Rightarrow> 'z assn" where
  "holds_at p n w \<longleftrightarrow> tree_ok (FS w) \<and> node_at p (FS w) = n"

text \<open>\<open>staged D f n x b\<close>: the file \<open>f\<close> of \<open>D\<close> is as it was (\<open>x\<close>), and the temporary file \<open>n\<close> beside it
  holds \<open>b\<close>.\<close>

definition staged_file :: "path \<Rightarrow> string \<Rightarrow> string \<Rightarrow> node option \<Rightarrow> bytes \<Rightarrow> 'z assn" where
  "staged_file D f n x b w \<longleftrightarrow> holds_at (D @ [f]) x w \<and> (\<exists>t. node_at (D @ [n]) (FS w) = Some (File b t))"

definition replaced_by :: "path \<Rightarrow> string \<Rightarrow> bytes \<Rightarrow> 'z assn" where
  "replaced_by D f b w \<longleftrightarrow> tree_ok (FS w) \<and> (\<exists>t. node_at (D @ [f]) (FS w) = Some (File b t))"

lemma triple_create_temp:
  assumes "\<And>n. is_temp pre suf n \<Longrightarrow> plain n" "x \<noteq> None \<or> \<not> is_temp pre suf f" "comps dir = D"
  shows "triple (holds_at (D @ [f]) x) (os_create_temp dir pre suf) (holds_at (D @ [f]) x)
    (\<lambda>tmp w. \<exists>n. (comps tmp = D @ [n] \<and> n \<noteq> f) \<and> staged_file D f n x [] w)"
proof (rule tripleI)
  fix w r w' assume a: "holds_at (D @ [f]) x w" "os_create_temp dir pre suf w = (r, w')"
  show "case r of Inl _ \<Rightarrow> holds_at (D @ [f]) x w'
    | Inr tmp \<Rightarrow> \<exists>n. (comps tmp = D @ [n] \<and> n \<noteq> f) \<and> staged_file D f n x [] w'"
  proof (cases r)
    case (Inl e)
    have "FS w' = FS w" using a(2) Inl unfolding os_create_temp_def
      by (cases rule: syscall_cases) (auto simp: Let_def split: option.splits node.splits)
    with a(1) Inl show ?thesis by (simp add: holds_at_def)
  next
    case (Inr tmp)
    from create_temp_Inr [OF a(2) [unfolded Inr]] assms(3) obtain n where n: "is_temp pre suf n" "tmp = join_path [dir, n]"
      "node_at (D @ [n]) (FS w) = None" "FS w' = put_node (D @ [n]) (File [] (Clock w)) (FS w)" "node_at D (FS w) = Some Dir"
      by blast
    have ok: "tree_ok (FS w)" "node_at (D @ [f]) (FS w) = x" using a(1) by (simp_all add: holds_at_def)
    have nf: "n \<noteq> f" using assms(2) n(1,3) ok(2) by auto
    have "node_at r (FS w) = None" if "prefix (D @ [n]) r" for r
    proof (cases "r = D @ [n]")
      case False
      then show ?thesis using tree_ok_above [OF ok(1) _ that] n(3) by (cases "node_at r (FS w)") auto
    qed (simp add: n(3))
    then have "tree_ok (FS w')" unfolding n(4) using ok(1) n(5) by (intro tree_ok_put) auto
    then have "staged_file D f n x [] w'" using ok nf by (simp add: staged_file_def holds_at_def n(4) node_at_put)
    then show ?thesis using Inr n(2) nf comps_name [OF assms(1) [OF n(1)], of dir] assms(3) by auto
  qed
qed

lemma triple_write_temp:
  assumes "comps tmp = D @ [n]" "n \<noteq> f"
  shows "triple (staged_file D f n x b0) (os_write tmp b) (holds_at (D @ [f]) x) (\<lambda>_. staged_file D f n x b)"
proof (rule tripleI)
  fix w r w' assume a: "staged_file D f n x b0 w" "os_write tmp b w = (r, w')"
  obtain t where t: "node_at (D @ [n]) (FS w) = Some (File b0 t)" using a(1) by (auto simp: staged_file_def)
  have ok: "tree_ok (FS w)" "node_at (D @ [f]) (FS w) = x" using a(1) by (simp_all add: staged_file_def holds_at_def)
  have "tree_ok (put_node (D @ [n]) (File b t') (FS w))" for t'
    using ok(1) tree_ok_node [OF ok(1) t] file_no_below [OF ok(1) t] by (intro tree_ok_put) auto
  with a(2) show "case r of Inl _ \<Rightarrow> holds_at (D @ [f]) x w' | Inr _ \<Rightarrow> staged_file D f n x b w'"
    unfolding os_write_def assms(1)
    by (cases rule: syscall_cases) (use t ok assms(2) in \<open>auto simp: holds_at_def staged_file_def node_at_put\<close>)
qed

lemma triple_rename_temp:
  assumes "comps tmp = D @ [n]" "n \<noteq> f" "comps path = D @ [f]"
  shows "triple (staged_file D f n x b) (os_rename tmp path) (holds_at (D @ [f]) x) (\<lambda>_. replaced_by D f b)"
proof (rule tripleI)
  fix w r w' assume a: "staged_file D f n x b w" "os_rename tmp path w = (r, w')"
  obtain t where t: "node_at (D @ [n]) (FS w) = Some (File b t)" using a(1) by (auto simp: staged_file_def)
  have ok: "tree_ok (FS w)" "node_at (D @ [f]) (FS w) = x" using a(1) by (simp_all add: staged_file_def holds_at_def)
  from fs_call [OF a(2) [unfolded os_rename_def]] assms
  show "case r of Inl _ \<Rightarrow> holds_at (D @ [f]) x w' | Inr _ \<Rightarrow> replaced_by D f b w'"
    using rename_carries [OF ok(1), of "D @ [n]" "D @ [f]" "FS w'" "[]"] t ok
    by (cases r) (auto simp: holds_at_def replaced_by_def)
qed

lemma keeps_staged_reads: "keeps (staged_file D f n x b) (os_sync s)" "keeps (staged_file D f n x b) (os_read_file s)"
  by (simp_all add: keeps_def staged_file_def holds_at_def same_fs_reads)

lemma keeps_tree_remove: "comps tmp \<noteq> p \<Longrightarrow> keeps (holds_at p x) (os_remove tmp)"
  unfolding keeps_triple
proof (rule tripleI)
  fix w r w' assume a: "comps tmp \<noteq> p" "holds_at p x w" "os_remove tmp w = (r, w')"
  from touchesD [OF touches_os_remove [of "\<lambda>q. q = comps tmp" tmp] a(3), of p] a(1)
  have "node_at p (FS w') = node_at p (FS w)" by auto
  moreover have "tree_ok (FS w')"
    using fs_call [OF a(3) [unfolded os_remove_def]] a(2) tree_ok_remove by (cases r) (auto simp: holds_at_def)
  ultimately show "case r of Inl _ \<Rightarrow> holds_at p x w' | Inr _ \<Rightarrow> holds_at p x w'"
    using a(2) by (simp add: holds_at_def split: sum.split)
qed

lemma keeps_replaced_remove: "comps tmp \<noteq> D @ [f] \<Longrightarrow> keeps (replaced_by D f b) (os_remove tmp)"
  using keeps_tree_remove [of tmp "D @ [f]"] by (auto simp: keeps_def replaced_by_def holds_at_def)

section \<open>The sidecar\<close>

lemma dec_nat_plain: "slash \<notin> set (dec_nat k)"
  using dec_nat_digits [of slash k] by auto

lemma temp_plain:
  assumes "is_temp pre suf n" "slash \<notin> set pre" "slash \<notin> set suf" "pre \<noteq> []"
  shows "plain n"
proof -
  obtain k where n: "n = pre @ dec_nat k @ suf" using assms(1) by (auto simp: is_temp_def)
  obtain c where c: "c \<in> set (dec_nat k)" "is_digit c"
    using dec_nat_ne [of k] dec_nat_digits [of _ k] by (cases "dec_nat k") auto
  then have "c \<in> set n" "c \<noteq> CHR ''.''" using not_digit_simps by (auto simp: n)
  then have "n \<noteq> ''.''" "n \<noteq> ''..''" by auto
  then show ?thesis using assms(2-4) dec_nat_plain by (simp add: n plain_def)
qed

lemma triple_write_meta_file:
  assumes "comps (dir_path path) = D" "base_path path = f" "comps path = D @ [f]" "plain f"
  shows "triple (holds_at (D @ [f]) x) (write_meta_file marshal path m)
    (holds_at (D @ [f]) x) (\<lambda>_. replaced_by D f (marshal m))"
proof -
  let ?E = "holds_at (D @ [f]) x"
  have pl: "plain n" if "is_temp f [] n" for n using temp_plain [OF that] assms(4) by (simp add: plain_def)
  have nt: "\<not> is_temp f [] f" using dec_nat_ne by (auto simp: is_temp_def)
  have inner: "triple (staged_file D f n x [])
      (bind_io (os_write tmp (marshal m)) (\<lambda>_. bind_io (os_sync tmp) (\<lambda>_. os_rename tmp path)))
      (holds_at (D @ [f]) x) (\<lambda>_. replaced_by D f (marshal m))" if "comps tmp = D @ [n]" "n \<noteq> f" for tmp n
    using keeps_staged_reads(1) [of D f n x "marshal m" tmp, unfolded keeps_triple]
    by (rule triple_bind [OF triple_write_temp [OF that] triple_bind [OF triple_conseq triple_rename_temp [OF that assms(3)]]])
      (auto simp: staged_file_def)
  have temp: "triple (staged_file D f n x [])
      (finally_io (bind_io (os_write tmp (marshal m)) (\<lambda>_. bind_io (os_sync tmp) (\<lambda>_. os_rename tmp path))) (os_remove tmp))
      ?E (\<lambda>_. replaced_by D f (marshal m))" if t: "comps tmp = D @ [n]" "n \<noteq> f" for tmp n
  proof -
    have ne: "comps tmp \<noteq> D @ [f]" using t by simp
    show ?thesis
      by (rule triple_conseq [OF triple_finally [OF inner [OF t]
            keeps_tree_remove [OF ne, of x, unfolded keeps_triple]
            keeps_replaced_remove [OF ne, of "marshal m", unfolded keeps_triple]]]) auto
  qed
  show ?thesis unfolding write_meta_file_def assms(2)
  proof (rule triple_bind)
    show "triple (holds_at (D @ [f]) x) (os_create_temp (dir_path path) f []) ?E
        (\<lambda>tmp w. \<exists>n. (comps tmp = D @ [n] \<and> n \<noteq> f) \<and> staged_file D f n x [] w)"
      by (rule triple_conseq [OF triple_create_temp [OF pl _ assms(1), of f "[]" x f]]) (simp_all add: nt)
  qed (rule triple_ex, rule triple_pull, use temp in blast)
qed

text \<open>Where the sidecar of a book directory is.\<close>

lemma meta_path_comps:
  assumes "hd rt = slash" "rt \<noteq> []"
  shows "comps (dir_path (meta_path rt loc)) = comps (abs_path rt (loc_dir loc))"
    "base_path (meta_path rt loc) = meta_filename"
    "comps (meta_path rt loc) = comps (abs_path rt (loc_dir loc)) @ [meta_filename]"
proof -
  have f: "plain meta_filename" by (simp add: plain_def meta_filename_def)
  obtain s where s: "meta_path rt loc = clean s"
    using join_path_clean [of "[meta_filename]" "abs_path rt (loc_dir loc)"] f by (auto simp: meta_path_def)
  have c: "clean_comps s = comps (abs_path rt (loc_dir loc)) @ [meta_filename]"
    using comps_name [OF f, of "abs_path rt (loc_dir loc)"] s by (simp add: meta_path_def comps_def)
  show "comps (dir_path (meta_path rt loc)) = comps (abs_path rt (loc_dir loc))"
    "base_path (meta_path rt loc) = meta_filename"
    "comps (meta_path rt loc) = comps (abs_path rt (loc_dir loc)) @ [meta_filename]"
    using comps_dir_path [OF c f] base_path_clean [OF c f] c by (simp_all add: s comps_def)
qed

text \<open>C37: the sidecar is replaced in one step: whatever call fails and wherever the machine stops, a write
  that reports an error left the sidecar exactly as it was, and one that reports success left exactly the
  new record; there is never a part of one.\<close>

theorem write_meta_atomic:
  assumes "write_meta marshal rt loc m w = (r, w')" "tree_ok (FS w)" "hd rt = slash" "rt \<noteq> []"
  defines "p \<equiv> comps (abs_path rt (loc_dir loc)) @ [meta_filename]"
  shows "tree_ok (FS w') \<and> (case r of
      Inl _ \<Rightarrow> node_at p (FS w') = node_at p (FS w)
    | Inr _ \<Rightarrow> \<exists>t. node_at p (FS w') = Some (File (marshal m) t))"
proof -
  have f: "plain meta_filename" by (simp add: plain_def meta_filename_def)
  note t = triple_write_meta_file [OF meta_path_comps [OF assms(3,4), of loc] f, of "node_at p (FS w)" marshal m]
  show ?thesis
    using tripleD [OF t assms(1) [unfolded write_meta_def]] assms(2)
    by (cases r) (auto simp: holds_at_def replaced_by_def p_def)
qed

text \<open>A library with one book, a machine that stops in the middle of what the book is put through.\<close>

definition book_world :: "fate list \<Rightarrow> os" where
  "book_world fates = \<lparr>FS = [([''l''], Dir), ([''l'', ''A''], Dir), ([''l'', ''A'', ''T (1)''], Dir),
     ([''l'', ''A'', ''T (1)'', ''x.epub''], File ''PK'' 3), ([''l'', ''A'', ''T (1)'', meta_filename], File ''old'' 4)],
     Fates = fates, Clock = 7, Alive = True\<rparr>"

lemma book_world_ok: "tree_ok (FS (book_world fates))"
  by (simp add: tree_ok_def book_world_def node_at_def meta_filename_def)

theorem write_meta_atomic_witness:
  "\<exists>r w'. write_meta (\<lambda>_. ''new'') ''/l'' \<lparr>EpubPath = ''A/T (1)/x.epub''\<rparr> undefined (book_world [Works, Works, Crashes]) = (r, w') \<and>
     tree_ok (FS w') \<and> node_at (comps (abs_path ''/l'' (loc_dir \<lparr>EpubPath = ''A/T (1)/x.epub''\<rparr>)) @ [meta_filename]) (FS w')
       \<in> {Some (File ''old'' 4)} \<union> range (\<lambda>t. Some (File ''new'' t))"
proof -
  let ?loc = "\<lparr>EpubPath = ''A/T (1)/x.epub''\<rparr>"
  have p: "comps (abs_path ''/l'' (loc_dir ?loc)) = [''l'', ''A'', ''T (1)'']" by code_simp
  obtain r w' where c: "write_meta (\<lambda>_. ''new'') ''/l'' ?loc undefined (book_world [Works, Works, Crashes]) = (r, w')"
    by (cases "write_meta (\<lambda>_. ''new'') ''/l'' ?loc undefined (book_world [Works, Works, Crashes])")
  have "node_at ([''l'', ''A'', ''T (1)''] @ [meta_filename]) (FS (book_world fates)) = Some (File ''old'' 4)" for fates
    by (simp add: book_world_def node_at_def meta_filename_def)
  with write_meta_atomic [OF c book_world_ok] show ?thesis unfolding p c by (cases r) auto
qed

theorem move_keeps_epub_witness:
  "\<exists>r w'. move ''/l'' \<lparr>EpubPath = ''A/T (1)/x.epub''\<rparr> \<lparr>EpubPath = ''B/T (1)/y.epub''\<rparr>
      (book_world [Works, Works, Works, Fails, Crashes]) = (r, w') \<and> tree_ok (FS w')"
proof -
  let ?s = "\<lparr>EpubPath = ''A/T (1)/x.epub''\<rparr>" and ?d = "\<lparr>EpubPath = ''B/T (1)/y.epub''\<rparr>"
  have p: "comps (abs_path ''/l'' (loc_dir ?s)) = [''l'', ''A'', ''T (1)'']" "loc_filename ?s = ''x.epub''"
    "loc_filename ?d = ''y.epub''" by code_simp+
  obtain r w' where c: "move ''/l'' ?s ?d (book_world [Works, Works, Works, Fails, Crashes]) = (r, w')"
    by (cases "move ''/l'' ?s ?d (book_world [Works, Works, Works, Fails, Crashes])")
  from move_keeps_epub [OF c _ _ book_world_ok, of "File ''PK'' 3"] c show ?thesis
    by (auto simp: p plain_def book_world_def node_at_def)
qed

end
