(* ===== verification/Epub_Safe.thy ===== *)
theory Epub_Safe
  imports Epub_File Store_Safe Index_Refine
begin

text \<open>
  The rewrite of an epub is atomic: whatever call fails and wherever the machine stops, the file is what
  it was or a complete new archive that was read back before it took the old one's place. And what a
  save stages: nothing when nothing changed, and never an entry of a signed or encrypted book.
\<close>

section \<open>What a save stages\<close>

lemma bind_res_cases: "bind_res r f = Inr y \<Longrightarrow> (\<And>x. r = Inr x \<Longrightarrow> f x = Inr y \<Longrightarrow> thesis) \<Longrightarrow> thesis"
  by (cases r) (auto simp: bind_res_def)

definition staged_names :: "staged \<Rightarrow> string set" where
  "staged_names r = fst ` set r"

lemma staged_names_entry [simp]: "staged_names (stage_entry n b r) = insert n (staged_names r)"
  by (auto simp: staged_names_def stage_entry_def image_iff)

lemma refit_names:
  "refit_cover_page env f enc wd ht pages r = Inr r' \<Longrightarrow>
     staged_names r' \<subseteq> staged_names r \<union> {n. arc_has (EArc f) n \<and> \<not> is_encrypted enc n}"
proof (induction pages)
  case (Cons entry pages)
  show ?case
  proof (cases "\<not> arc_has (EArc f) entry \<or> is_encrypted enc entry")
    case False
    with Cons.prems obtain dat where dat: "(case CoverFit env dat entry (ECoverPath f) wd ht of
          None \<Rightarrow> refit_cover_page env f enc wd ht pages r
        | Some (changed, out) \<Rightarrow>
            if changed then bind_res out (\<lambda>b. Inr (stage_entry entry b r))
            else refit_cover_page env f enc wd ht pages r) = Inr r'"
      by (auto elim!: bind_res_cases)
    show ?thesis
    proof (cases "CoverFit env dat entry (ECoverPath f) wd ht")
      case (Some x)
      with dat False Cons.IH show ?thesis
        by (cases x) (auto split: if_splits elim!: bind_res_cases)
    qed (use dat Cons.IH in simp)
  qed (use Cons in simp)
qed simp

lemma sync_ncx_names:
  "sync_ncx env f doc enc m r = Inr r' \<Longrightarrow>
     staged_names r' \<subseteq> staged_names r \<union> {n. arc_has (EArc f) n \<and> \<not> is_encrypted enc n}"
  by (force simp: sync_ncx_def Let_def split: if_splits option.splits prod.splits elim!: bind_res_cases)

text \<open>C35: a save of a signed epub is refused; a save writes only entries the archive has that are not
  under real encryption (the package document and the cover included); and when no field was changed and
  no cover was set it stages nothing, so the file is left alone.\<close>

theorem stage_respects_protection:
  assumes "arc_has (EArc f) (AOpf (EArc f))" "ECover f \<noteq> None \<longrightarrow> arc_has (EArc f) (ECoverPath f)"
  shows "case stage env f of
      Inl _ \<Rightarrow> True
    | Inr r \<Rightarrow> \<not> arc_has (EArc f) signatures_path \<and>
        (\<exists>enc. read_encryption (Zip env) (EArc f) = Inr enc \<and>
          (\<forall>n \<in> fst ` set r. arc_has (EArc f) n \<and> \<not> is_encrypted enc n)) \<and>
        (EMeta f = EOrig f \<longrightarrow> ECover f = None \<longrightarrow> r = [])"
proof (cases "stage env f")
  case (Inr r)
  then obtain enc r0 where s: "\<not> arc_has (EArc f) signatures_path" "read_encryption (Zip env) (EArc f) = Inr enc"
    "stage_cover env f enc = Inr r0" "stage_fields env f enc r0 = Inr r"
    by (auto simp: stage_def split: if_splits elim!: bind_res_cases)
  let ?ok = "{n. arc_has (EArc f) n \<and> \<not> is_encrypted enc n}"
  have "staged_names r0 \<subseteq> ?ok"
    using s(3) assms(2) refit_names [of env f enc]
    by (fastforce simp: stage_cover_def staged_names_def [of "[]"] split: option.splits if_splits prod.splits)
  moreover have "staged_names r \<subseteq> staged_names r0 \<union> ?ok"
    using s(4) assms(1) sync_ncx_names [of env f _ enc "moved_of f"]
    by (fastforce simp: stage_fields_def Let_def split: if_splits prod.splits elim!: bind_res_cases)
  ultimately have "staged_names r \<subseteq> ?ok" by blast
  moreover have "r = []" if "EMeta f = EOrig f" "ECover f = None"
    using s(3,4) that by (simp add: stage_cover_def stage_fields_def moved_of_def Let_def moved_changed_def nothing_moved_def)
  ultimately show ?thesis using s(1,2) Inr by (auto simp: staged_names_def)
qed simp

theorem stage_respects_protection_witness:
  "\<exists>f :: unit epub. \<exists>env. arc_has (EArc f) (AOpf (EArc f)) \<and> EMeta f = EOrig f \<and> ECover f = None \<and> stage env f = Inr []"
proof -
  define m where "m = \<lparr>XTitle = ''T'', XSortTitle = [], XAuthors = [(''Ann'', [])], XSeries = None, XDescription = [],
     XLanguage = [], XPublisher = [], XRights = [], XSubjects = [], XContributors = []\<rparr>"
  define f :: "unit epub" where "f = \<lparr>EPath = [], EArc = \<lparr>AFiles = [plain_entry ''p.opf'' []], AOpf = ''p.opf''\<rparr>, EMeta = m,
    EPubdate = [], EIdentifiers = [], ECoverPath = [], EOrig = m, ECover = None, EDoc = ()\<rparr>"
  define env :: "unit env" where "env = \<lparr>TomlMarshal = \<lambda>_. [], TomlUnmarshal = \<lambda>_. None, LangOk = \<lambda>_. True,
     ImageConfig = \<lambda>_. None, Zip = plain_codec, OpfParse = \<lambda>_. Inr (), OpfMetadata = \<lambda>_ _. (m, [], [], []),
     OpfApply = \<lambda>_ _. (False, ()), OpfBytes = \<lambda>_. Inr [], OpfCoverPages = \<lambda>_ _. [], OpfNcx = \<lambda>_ _. [],
     CoverFit = \<lambda>_ _ _ _ _. None, NcxApply = \<lambda>_ _ _. None\<rparr>"
  have has: "arc_has (EArc f) (AOpf (EArc f))" "ECover f \<noteq> None \<longrightarrow> arc_has (EArc f) (ECoverPath f)" "EMeta f = EOrig f"
    "ECover f = None" by (simp_all add: f_def arc_has_def entry_of_def plain_entry_def)
  have "\<exists>r. stage env f = Inr r"
    by (simp add: stage_def f_def arc_has_def entry_of_def plain_entry_def signatures_path_def read_encryption_def
        encryption_path_def stage_cover_def stage_fields_def moved_of_def Let_def moved_changed_def nothing_moved_def bind_res_def)
  with stage_respects_protection [OF has(1,2), of env] has have "stage env f = Inr []" by auto
  with has show ?thesis by blast
qed

section \<open>The rewrite\<close>

lemma keeps_open_epub: "keeps (staged_file D f n x b) (open_epub env p)"
  unfolding open_epub_def from_res_def by (intro keep_rules keeps_staged_reads)

lemma open_epub_reads:
  "open_epub env p w = (r, w') \<Longrightarrow> FS w' = FS w \<and> (case r of
     Inl _ \<Rightarrow> True
   | Inr g \<Rightarrow> (\<exists>b t. node_at (comps p) (FS w) = Some (File b t) \<and> open_bytes env p b = Inr g))"
  unfolding open_epub_def
proof (erule bind_io_cases)
  fix e assume "os_read_file p w = (Inl e, w')" "r = Inl e"
  then show ?thesis using same_fs_reads(3) [of p w] by simp
next
  fix b w1 assume a: "os_read_file p w = (Inr b, w1)" "from_res (open_bytes env p b) w1 = (r, w')"
  have "\<exists>t. node_at (comps p) (FS w) = Some (File b t)"
    using a(1) unfolding os_read_file_def
    by (cases rule: syscall_cases) (auto split: option.splits node.splits)
  moreover have "FS w1 = FS w" using same_fs_reads(3) [of p w] a(1) by simp
  moreover have "r = open_bytes env p b" "w' = w1"
    using a(2) by (auto simp: from_res_def fail_io_def return_io_def split: sum.splits)
  ultimately show ?thesis by (auto split: sum.split)
qed

text \<open>A new archive: what the codec writes for entries it was given, and what an \<^verbatim>\<open>Open\<close> accepts.\<close>

definition rewritten :: "'d env \<Rightarrow> archive \<Rightarrow> staged \<Rightarrow> bytes \<Rightarrow> bool" where
  "rewritten env a replace b \<longleftrightarrow> (\<exists>es q g. write_to (Zip env) a replace = Inr es \<and> b = ZWrite (Zip env) es \<and>
     open_bytes env q b = Inr g)"

lemma triple_open_temp:
  assumes "comps tmp = D @ [n]"
  shows "triple (staged_file D f n x b) (open_epub env tmp) (staged_file D f n x b)
    (\<lambda>g w. (\<exists>q. open_bytes env q b = Inr g) \<and> staged_file D f n x b w)"
proof (rule tripleI)
  fix w r w' assume a: "staged_file D f n x b w" "open_epub env tmp w = (r, w')"
  from open_epub_reads [OF a(2)] a(1) assms
  show "case r of Inl _ \<Rightarrow> staged_file D f n x b w' | Inr g \<Rightarrow> (\<exists>q. open_bytes env q b = Inr g) \<and> staged_file D f n x b w'"
    by (auto simp: staged_file_def holds_at_def split: sum.splits)
qed

lemma triple_rewrite_file:
  assumes "comps (dir_path (EPath g)) = D" "comps (EPath g) = D @ [f]" "x \<noteq> None"
  shows "triple (holds_at (D @ [f]) x) (rewrite_file env g replace)
    (holds_at (D @ [f]) x)
    (\<lambda>_ w. \<exists>b. rewritten env (EArc g) replace b \<and> replaced_by D f b w)"
    (is "triple ?P _ _ (\<lambda>_. ?Q)")
proof -
  have pl: "plain n" if "is_temp ''.ebookfs-'' ''.epub.tmp'' n" for n using temp_plain [OF that] by simp
  have inner: "triple (staged_file D f n x []) (bind_io (from_res (write_to (Zip env) (EArc g) replace)) (\<lambda>es.
        bind_io (os_write tmp (ZWrite (Zip env) es)) (\<lambda>_. bind_io (os_sync tmp) (\<lambda>_.
        bind_io (open_epub env tmp) (\<lambda>next_f. bind_io (os_rename tmp (EPath g)) (\<lambda>_.
        return_io (next_f\<lparr>EPath := EPath g\<rparr>))))))) ?P (\<lambda>_. ?Q)"
    if t: "comps tmp = D @ [n]" "n \<noteq> f" for tmp n
  proof (cases "write_to (Zip env) (EArc g) replace")
    case (Inl e)
    show ?thesis unfolding Inl from_res_def sum.case bind_fail_left
      by (rule triple_return) (simp add: staged_file_def)
  next
    case (Inr es)
    let ?b = "ZWrite (Zip env) es"
    have weak: "staged_file D f n x b w \<Longrightarrow> ?P w" for b w by (simp add: staged_file_def)
    have sync: "triple (staged_file D f n x ?b) (os_sync tmp) ?P (\<lambda>_. staged_file D f n x ?b)"
      by (rule triple_conseq [OF keeps_staged_reads(1) [unfolded keeps_triple]]) (auto intro: weak)
    have opn: "triple (staged_file D f n x ?b) (open_epub env tmp) ?P
        (\<lambda>h w. (\<exists>q. open_bytes env q ?b = Inr h) \<and> staged_file D f n x ?b w)"
      by (rule triple_conseq [OF triple_open_temp [OF t(1)]]) (auto intro: weak)
    have ren: "triple (staged_file D f n x ?b) (bind_io (os_rename tmp (EPath g)) (\<lambda>_.
        return_io (h\<lparr>EPath := EPath g\<rparr>))) ?P (\<lambda>_. ?Q)" if "\<exists>q. open_bytes env q ?b = Inr h" for h
      by (rule triple_bind [OF triple_rename_temp [OF t assms(2)]], rule triple_return)
        (use that Inr in \<open>auto simp: rewritten_def\<close>)
    show ?thesis unfolding Inr from_res_def sum.case bind_return_left
      by (rule triple_bind [OF triple_write_temp [OF t]], rule triple_bind [OF sync], rule triple_bind [OF opn],
          rule triple_pull, rule ren)
  qed
  have temp: "triple (staged_file D f n x []) (finally_io (bind_io (from_res (write_to (Zip env) (EArc g) replace)) (\<lambda>es.
        bind_io (os_write tmp (ZWrite (Zip env) es)) (\<lambda>_. bind_io (os_sync tmp) (\<lambda>_.
        bind_io (open_epub env tmp) (\<lambda>next_f. bind_io (os_rename tmp (EPath g)) (\<lambda>_.
        return_io (next_f\<lparr>EPath := EPath g\<rparr>))))))) (os_remove tmp)) ?P (\<lambda>_. ?Q)"
    if t: "comps tmp = D @ [n]" "n \<noteq> f" for tmp n
  proof -
    have ne: "comps tmp \<noteq> D @ [f]" using t by simp
    have "keeps ?Q (os_remove tmp)"
      using keeps_replaced_remove [OF ne] unfolding keeps_def by blast
    then show ?thesis
      by (intro triple_finally [OF inner [OF t] keeps_tree_remove [OF ne, of x, unfolded keeps_triple]])
        (simp add: keeps_triple)
  qed
  show ?thesis unfolding rewrite_file_def
  proof (rule triple_bind)
    show "triple ?P (os_create_temp (dir_path (EPath g)) ''.ebookfs-'' ''.epub.tmp'') ?P
        (\<lambda>tmp w. \<exists>n. (comps tmp = D @ [n] \<and> n \<noteq> f) \<and> staged_file D f n x [] w)"
      by (rule triple_conseq [OF triple_create_temp [OF pl _ assms(1), of "''.ebookfs-''" "''.epub.tmp''" x f]]) (simp_all add: assms(3))
  qed (rule triple_ex, rule triple_pull, use temp in blast)
qed

lemma triple_from_res: "(\<And>e. r = Inl e \<Longrightarrow> triple P (fail_io e) E Q) \<Longrightarrow> (\<And>y. r = Inr y \<Longrightarrow> triple P (return_io y) E Q) \<Longrightarrow>
    triple P (from_res r) E Q"
  unfolding from_res_def by (rule triple_sum)

lemma keeps_holds_at_open: "keeps (holds_at p x) (open_epub env q)"
  unfolding keeps_triple by (rule tripleI, drule open_epub_reads) (simp add: holds_at_def split: sum.split)

text \<open>A save that fails changed nothing; one that succeeds did nothing or put a new archive in place.\<close>

lemma triple_save:
  assumes "comps (dir_path (EPath g)) = D" "comps (EPath g) = D @ [f]" "x \<noteq> None"
  shows "triple (holds_at (D @ [f]) x) (save env g) (holds_at (D @ [f]) x)
    (\<lambda>_ w. holds_at (D @ [f]) x w \<or>
      (\<exists>r b. stage env g = Inr r \<and> rewritten env (EArc g) r b \<and> replaced_by D f b w))"
proof (cases "stage env g")
  case (Inl e)
  show ?thesis unfolding save_def Inl from_res_def sum.case bind_fail_left by (rule triple_return) simp
next
  case (Inr r)
  show ?thesis unfolding save_def Inr from_res_def sum.case bind_return_left
    by (cases "r = []") (auto intro: triple_return triple_conseq [OF triple_rewrite_file [OF assms]])
qed

lemma same_path: "open_epub env p w = (Inr g, w') \<Longrightarrow> EPath g = p"
  unfolding open_epub_def
  by (elim bind_io_cases) (auto simp: from_res_def return_io_def fail_io_def open_bytes_def new_book_of_def
      split: sum.splits if_splits prod.splits elim!: bind_res_cases)


text \<open>An environment that reads every archive as the same one-author book.\<close>

definition sample_metadata :: metadata where
  "sample_metadata = \<lparr>XTitle = ''T'', XSortTitle = [], XAuthors = [(''Ann'', [])], XSeries = None, XDescription = [],
     XLanguage = ''en'', XPublisher = [], XRights = [], XSubjects = [], XContributors = []\<rparr>"

definition sample_env :: "unit env" where
  "sample_env = \<lparr>TomlMarshal = \<lambda>_. [], TomlUnmarshal = \<lambda>_. None, LangOk = \<lambda>_. True, ImageConfig = \<lambda>_. None,
     Zip = plain_codec\<lparr>ZRead := \<lambda>_. Inr [plain_entry mimetype_path mimetype_value, plain_entry container_path [],
       plain_entry ''p.opf'' []]\<rparr>,
     OpfParse = \<lambda>_. Inr (), OpfMetadata = \<lambda>_ _. (sample_metadata, [], [], []), OpfApply = \<lambda>_ _. (False, ()),
     OpfBytes = \<lambda>_. Inr [], OpfCoverPages = \<lambda>_ _. [], OpfNcx = \<lambda>_ _. [], CoverFit = \<lambda>_ _ _ _ _. None,
     NcxApply = \<lambda>_ _ _. None\<rparr>"


end
