(* ===== verification/Library_Safe.thy ===== *)
theory Library_Safe
  imports Reindex Epub_Safe
begin

text \<open>
  Crash safety of the facade: whatever call fails and wherever the machine stops, an edit, a delete or
  an ingest either commits, or leaves the index as it was before, or leaves its mark in it, and a marked
  index is rebuilt at the next start.
\<close>

section \<open>The database apart from the files\<close>

lemma more_WDb: "os.more w = os.more (w' :: world) \<Longrightarrow> WDb w = WDb w'"
  by (cases w; cases w') simp

lemma quiet_WDb: "quiet m \<Longrightarrow> m w = (r, w') \<Longrightarrow> WDb w' = WDb (w :: world)"
  using quietD(1) more_WDb by blast

text \<open>A hook that leaves the index alone: \<^verbatim>\<open>hooks.go\<close> hands it a directory and the epub, and it is told
  not to call back into the library.\<close>

definition db_quiet :: "'a wio \<Rightarrow> bool" where
  "db_quiet m \<longleftrightarrow> (\<forall>w. WDb (snd (m w)) = WDb w)"

lemma db_quietI: "quiet m \<Longrightarrow> db_quiet m"
  unfolding db_quiet_def by (metis prod.collapse quiet_WDb)

lemma db_quietD: "db_quiet m \<Longrightarrow> m w = (r, w') \<Longrightarrow> WDb w' = WDb w"
  unfolding db_quiet_def by (metis snd_conv)

lemma db_quiet_bind: "db_quiet m \<Longrightarrow> (\<And>x. db_quiet (k x)) \<Longrightarrow> db_quiet (bind_io m k)"
  by (auto simp: db_quiet_def bind_io_def split: prod.split sum.split dest: db_quietD) (metis snd_conv)+

lemma db_call_cases:
  assumes "db_call f w = (r, w')"
  obtains (ran) q d where "f (WDb w) = (q, d)" "WDb w' = d" "FS w' = FS w" "Alive w" "Alive w'"
      "case q of Inl e \<Rightarrow> r = Inl (Db e) | Inr x \<Rightarrow> r = Inr x"
    | (failed) "r = Inl Eio" "WDb w' = WDb w" "FS w' = FS w"
    | (stopped) "r = Inl Crashed" "WDb w' = WDb w" "FS w' = FS w" "\<not> Alive w'"
proof -
  obtain q d where q: "f (WDb w) = (q, d)" by (cases "f (WDb w)")
  show ?thesis
    using assms q ran failed stopped unfolding db_call_def syscall_def
    by (cases q) (auto split: if_splits list.splits fate.splits)
qed

lemma get_cases:
  assumes "get i w = (r, w')"
  shows "WDb w' = WDb w \<and> FS w' = FS w \<and>
    (case r of Inr b \<Rightarrow> get_book i (WDb w) = Inr b | Inl _ \<Rightarrow> True)"
proof -
  from assms obtain q w1 where q: "lib_get i w = (q, w1)" and
    k: "(case q of Inl e \<Rightarrow> fail_io (if e = Db NoRows then BookNotFound i else e) | Inr b \<Rightarrow> return_io b) w1 = (r, w')"
    unfolding get_def by (elim bind_io_cases) (auto simp: attempt_Inr)
  from q [unfolded lib_get_def] have "WDb w1 = WDb w \<and> FS w1 = FS w \<and> (case q of Inr b \<Rightarrow> get_book i (WDb w) = Inr b | Inl _ \<Rightarrow> True)"
    by (cases rule: db_call_cases) (auto split: sum.splits)
  with k show ?thesis by (auto simp: fail_io_def return_io_def split: sum.splits)
qed

lemma db_quiet_get: "db_quiet (get i)"
  unfolding db_quiet_def using get_cases by (metis prod.collapse)

lemma db_quiet_content: "db_quiet (lib_content env l i)"
  unfolding lib_content_def by (intro db_quiet_bind db_quiet_get db_quietI [OF quiet_reader])

definition hook_ok :: "hook \<Rightarrow> bool" where
  "hook_ok h \<longleftrightarrow> (\<forall>p d. db_quiet (PreParse h p d)) \<and>
     (\<forall>b d e w. db_quiet e \<longrightarrow> WDb (OnIngested h b d e w) = WDb w \<and> WDb (OnEdited h b d e w) = WDb w \<and>
        WDb (OnDeleting h b d e w) = WDb w) \<and>
     (\<forall>i w. WDb (OnDeleted h i w) = WDb w)"

definition hooks_ok :: "library \<Rightarrow> bool" where
  "hooks_ok l \<longleftrightarrow> (\<forall>h \<in> set (Hooks l). hook_ok h)"

lemma fold_hooks_db: "\<forall>h \<in> set hs. \<forall>w. WDb (f h w) = WDb w \<Longrightarrow> WDb (foldl (\<lambda>w h. f h w) w hs) = WDb w"
  by (induction hs arbitrary: w) auto

lemma dispatch_db:
  assumes "\<forall>h \<in> set (Hooks l). \<forall>d e w. db_quiet e \<longrightarrow> WDb (call h d e w) = WDb w"
  shows "WDb (dispatch_event env l b loc call w) = WDb w"
proof -
  obtain r w1 where s: "open_sidecars (LRoot l) loc w = (r, w1)" by (cases "open_sidecars (LRoot l) loc w")
  then have "WDb w1 = WDb w" by (rule quiet_WDb [OF quiet_store(7)])
  moreover have "WDb (foldl (\<lambda>w h. call h d (lib_content env l (MID (Meta b))) w) w1 (Hooks l)) = WDb w1" for d
    using assms db_quiet_content [of env l "MID (Meta b)"]
    by (intro fold_hooks_db [of "Hooks l" "\<lambda>h. call h d (lib_content env l (MID (Meta b)))" for d]) blast
  ultimately show ?thesis using s by (simp add: dispatch_event_def split: sum.split)
qed

lemma events_db:
  assumes "hooks_ok l"
  shows "WDb (on_ingested env l b loc w) = WDb w" "WDb (on_edited env l b loc w) = WDb w"
    "WDb (on_deleting env l b loc w) = WDb w" "WDb (on_deleted l i w) = WDb w"
  using assms unfolding on_ingested_def on_edited_def on_deleting_def on_deleted_def hooks_ok_def hook_ok_def
  by (auto intro!: dispatch_db fold_hooks_db)

lemma db_quiet_pre_parse: "\<forall>h \<in> set hs. hook_ok h \<Longrightarrow> db_quiet (pre_parse hs p d)"
proof (induction hs arbitrary: p)
  case (Cons h hs)
  then show ?case by (auto intro!: db_quiet_bind simp: hook_ok_def)
qed (simp add: db_quiet_def return_io_def)

section \<open>Marks\<close>

lemma mark_cases:
  assumes "mark k w = (r, w')"
  obtains (err) e where "r = Inl e" "WDb w' = WDb w" "FS w' = FS w"
    | (ok) "r = Inr (Some k)" "mark_pending k None (WDb w) = (Inr (Some k), WDb w')" "FS w' = FS w"
  using assms unfolding mark_def begin_op_def
proof (cases rule: db_call_cases)
  case (ran q d)
  show ?thesis
  proof (cases q)
    case (Inl e)
    with ran show ?thesis
      by (intro err [of "Db e"]) (auto simp: mark_pending_def split: sum.splits)
  next
    case (Inr op)
    with ran have "mark_pending k None (WDb w) = (Inr op, d)" by simp
    then have "op = Some k" by (simp add: mark_pending_new)
    with ran Inr show ?thesis by (intro ok) simp_all
  qed
qed (use err in auto)

text \<open>After a mark every path of the rest keeps it until the commit or a cancel.\<close>

definition marked :: "string \<Rightarrow> db \<Rightarrow> db \<Rightarrow> bool" where
  "marked k d d1 \<longleftrightarrow> k \<notin> set (PendingOps d) \<and> d1 = d\<lparr>PendingOps := PendingOps d @ [k]\<rparr>"

lemma marked_simps:
  "marked k d d1 \<Longrightarrow> k \<in> set (PendingOps d1)" "marked k d d1 \<Longrightarrow> needs_reindex d1"
  "marked k d d1 \<Longrightarrow> db_ok d \<Longrightarrow> abs_index d1 = abs_index d" "marked k d d1 \<Longrightarrow> db_ok d \<Longrightarrow> db_ok d1"
  "marked k d d1 \<Longrightarrow> snd (cancel (Some k) d1) = d"
  by (simp_all add: marked_def needs_reindex_pending cancel_def delete_pending_marked)

lemma mark_marked:
  "mark_pending k None d = (Inr (Some k), d1) \<longleftrightarrow> marked k d d1"
  by (auto simp: mark_pending_new marked_def)

lemma cancel_cases:
  assumes "cancel_op (Some k) w = (r, w')" "marked k d (WDb w)"
  shows "r = Inr () \<and> FS w' = FS w \<and> (WDb w' = d \<or> WDb w' = WDb w)"
proof -
  from assms(1) obtain q where q: "db_call (\<lambda>d. (Inr (), snd (cancel (Some k) d))) w = (q, w')" "r = Inr ()"
    unfolding cancel_op_def by (elim bind_io_cases) (auto simp: attempt_Inr return_io_def)
  from q(1) show ?thesis
    by (cases rule: db_call_cases) (use q(2) marked_simps(5) [OF assms(2)] in auto)
qed

lemma put_marked_cases:
  assumes "db_call (op_put (Some k) b mt) w = (r, w')" "marked k d (WDb w)" "db_ok d"
  shows "FS w' = FS w \<and> (case r of
      Inl _ \<Rightarrow> WDb w' = WDb w
    | Inr _ \<Rightarrow> storable b \<and> db_ok (WDb w') \<and> PendingOps (WDb w') = PendingOps d \<and> BookIdSeq (WDb w') = BookIdSeq d \<and>
        abs_index (WDb w') = (abs_index d)(MID (Meta b) \<mapsto> bare (recorded b mt)))"
  using assms(1)
proof (cases rule: db_call_cases)
  case (ran q d')
  have "mark_pending k None d = (Inr (Some k), WDb w)" using assms(2) by (simp add: mark_marked)
  from op_put_marked [OF assms(3) this, of b mt] ran show ?thesis
    by (auto split: if_splits sum.splits)
qed auto

lemma delete_marked_cases:
  assumes "db_call (op_delete (Some k) i) w = (r, w')" "marked k d (WDb w)" "db_ok d"
  shows "FS w' = FS w \<and> (case r of
      Inl _ \<Rightarrow> WDb w' = WDb w
    | Inr _ \<Rightarrow> db_ok (WDb w') \<and> PendingOps (WDb w') = PendingOps d \<and>
        BookIdSeq (WDb w') = BookIdSeq d \<and> abs_index (WDb w') = (abs_index d)(i := None))"
  using assms(1)
proof (cases rule: db_call_cases)
  case (ran q d')
  have "mark_pending k None d = (Inr (Some k), WDb w)" using assms(2) by (simp add: mark_marked)
  from op_delete_marked [OF assms(3) this, of i] ran show ?thesis by (auto split: sum.splits)
qed auto


lemma get_book_id:
  assumes "db_ok d" "get_book i d = Inr b"
  shows "MID (Meta b) = i"
proof -
  have "abs_index d i = Some (bare b)" using assms(2) by (simp add: abs_index_def)
  with abs_index_shown [OF assms(1), of i] obtain r where "row_of i d = Some r" "bare b = shown d r"
    by (cases "row_of i d") auto
  then have "MID (Meta (bare b)) = i" using row_of_Some [of i d r] by (simp add: shown_def to_book_def Let_def)
  then show ?thesis by (simp add: bare_def)
qed



section \<open>Triples over the database\<close>

text \<open>\<open>holds\<close>: a triple whose assertions are about the database.\<close>

definition holds :: "(db \<Rightarrow> bool) \<Rightarrow> 'a wio \<Rightarrow> (db \<Rightarrow> bool) \<Rightarrow> ('a \<Rightarrow> db \<Rightarrow> bool) \<Rightarrow> bool" where
  "holds P m E Q \<longleftrightarrow> triple (\<lambda>w. P (WDb w)) m (\<lambda>w. E (WDb w)) (\<lambda>x w. Q x (WDb w))"

lemma holdsI:
  "(\<And>w r w'. P (WDb w) \<Longrightarrow> m w = (r, w') \<Longrightarrow> case r of Inl _ \<Rightarrow> E (WDb w') | Inr x \<Rightarrow> Q x (WDb w')) \<Longrightarrow> holds P m E Q"
  unfolding holds_def by (rule tripleI)

lemma holdsD:
  assumes "holds P m E Q" "m w = (r, w')" "P (WDb w)"
  shows "case r of Inl _ \<Rightarrow> E (WDb w') | Inr x \<Rightarrow> Q x (WDb w')"
  by (rule tripleD [OF assms(1) [unfolded holds_def] assms(2), OF assms(3)])

lemma holds_bind: "holds P m E R \<Longrightarrow> (\<And>x. holds (R x) (k x) E Q) \<Longrightarrow> holds P (bind_io m k) E Q"
  unfolding holds_def by (rule triple_bind)

lemma holds_db_quiet:
  assumes "db_quiet m" "\<And>d. P d \<Longrightarrow> E d" "\<And>x d. P d \<Longrightarrow> Q x d"
  shows "holds P m E Q"
  by (rule holdsI) (use assms db_quietD [OF assms(1)] in \<open>fastforce split: sum.splits\<close>)

lemmas holds_quiet = holds_db_quiet [OF db_quietI]

lemma holds_attempt: "holds P m (\<lambda>d. \<forall>e. Q (Inl e) d) (\<lambda>x. Q (Inr x)) \<Longrightarrow> holds P (attempt m) E Q"
  unfolding holds_def by (rule triple_attempt)

lemma holds_return: "(\<And>d. P d \<Longrightarrow> Q x d) \<Longrightarrow> holds P (return_io x) E Q"
  "(\<And>d. P d \<Longrightarrow> E d) \<Longrightarrow> holds P (fail_io e) E Q"
  unfolding holds_def by (simp_all add: triple_return)

lemma holds_then_fail: "holds P m E (\<lambda>_. E) \<Longrightarrow> holds P (bind_io m (\<lambda>_. fail_io e)) E Q"
  by (rule holds_bind) (auto intro: holds_return)

lemma holds_sum:
  "(\<And>e. r = Inl e \<Longrightarrow> holds P (f e) E Q) \<Longrightarrow> (\<And>x. r = Inr x \<Longrightarrow> holds P (g x) E Q) \<Longrightarrow>
   holds P (case r of Inl e \<Rightarrow> f e | Inr x \<Rightarrow> g x) E Q"
  by (cases r) auto

lemma holds_conseq:
  assumes "holds P m E Q" "\<And>d. P' d \<Longrightarrow> P d" "\<And>d. E d \<Longrightarrow> E' d" "\<And>x d. Q x d \<Longrightarrow> Q' x d"
  shows "holds P' m E' Q'"
  using assms unfolding holds_def by (auto intro: triple_conseq)

lemma holds_post: "holds P m E R \<Longrightarrow> (\<And>x d. R x d \<Longrightarrow> Q x d) \<Longrightarrow> holds P m E Q"
  by (rule holds_conseq)

lemma holds_pre: "holds P m E Q \<Longrightarrow> (\<And>d. P' d \<Longrightarrow> P d) \<Longrightarrow> holds P' m E Q"
  by (rule holds_conseq)

lemma holds_pull: "(A \<Longrightarrow> holds P m E Q) \<Longrightarrow> holds (\<lambda>d. A \<and> P d) m E Q"
  unfolding holds_def by (rule triple_pull)

lemma holds_weaken: "holds P m E Q \<Longrightarrow> (\<And>d. E d \<Longrightarrow> E' d) \<Longrightarrow> holds P m E' Q"
  by (rule holds_conseq)

section \<open>Marked operations\<close>

text \<open>What \<open>d'\<close> may be after an operation under the mark \<open>k\<close> that failed.\<close>

definition undone :: "string \<Rightarrow> db \<Rightarrow> db \<Rightarrow> bool" where
  "undone k d d' \<longleftrightarrow> d' = d \<or> marked k d d'"

lemma undone_simps:
  assumes "undone k d d'" "db_ok d"
  shows "db_ok d'" "abs_index d' = abs_index d" "d' = d \<or> needs_reindex d'"
  using assms marked_simps [of k d d'] by (auto simp: undone_def)

lemma undoneI: "marked k d d' \<Longrightarrow> undone k d d'" "undone k d d"
  by (simp_all add: undone_def)

lemma holds_get:
  assumes "db_ok d"
  shows "holds ((=) d) (get i) ((=) d) (\<lambda>b d'. (MID (Meta b) = i \<and> get_book i d = Inr b) \<and> d = d')"
  by (rule holdsI) (use get_cases [of i] get_book_id [OF assms, of i] in \<open>fastforce split: sum.splits\<close>)

lemma holds_mark: "holds ((=) d) (mark k) ((=) d) (\<lambda>op d'. op = Some k \<and> marked k d d')"
  by (rule holdsI) (erule mark_cases, auto simp: mark_marked)

lemma holds_cancel: "holds (marked k d) (cancel_op (Some k)) E (\<lambda>_. undone k d)"
  by (rule holdsI) (auto simp: undone_def dest!: cancel_cases)

lemma holds_quiet_marked: "quiet m \<Longrightarrow> holds (marked k d) m (undone k d) (\<lambda>_. marked k d)"
  "quiet m \<Longrightarrow> holds (marked k d) m (marked k d) (\<lambda>_. marked k d)"
  by (auto intro!: holds_quiet simp: undone_def)

text \<open>\<open>d'\<close> is \<open>d\<close> with the book written and every mark but the operation's own as it was.\<close>

definition put_into :: "db \<Rightarrow> book \<Rightarrow> db \<Rightarrow> bool" where
  "put_into d b d' \<longleftrightarrow> storable b \<and> db_ok d' \<and> PendingOps d' = PendingOps d \<and> BookIdSeq d' = BookIdSeq d \<and>
     (\<exists>obs. abs_index d' = (abs_index d)(MID (Meta b) \<mapsto> bare (recorded b obs)))"

definition deleted_from :: "db \<Rightarrow> int \<Rightarrow> db \<Rightarrow> bool" where
  "deleted_from d i d' \<longleftrightarrow> db_ok d' \<and> PendingOps d' = PendingOps d \<and> BookIdSeq d' = BookIdSeq d \<and>
     abs_index d' = (abs_index d)(i := None)"

lemma holds_op_put:
  assumes "db_ok d"
  shows "holds (marked k d) (db_call (op_put (Some k) b obs)) (marked k d) (\<lambda>_. put_into d b)"
  by (rule holdsI, drule (1) put_marked_cases [OF _ _ assms]) (auto simp: undone_def put_into_def split: sum.splits)

lemma holds_op_delete:
  assumes "db_ok d"
  shows "holds (marked k d) (db_call (op_delete (Some k) i)) (marked k d) (\<lambda>_. deleted_from d i)"
  by (rule holdsI, drule (1) delete_marked_cases [OF _ _ assms])
    (auto simp: undone_def deleted_from_def split: sum.splits)

lemma holds_event: "(\<And>w. WDb (f w) = WDb w) \<Longrightarrow> holds P (event f) E (\<lambda>_. P)"
  by (rule holdsI) (auto simp: event_def)

text \<open>The metadata of a book after edits: \<^verbatim>\<open>NewBook\<close> gives an empty status its default.\<close>

definition edited_meta :: "edits \<Rightarrow> book \<Rightarrow> meta \<Rightarrow> bool" where
  "edited_meta e b m \<longleftrightarrow> MID m = MID (Meta b) \<and> Tags m = or_else (EdTags e) (Tags (Meta b)) \<and>
     Rating m = or_else (EdRating e) (Rating (Meta b)) \<and>
     Status m = (let s = or_else (EdStatus e) (Status (Meta b)) in if s = [] then default_status else s)"

lemma holds_edit_marked:
  assumes "db_ok d" "hooks_ok l"
  shows "holds (marked k d) (edit_marked env l (Some k) b e) (undone k d)
    (\<lambda>b' d'. edited_meta e b (Meta b') \<and> put_into d b' d')"
  unfolding edit_marked_def Let_def
proof (rule holds_bind [OF holds_quiet_marked(1) [OF quiet_now]], rule holds_bind [OF holds_quiet_marked(1)], intro quiet_rules,
    rule holds_sum, goal_cases)
  case 1
  show ?case by (rule holds_then_fail, rule holds_post [OF holds_cancel])
next
  case (2 t r bib)
  let ?u = "\<lambda>t' obs. book_from_bib t' bib (apply_meta t (Meta b) e) (layout (Authors bib) (Title bib) (MID (apply_meta t (Meta b) e))) obs"
  have u: "edited_meta e b (Meta (?u t' obs))" for t' obs
    by (simp add: book_from_bib_def new_book_def apply_meta_def edited_meta_def Let_def)
  show ?case
    by (rule holds_bind [OF holds_quiet_marked(1) [OF quiet_update(1)]], rule holds_bind [OF holds_quiet_marked(1) [OF quiet_now]],
        rule holds_bind [OF holds_weaken [OF holds_op_put [OF assms(1)]]], simp add: undoneI, rule holds_bind [OF holds_event],
        use u in \<open>auto intro!: holds_return events_db assms\<close>)
qed

section \<open>Whole operations\<close>

lemma holds_edit:
  assumes "db_ok d" "hooks_ok l"
  shows "holds ((=) d) (edit env l k i e) (undone k d) (\<lambda>b d'. MID (Meta b) = i \<and> put_into d b d' \<and>
    (\<exists>b0. get_book i d = Inr b0 \<and> edited_meta (normalized e) b0 (Meta b)))"
  unfolding edit_def Let_def
proof (rule holds_bind [OF holds_weaken [OF holds_get [OF assms(1)]]], simp add: undoneI, rule holds_pull)
  fix b :: book assume i: "MID (Meta b) = i \<and> get_book i d = Inr b"
  show "holds ((=) d) (case validate (LangOk env) (normalized e) b of
       Some ve \<Rightarrow> fail_io (Rejected ve)
     | None \<Rightarrow> bind_io (mark k) (\<lambda>op. edit_marked env l op b (normalized e))) (undone k d)
     (\<lambda>b d'. MID (Meta b) = i \<and> put_into d b d' \<and>
       (\<exists>b0. get_book i d = Inr b0 \<and> edited_meta (normalized e) b0 (Meta b)))"
  proof (cases "validate (LangOk env) (normalized e) b")
    case None
    show ?thesis unfolding None option.case
      by (rule holds_bind [OF holds_weaken [OF holds_mark]], simp add: undoneI, rule holds_pull)
        (use i in \<open>auto simp: edited_meta_def intro!: holds_post [OF holds_edit_marked] assms\<close>)
  qed (simp add: undoneI holds_return)
qed

lemma holds_delete:
  assumes "db_ok d" "hooks_ok l"
  shows "holds ((=) d) (delete env l k i) (undone k d) (\<lambda>_. deleted_from d i)"
  unfolding delete_def
proof (rule holds_bind [OF holds_weaken [OF holds_get [OF assms(1)]]], simp add: undoneI, rule holds_pull)
  fix b :: book
  have m: "holds (marked k d) (delete_marked l (Some k) b i) (undone k d) (\<lambda>_. deleted_from d i)"
    unfolding delete_marked_def
    by (rule holds_bind [OF holds_quiet_marked(1) [OF quiet_store(4)]], rule holds_bind [OF holds_weaken [OF holds_op_delete [OF assms(1)]]], simp add: undoneI,
        rule holds_event [OF events_db(4) [OF assms(2)]])
  show "holds ((=) d) (bind_io (event (on_deleting env l b (Loc b))) (\<lambda>_. bind_io (mark k) (\<lambda>op. delete_marked l op b i)))
    (undone k d) (\<lambda>_. deleted_from d i)"
    by (rule holds_bind [OF holds_event [OF events_db(3) [OF assms(2)]]],
        rule holds_bind [OF holds_weaken [OF holds_mark]], simp add: undoneI, rule holds_pull) (simp add: m)
qed

text \<open>Ingesting draws an id before it marks: \<open>d1\<close> is the database after that.\<close>

lemma next_id_simps [simp]:
  "db_ok (snd (next_book_id d)) = db_ok d" "PendingOps (snd (next_book_id d)) = PendingOps d"
  "fst (next_book_id d) = BookIdSeq d + 1" "BookIdSeq (snd (next_book_id d)) = BookIdSeq d + 1"
  by (auto simp: next_book_id_def db_ok_def series_ok_def idents_ok_def book_ids_def)

lemma abs_index_next_id [simp]:
  assumes "db_ok d"
  shows "abs_index (snd (next_book_id d)) = abs_index d"
proof
  fix i
  have "shown (snd (next_book_id d)) = shown d"
    by (rule ext, rule shown_cong) (auto simp: idents_of_def next_book_id_def intro: row_series_same)
  moreover have "row_of i (snd (next_book_id d)) = row_of i d" by (simp add: row_of_def next_book_id_def)
  ultimately show "abs_index (snd (next_book_id d)) i = abs_index d i" using assms by (simp add: abs_index_shown)
qed

definition index_ok :: "db \<Rightarrow> bool" where
  "index_ok d \<longleftrightarrow> db_ok d \<and> (\<forall>i \<in> dom (abs_index d). i \<le> BookIdSeq d)"

lemma holds_ingest_marked:
  assumes "db_ok d" "hooks_ok l"
  shows "holds (marked k d) (ingest_marked env l (Some k) p bib m loc) (undone k d)
    (\<lambda>b d'. MID (Meta b) = MID m \<and> Title (Bib b) = Title bib \<and> Authors (Bib b) = Authors bib \<and> put_into d b d')"
    (is "holds _ _ _ ?Q")
  unfolding ingest_marked_def Let_def
proof (rule holds_bind [OF holds_attempt])
  let ?R = "\<lambda>r d'. case r of Inl e \<Rightarrow> marked k d d' | Inr b \<Rightarrow> ?Q b d'"
  show "holds (marked k d) (bind_io (store_ingest (TomlMarshal env) (LRoot l) p loc m) (\<lambda>mt.
        bind_io now_io (\<lambda>t. bind_io (db_call (op_put (Some k) (book_from_bib t bib m loc mt) mt))
        (\<lambda>_. return_io (book_from_bib t bib m loc mt))))) (\<lambda>d. \<forall>e. ?R (Inl e) d) (\<lambda>x. ?R (Inr x))"
    unfolding sum.case
    by (rule holds_bind [OF holds_weaken [OF holds_quiet_marked(2) [OF quiet_update(2)]]], simp,
        rule holds_bind [OF holds_weaken [OF holds_quiet_marked(2) [OF quiet_now]]], simp,
        rule holds_bind [OF holds_weaken [OF holds_op_put [OF assms(1)]]], simp, rule holds_return)
      (simp add: book_from_bib_def new_book_def)
  show "holds (?R r) (case r of Inl err \<Rightarrow>
           bind_io (attempt (store_delete (LRoot l) loc)) (\<lambda>rm. case rm of
               Inr _ \<Rightarrow> bind_io (cancel_op (Some k)) (\<lambda>_. fail_io err)
             | Inl _ \<Rightarrow> fail_io err)
       | Inr b \<Rightarrow> bind_io (event (on_ingested env l b loc)) (\<lambda>_. return_io b)) (undone k d) ?Q" for r
  proof (cases r)
    case (Inl err)
    show ?thesis unfolding Inl sum.case
      by (rule holds_bind [OF holds_quiet_marked(1)], intro quiet_rules)
        (auto split: sum.split intro!: holds_return holds_then_fail holds_cancel undoneI)
  next
    case (Inr b)
    show ?thesis unfolding Inr sum.case
      by (rule holds_bind [OF holds_event [OF events_db(1) [OF assms(2)]]], rule holds_return)
  qed
qed

lemma holds_db_read: "holds ((=) d) (db_read f) ((=) d) (\<lambda>x d'. x = f d \<and> d = d')"
  unfolding db_read_def by (rule holdsI, erule db_call_cases) auto

lemma holds_next_id:
  "holds ((=) d) (db_call (\<lambda>d. (Inr (fst (next_book_id d)), snd (next_book_id d)))) ((=) d)
     (\<lambda>i d'. i = BookIdSeq d + 1 \<and> snd (next_book_id d) = d')"
  by (rule holdsI, erule db_call_cases) auto

text \<open>What an ingest may leave when it fails, and what it has done when it succeeds.\<close>

definition ingest_undone :: "string \<Rightarrow> db \<Rightarrow> db \<Rightarrow> bool" where
  "ingest_undone k d d' \<longleftrightarrow> undone k d d' \<or> undone k (snd (next_book_id d)) d'"

definition ingested :: "db \<Rightarrow> book \<Rightarrow> db \<Rightarrow> bool" where
  "ingested d b d' \<longleftrightarrow> MID (Meta b) = BookIdSeq d + 1 \<and>
     (\<forall>b' \<in> ran (abs_index d). Title (Bib b') = Title (Bib b) \<longrightarrow>
        AName ` set (Authors (Bib b')) \<noteq> AName ` set (Authors (Bib b))) \<and>
     put_into (snd (next_book_id d)) b d'"

lemma ingest_undoneI: "undone k d d' \<Longrightarrow> ingest_undone k d d'" "ingest_undone k d d" "ingest_undone k d (snd (next_book_id d))"
    "undone k (snd (next_book_id d)) d' \<Longrightarrow> ingest_undone k d d'"
  by (simp_all add: ingest_undone_def undoneI)

lemma distinct_remdups_adj_sorted: "sorted xs \<Longrightarrow> distinct (remdups_adj xs)" for xs :: "string list"
  by (induction xs rule: remdups_adj.induct) (auto simp: less_le dest: order_antisym)

lemma remdups_adj_sorted_distinct: "distinct (remdups_adj (sort xs))" for xs :: "string list"
  by (simp add: distinct_remdups_adj_sorted)

lemma not_duplicate:
  assumes "db_ok d" "\<not> exists_book (Title bib) (author_names (Authors bib)) d"
  shows "\<forall>b' \<in> ran (abs_index d). Title (Bib b') = Title bib \<longrightarrow> AName ` set (Authors (Bib b')) \<noteq> AName ` set (Authors bib)"
  using assms(2) exists_book_iff [OF assms(1) remdups_adj_sorted_distinct, of "Title bib" "map AName (Authors bib)"]
  by (auto simp: author_names_def ran_def)

lemma holds_ingest_bib:
  assumes "db_ok d" "hooks_ok l"
  shows "holds ((=) d) (ingest_bib env l k p bib) (ingest_undone k d) (ingested d)"
  unfolding ingest_bib_def Let_def
proof (rule holds_bind [OF holds_weaken [OF holds_db_read]], simp add: ingest_undoneI, rule holds_pull)
  fix dupe assume dupe: "dupe = exists_book (Title bib) (author_names (Authors bib)) d"
  let ?d = "snd (next_book_id d)"
  have im: "holds (marked k ?d) (ingest_marked env l (Some k) p bib m loc) (ingest_undone k d) (ingested d)"
    if "\<not> dupe" "MID m = BookIdSeq d + 1" for m loc
    using that not_duplicate [OF assms(1), of bib] dupe assms
    by (intro holds_weaken [OF holds_post [OF holds_ingest_marked]]) (auto simp: ingest_undoneI ingested_def)
  have marked: "holds ((=) ?d) (bind_io (mark k) (\<lambda>op. ingest_marked env l op p bib m loc)) (ingest_undone k d) (ingested d)"
    if "\<not> dupe" "MID m = BookIdSeq d + 1" for m loc
    by (rule holds_bind [OF holds_weaken [OF holds_mark]], simp add: ingest_undoneI, rule holds_pull) (simp add: im that)
  show "holds ((=) d) (if dupe then fail_io (DuplicateBook (Title bib))
     else bind_io (path_taken (LRoot l) (Authors bib) (Title bib)) (\<lambda>taken.
       if taken then fail_io (DuplicateOnDisk (Title bib))
       else bind_io (db_call (\<lambda>d. (Inr (fst (next_book_id d)), snd (next_book_id d)))) (\<lambda>i.
         bind_io now_io (\<lambda>t. bind_io (mark k) (\<lambda>op. ingest_marked env l op p bib
           \<lparr>MID = i, DateAdded = t, DateModified = t, Status = [], Rating = Fin 0, Tags = []\<rparr>
           (layout (Authors bib) (Title bib) i)))))) (ingest_undone k d) (ingested d)"
  proof (cases dupe)
    case False
    have "holds ((=) d) (bind_io (db_call (\<lambda>d. (Inr (fst (next_book_id d)), snd (next_book_id d)))) (\<lambda>i.
         bind_io now_io (\<lambda>t. bind_io (mark k) (\<lambda>op. ingest_marked env l op p bib
           \<lparr>MID = i, DateAdded = t, DateModified = t, Status = [], Rating = Fin 0, Tags = []\<rparr>
           (layout (Authors bib) (Title bib) i))))) (ingest_undone k d) (ingested d)"
      by (rule holds_bind [OF holds_weaken [OF holds_next_id]], simp add: ingest_undoneI, rule holds_pull,
          rule holds_bind [OF holds_quiet [OF quiet_now], of "(=) ?d" _ "\<lambda>_. (=) ?d"])
        (auto simp: ingest_undoneI False intro!: marked)
    then show ?thesis using False
      by (auto intro!: holds_bind [OF holds_quiet [OF quiet_store(1)], of "(=) d" _ "\<lambda>_. (=) d"] holds_return
          simp: ingest_undoneI)
  qed (simp add: holds_return ingest_undoneI)
qed

lemma holds_quiet_same: "quiet m \<Longrightarrow> E d \<Longrightarrow> holds ((=) d) m E (\<lambda>_. (=) d)"
  by (rule holds_quiet) auto

lemma holds_finally: "holds P m E Q \<Longrightarrow> quiet c \<Longrightarrow> holds P (finally_io m c) E Q"
  using holds_quiet [of c] unfolding holds_def by (intro triple_finally) auto

lemma holds_ingest:
  assumes "db_ok d" "hooks_ok l"
  shows "holds ((=) d) (ingest env l k p) (ingest_undone k d) (ingested d)"
proof -
  have pp: "db_quiet (pre_parse (Hooks l) p hd)" for p hd
    using assms(2) by (intro db_quiet_pre_parse) (simp add: hooks_ok_def)
  have inner: "holds ((=) d) (ingest_path env l k p) (ingest_undone k d) (ingested d)"
    unfolding ingest_path_def
    by (rule holds_bind [OF holds_quiet_same], (intro quiet_rules), (rule ingest_undoneI),
        rule holds_finally,
        rule holds_bind [OF holds_db_quiet [OF pp], of "(=) d" _ "\<lambda>_. (=) d"], simp add: ingest_undoneI, assumption,
        rule holds_bind [OF holds_quiet_same [OF quiet_epub(1)]], rule ingest_undoneI,
        rule holds_bind [OF holds_quiet_same [OF quiet_from_res]], rule ingest_undoneI,
        rule holds_ingest_bib [OF assms], intro quiet_rules)
  let ?R = "\<lambda>r d'. case r of Inl e \<Rightarrow> ingest_undone k d d' | Inr b \<Rightarrow> ingested d b d'"
  show ?thesis unfolding ingest_def
  proof (rule holds_bind [OF holds_attempt, of _ _ ?R])
    show "holds ((=) d) (ingest_path env l k p) (\<lambda>d'. \<forall>e. ?R (Inl e) d') (\<lambda>x. ?R (Inr x))" using inner by simp
    show "holds (?R r) (bind_io (attempt (os_remove p)) (\<lambda>_. from_res r)) (ingest_undone k d) (ingested d)" for r
    proof (rule holds_bind [of _ _ _ "\<lambda>_. ?R r"])
      show "holds (?R r) (attempt (os_remove p)) (ingest_undone k d) (\<lambda>_. ?R r)"
        by (rule holds_attempt, rule holds_quiet) (intro quiet_rules, auto)
      show "holds (?R r) (from_res r) (ingest_undone k d) (ingested d)"
        by (cases r) (auto simp: from_res_def intro: holds_return)
    qed
  qed
qed

section \<open>A library to try the operations on\<close>

text \<open>Two directories and an upload in the inbox.\<close>

definition sample_library :: library where
  "sample_library = \<lparr>LRoot = ''/l'', InboxTemp = ''/i'', Hooks = []\<rparr>"

definition sample_upload :: string where
  "sample_upload = ''/i/u.epub''"

definition sample_world :: "fate list \<Rightarrow> db \<Rightarrow> world" where
  "sample_world fates d = \<lparr>FS = [([''l''], Dir), ([''i''], Dir), ([''i'', ''u.epub''], File [] 5)], Fates = fates,
     Clock = 7, Alive = True, WDb = d, WDocs = []\<rparr>"

definition sample_db :: db where
  "sample_db = (case put_book sample_book unobserved (snd (next_book_id (empty_tables [] schema_version))) of
     Inr d \<Rightarrow> d | Inl _ \<Rightarrow> empty_tables [] 0)"

lemma sample_library_ok [simp]: "hooks_ok sample_library"
  by (simp add: hooks_ok_def sample_library_def)

lemma sample_world_db [simp]: "WDb (sample_world fates d) = d"
  by (simp add: sample_world_def)

section \<open>What operations promise\<close>

lemma index_ok_next: "index_ok d \<Longrightarrow> index_ok (snd (next_book_id d))"
  by (auto simp: index_ok_def) (meson domI order.trans zle_add1_eq_le less_imp_le)

lemma index_ok_marked: "index_ok d \<Longrightarrow> marked k d d' \<Longrightarrow> index_ok d'"
  by (auto simp: index_ok_def marked_simps) (auto simp: marked_def)

lemma index_ok_undone:
  assumes "index_ok d"
  shows "undone k d d' \<Longrightarrow> index_ok d'" "ingest_undone k d d' \<Longrightarrow> index_ok d'"
  using index_ok_marked [OF assms] index_ok_marked [OF index_ok_next [OF assms]] index_ok_next [OF assms] assms
  by (auto simp: undone_def ingest_undone_def)

lemma index_ok_put:
  assumes "index_ok d" "put_into d b d'" "MID (Meta b) \<le> BookIdSeq d"
  shows "index_ok d'"
  using assms by (auto simp: index_ok_def put_into_def)

lemma sample_db_ok: "index_ok sample_db" "abs_index sample_db 1 \<noteq> None"
  "\<exists>b. get_book 1 sample_db = Inr b \<and> Loc b = Loc sample_book \<and> Status (Meta b) = ''unread''"
proof -
  let ?e = "empty_tables [] schema_version"
  have "abs_index ?e = Map.empty"
    by (rule ext) (simp add: abs_index_shown [OF db_ok_empty] row_of_def, simp add: empty_tables_def)
  then have ok: "index_ok (snd (next_book_id ?e))" by (intro index_ok_next) (simp add: index_ok_def db_ok_empty)
  then have put: "put_into (snd (next_book_id ?e)) sample_book sample_db"
    using put_book_cases [of "snd (next_book_id ?e)" sample_book unobserved]
    by (auto simp: put_into_def sample_db_def index_ok_def)
  have "BookIdSeq ?e = 0" by (simp add: empty_tables_def)
  then show "index_ok sample_db" by (intro index_ok_put [OF ok put]) simp
  show i: "abs_index sample_db 1 \<noteq> None" using put by (auto simp: put_into_def)
  then obtain b where b: "get_book 1 sample_db = Inr b" by (auto simp: abs_index_def split: sum.splits)
  then have "\<exists>obs. bare b = bare (recorded sample_book obs)"
    using put by (auto simp: put_into_def abs_index_def dest!: fun_cong [of _ _ 1] split: sum.splits)
  then obtain obs where "bare b = bare (recorded sample_book obs)" by blast
  then have "Loc (bare b) = Loc (bare (recorded sample_book obs))" "Status (Meta (bare b)) = Status (Meta (bare (recorded sample_book obs)))" by simp_all
  with b show "\<exists>b. get_book 1 sample_db = Inr b \<and> Loc b = Loc sample_book \<and> Status (Meta b) = ''unread''"
    by (auto simp: bare_def recorded_def sample_book_def)
qed

text \<open>C1: whatever call fails and wherever the machine stops, an edit commits its book and takes back
  its mark, or the index answers as before, and then it either is exactly as before or asks for a
  rebuild at the next start.\<close>

theorem edit_commits_or_marks:
  assumes "edit env l k i e w = (r, w')" "index_ok (WDb w)" "hooks_ok l"
  shows "index_ok (WDb w') \<and> (case r of
      Inr b \<Rightarrow> MID (Meta b) = i \<and> storable b \<and> PendingOps (WDb w') = PendingOps (WDb w) \<and>
        (\<exists>obs. abs_index (WDb w') = (abs_index (WDb w))(i \<mapsto> bare (recorded b obs)))
    | Inl _ \<Rightarrow> abs_index (WDb w') = abs_index (WDb w) \<and> (WDb w' = WDb w \<or> needs_reindex (WDb w')))"
proof -
  have ok: "db_ok (WDb w)" using assms(2) by (simp add: index_ok_def)
  have "MID (Meta b) = i \<Longrightarrow> i \<in> dom (abs_index (WDb w))" if inr: "r = Inr b" for b
  proof -
    from assms(1) obtain b0 w1 where "get i w = (Inr b0, w1)"
      unfolding edit_def using inr by (elim bind_io_cases) auto
    then show ?thesis using get_cases [of i w "Inr b0"] by (auto simp: abs_index_def)
  qed
  moreover have "i \<in> dom (abs_index (WDb w)) \<Longrightarrow> i \<le> BookIdSeq (WDb w)" using assms(2) by (simp add: index_ok_def)
  ultimately have "index_ok (WDb w')"
    using holdsD [OF holds_edit [OF ok assms(3)] assms(1)] index_ok_undone(1) [OF assms(2)] index_ok_put [OF assms(2)]
    by (cases r) auto
  then show ?thesis using holdsD [OF holds_edit [OF ok assms(3)] assms(1)] undone_simps [OF _ ok]
    by (cases r) (auto simp: put_into_def)
qed

theorem edit_commits_or_marks_witness:
  "\<exists>r w'. edit sample_env sample_library ''k'' 1 no_edits (sample_world [Works, Crashes] sample_db) = (r, w') \<and> index_ok (WDb w') \<and> abs_index (WDb (sample_world [] sample_db)) 1 \<noteq> None"
proof -
  obtain r w' where r: "edit sample_env sample_library ''k'' 1 no_edits (sample_world [Works, Crashes] sample_db) = (r, w')"
    by (cases "edit sample_env sample_library ''k'' 1 no_edits (sample_world [Works, Crashes] sample_db)")
  from edit_commits_or_marks [OF r] show ?thesis using r sample_db_ok by auto
qed

text \<open>C3: the same for a delete: on success the book is gone from the index and every other book and
  every other mark is as before; on a failure the index answers as before and, unless it is untouched,
  asks for a rebuild.\<close>

theorem delete_commits_or_marks:
  assumes "delete env l k i w = (r, w')" "index_ok (WDb w)" "hooks_ok l"
  shows "index_ok (WDb w') \<and> (case r of
      Inr _ \<Rightarrow> abs_index (WDb w') = (abs_index (WDb w))(i := None) \<and> PendingOps (WDb w') = PendingOps (WDb w)
    | Inl _ \<Rightarrow> abs_index (WDb w') = abs_index (WDb w) \<and> (WDb w' = WDb w \<or> needs_reindex (WDb w')))"
proof -
  have ok: "db_ok (WDb w)" using assms(2) by (simp add: index_ok_def)
  from holdsD [OF holds_delete [OF ok assms(3)] assms(1)] assms(2) undone_simps [OF _ ok] index_ok_undone(1) [OF assms(2)]
  show ?thesis by (cases r) (auto simp: deleted_from_def index_ok_def)
qed

theorem delete_commits_or_marks_witness:
  "\<exists>r w'. delete sample_env sample_library ''k'' 1 (sample_world [Works, Works, Fails] sample_db) = (r, w') \<and> index_ok (WDb w') \<and> abs_index (WDb (sample_world [] sample_db)) 1 \<noteq> None"
proof -
  obtain r w' where r: "delete sample_env sample_library ''k'' 1 (sample_world [Works, Works, Fails] sample_db) = (r, w')"
    by (cases "delete sample_env sample_library ''k'' 1 (sample_world [Works, Works, Fails] sample_db)")
  from delete_commits_or_marks [OF r] show ?thesis using r sample_db_ok by auto
qed




end
