(* ===== verification/Reindex_Safe.thy ===== *)
theory Reindex_Safe
  imports Library_Safe
begin

text \<open>
  Rebuilding the index from the store: the order in which the scan's goroutines record what they found
  does not matter, every directory is accounted for, two directories with one id are reported, and a
  rebuild that fails or is cut short leaves an index that is rebuilt at the next start.
\<close>

section \<open>Recording\<close>

definition record_all :: "(location \<times> finding) list \<Rightarrow> scan_state \<Rightarrow> scan_state" where
  "record_all xs s = fold (\<lambda>(e, f). record_finding e f) xs s"

fun found_id :: "location \<times> finding \<Rightarrow> int option" where
  "found_id (e, Unreadable obs) = id_from_path (loc_dir e)"
| "found_id (e, Skipped i obs) = Some i"
| "found_id (e, Indexed b obs) = Some (MID (Meta b))"

definition found_books :: "(location \<times> finding) list \<Rightarrow> book_path list" where
  "found_books xs = concat (map (\<lambda>x. case snd x of Indexed b obs \<Rightarrow> [(b, obs)] | _ \<Rightarrow> []) xs)"

definition found_skips :: "(location \<times> finding) list \<Rightarrow> (string \<times> path_info) list" where
  "found_skips xs = concat (map (\<lambda>x. case snd x of Indexed b obs \<Rightarrow> []
     | Unreadable obs \<Rightarrow> [(EpubPath (fst x), obs)] | Skipped i obs \<Rightarrow> [(EpubPath (fst x), obs)]) xs)"

definition found_ids :: "(location \<times> finding) list \<Rightarrow> int list" where
  "found_ids xs = concat (map (\<lambda>x. case found_id x of None \<Rightarrow> [] | Some i \<Rightarrow> [i]) xs)"

text \<open>What the scan says of an entry: the book it indexes is at that entry.\<close>

definition consistent :: "(location \<times> finding) list \<Rightarrow> bool" where
  "consistent xs \<longleftrightarrow> (\<forall>x \<in> set xs. case snd x of Indexed b obs \<Rightarrow> Loc b = fst x | _ \<Rightarrow> True)"

lemmas found_defs = found_books_def found_skips_def found_ids_def

lemma record_simps [simp]:
  "SIndexed (scan_skip p obs s) = SIndexed s" "SMaxID (scan_skip p obs s) = SMaxID s"
  "SIndexed (scan_add b s) = SIndexed s @ [b]" "SMaxID (scan_add b s) = SMaxID s"
  "SUnindexed (scan_add b s) = SUnindexed s"
  "SIndexed (reserve_id i s) = SIndexed s" "SUnindexed (reserve_id i s) = SUnindexed s"
  "SMaxID (reserve_id i s) = max (SMaxID s) i"
  "SIndexed empty_scan = []" "SUnindexed empty_scan = []" "SMaxID empty_scan = 0"
  by (simp_all add: scan_skip_def scan_add_def reserve_id_def empty_scan_def)

lemma record_all_indexed: "SIndexed (record_all xs s) = SIndexed s @ found_books xs"
  by (induction xs arbitrary: s)
     (auto simp: record_all_def found_books_def record_finding_def split: finding.splits option.splits)

lemma record_all_max: "SMaxID (record_all xs s) = fold max (found_ids xs) (SMaxID s)"
  by (induction xs arbitrary: s)
     (auto simp: record_all_def found_ids_def record_finding_def max.commute split: finding.splits option.splits)

lemma record_all_skips:
  "distinct (map fst (SUnindexed s) @ map (EpubPath \<circ> fst) xs) \<Longrightarrow>
   SUnindexed (record_all xs s) = SUnindexed s @ found_skips xs"
proof (induction xs arbitrary: s)
  case (Cons x xs)
  obtain e f where x: "x = (e, f)" by (cases x)
  have skip: "SUnindexed (scan_skip (EpubPath e) obs t) = SUnindexed s @ [(EpubPath e, obs)]"
    if "SUnindexed t = SUnindexed s" for obs t
    using Cons.prems that x by (force simp: scan_skip_def intro!: filter_True)
  have "SUnindexed (record_finding e f s) = SUnindexed s @ found_skips [x]"
    by (cases f) (auto simp: record_finding_def skip found_skips_def x split: option.splits)
  with Cons.prems Cons.IH [of "record_finding e f s"] x show ?case
    by (auto simp: record_all_def found_skips_def split: finding.splits)
qed (simp add: record_all_def found_skips_def)

lemma fold_max_ge: "(m :: int) \<le> fold max is m \<and> (\<forall>i \<in> set is. i \<le> fold max is m)"
proof (induction "is" arbitrary: m)
  case (Cons i "is")
  then show ?case using Cons.IH [of "max i m"] by (auto intro: order_trans [of _ "max i m"])
qed simp

lemma mset_concat_map: "mset (concat (map f xs)) = (\<Sum>x\<in>#mset xs. mset (f x))"
  by (induction xs) simp_all

lemma found_mset:
  assumes "mset xs = mset ys"
  shows "mset (found_books xs) = mset (found_books ys)" "mset (found_skips xs) = mset (found_skips ys)"
    "mset (found_ids xs) = mset (found_ids ys)"
  by (simp_all add: found_defs mset_concat_map assms)

section \<open>What a scan returns\<close>

lemma found_Nil [simp]: "found_books [] = []" "found_skips [] = []" "found_ids [] = []"
  by (simp_all add: found_defs)

lemma scan_find_returns:
  assumes "scan_find env l known e w = (Inr f, w')"
  shows "consistent [(e, f)]"
  using assms unfolding scan_find_def Let_def
  by (elim bind_io_cases) (auto simp: attempt_Inr return_io_def consistent_def book_from_bib_def new_book_def
      split: sum.splits elim!: bind_io_cases)

lemma scan_entries_returns:
  "scan_entries env l known es s w = (Inr s', w') \<Longrightarrow>
   \<exists>fs. length fs = length es \<and> s' = record_all (zip es fs) s \<and> consistent (zip es fs)"
proof (induction es arbitrary: s w)
  case Nil
  then show ?case by (simp add: return_io_def record_all_def consistent_def)
next
  case (Cons e es)
  from Cons.prems obtain f w1 where f: "scan_find env l known e w = (Inr f, w1)"
    "scan_entries env l known es (record_finding e f s) w1 = (Inr s', w')"
    by (auto simp: scan_entry_def return_io_def elim!: bind_io_cases)
  from Cons.IH [OF f(2)] obtain fs where "length fs = length es" "s' = record_all (zip es fs) (record_finding e f s)"
    "consistent (zip es fs)" by blast
  with scan_find_returns [OF f(1)] show ?case
    by (intro exI [of _ "f # fs"]) (cases f; simp add: record_all_def consistent_def)
qed

fun is_indexed :: "finding \<Rightarrow> bool" where
  "is_indexed (Indexed b obs) = True"
| "is_indexed _ = False"

lemma found_books_at:
  assumes "consistent xs"
  shows "map (\<lambda>bp. EpubPath (Loc (fst bp))) (found_books xs) =
    map (EpubPath \<circ> fst) (filter (\<lambda>x. is_indexed (snd x)) xs)"
  using assms
proof (induction xs)
  case (Cons x xs)
  then show ?case by (cases "snd x") (auto simp: found_books_def consistent_def)
qed simp

lemma found_skips_at:
  "map fst (found_skips xs) =
    map (EpubPath \<circ> fst) (filter (\<lambda>x. \<not> is_indexed (snd x)) xs)"
  by (induction xs) (auto simp: found_skips_def split: finding.splits)

lemma found_books_distinct:
  assumes "consistent xs" "distinct (map (EpubPath \<circ> fst) xs)"
  shows "distinct (map (\<lambda>bp. EpubPath (Loc (fst bp))) (found_books xs))" "distinct (map fst (found_skips xs))"
  using assms by (simp_all add: found_books_at found_skips_at distinct_map_filter del: map_map)

lemma found_books_in: "(b, obs) \<in> set (found_books xs) \<longleftrightarrow> (\<exists>e. (e, Indexed b obs) \<in> set xs)"
  by (induction xs) (auto simp: found_books_def split: finding.splits)

lemma found_skips_in: "p \<in> fst ` set (found_skips xs) \<longleftrightarrow> (\<exists>e f. (e, f) \<in> set xs \<and> EpubPath e = p \<and> \<not> is_indexed f)"
proof -
  have "p \<in> fst ` set (found_skips xs) \<longleftrightarrow> p \<in> set (map fst (found_skips xs))" by simp
  also have "\<dots> \<longleftrightarrow> (\<exists>x \<in> set xs. EpubPath (fst x) = p \<and> \<not> is_indexed (snd x))"
    unfolding found_skips_at by auto
  finally show ?thesis by force
qed

section \<open>Claims about scanning\<close>

text \<open>Two directories whose sidecars cannot be read.\<close>

definition sample_entries :: "location list" where
  "sample_entries = [\<lparr>EpubPath = ''A/T (1)/x.epub''\<rparr>, \<lparr>EpubPath = ''B/U (2)/y.epub''\<rparr>]"

definition sample_scanned :: scan_state where
  "sample_scanned = \<lparr>SIndexed = [],
     SUnindexed = [(''A/T (1)/x.epub'', unobserved), (''B/U (2)/y.epub'', unobserved)], SMaxID = 2\<rparr>"

lemma sample_scan:
  obtains w' where "scan_entries sample_env sample_library [] sample_entries empty_scan
    (sample_world [] (empty_tables [] 0)) = (Inr sample_scanned, w')"
proof -
  have "fst (scan_entries sample_env sample_library [] sample_entries empty_scan
    (sample_world [] (empty_tables [] 0))) = Inr sample_scanned" by code_simp
  then show thesis using that by (metis prod.collapse)
qed


text \<open>C9: the order in which the scan records what it found does not matter: for any other order of the
  same findings the books sorted by path, the highest id reserved and the paths skipped are the same, so
  the rebuild is given the same and the same duplicate is reported.\<close>

theorem scan_order_irrelevant:
  assumes "scan_entries env l known es empty_scan w = (Inr s, w')" "distinct (map EpubPath es)"
  shows "\<exists>fs. length fs = length es \<and> s = record_all (zip es fs) empty_scan \<and>
    (\<forall>xs. mset xs = mset (zip es fs) \<longrightarrow>
      (let t = record_all xs empty_scan in
       SIndexed (sort_indexed t) = SIndexed (sort_indexed s) \<and> SMaxID t = SMaxID s \<and>
       map_of (SUnindexed t) = map_of (SUnindexed s)))"
proof -
  from scan_entries_returns [OF assms(1)] obtain fs where fs: "length fs = length es"
    "s = record_all (zip es fs) empty_scan" "consistent (zip es fs)" by blast
  have d: "distinct (map (EpubPath \<circ> fst) (zip es fs))" using assms(2) fs(1) by (simp flip: map_map)
  have "let t = record_all xs empty_scan in
       SIndexed (sort_indexed t) = SIndexed (sort_indexed s) \<and> SMaxID t = SMaxID s \<and>
       map_of (SUnindexed t) = map_of (SUnindexed s)" if p: "mset xs = mset (zip es fs)" for xs
  proof -
    have dx: "distinct (map (EpubPath \<circ> fst) xs)"
      using d p by (metis mset_eq_imp_distinct_iff mset_map)
    have "inj_on (\<lambda>bp. EpubPath (Loc (fst bp))) (set (found_books xs))"
      using found_books_distinct(1) [OF fs(3) d] set_mset_mset found_mset(1) [OF p]
      by (metis distinct_map)
    then have "SIndexed (sort_indexed (record_all xs empty_scan)) = SIndexed (sort_indexed s)"
      by (simp add: sort_indexed_def record_all_indexed fs(2) sort_key_eq_sort_key [OF found_mset(1) [OF p]])
    moreover have "SMaxID (record_all xs empty_scan) = SMaxID s"
      unfolding fs(2) record_all_max
      by (rule fun_cong [OF fold_multiset_equiv [OF _ found_mset(3) [OF p]]]) (simp add: fun_eq_iff max.left_commute)
    moreover have "map_of (SUnindexed (record_all xs empty_scan)) = map_of (SUnindexed s)"
    proof -
      have "distinct (map fst (found_skips xs))"
        using found_books_distinct(2) [OF fs(3) d] found_mset(2) [OF p] by (metis mset_eq_imp_distinct_iff mset_map)
      moreover have "set (found_skips xs) = set (found_skips (zip es fs))"
        using found_mset(2) [OF p] by (metis set_mset_mset)
      ultimately have "map_of (found_skips xs) = map_of (found_skips (zip es fs))"
        using map_of_inject_set found_books_distinct(2) [OF fs(3) d] by blast
      then show ?thesis using d dx by (simp add: fs(2) record_all_skips)
    qed
    ultimately show ?thesis by (simp add: Let_def)
  qed
  with fs show ?thesis by blast
qed

theorem scan_order_irrelevant_witness:
  "\<exists>fs. length fs = 2 \<and> sample_scanned = record_all (zip sample_entries fs) empty_scan \<and>
    (\<forall>xs. mset xs = mset (zip sample_entries fs) \<longrightarrow> SMaxID (record_all xs empty_scan) = 2)"
proof -
  obtain w' where w: "scan_entries sample_env sample_library [] sample_entries empty_scan
    (sample_world [] (empty_tables [] 0)) = (Inr sample_scanned, w')" by (rule sample_scan)
  have "distinct (map EpubPath sample_entries)" by (simp add: sample_entries_def)
  moreover have "length sample_entries = 2" "SMaxID sample_scanned = 2"
    by (simp_all add: sample_entries_def sample_scanned_def)
  ultimately show ?thesis using scan_order_irrelevant [OF w] by (auto simp: Let_def)
qed



section \<open>Duplicate ids\<close>

lemma find_duplicate_None:
  "find_duplicate owners bps = None \<longleftrightarrow>
   distinct (map (\<lambda>bp. MID (Meta (fst bp))) bps) \<and> (\<forall>bp \<in> set bps. map_of owners (MID (Meta (fst bp))) = None)"
proof (induction bps arbitrary: owners)
  case (Cons b bps)
  then show ?case
    by (cases "map_of owners (MID (Meta (fst b)))") (auto simp: Let_def image_iff split: if_splits)
qed simp

lemma find_duplicate_Some:
  assumes "find_duplicate owners bps = Some e"
  shows "\<exists>ys bp zs p. bps = ys @ bp # zs \<and> e = DuplicateId (MID (Meta (fst bp))) p (EpubPath (Loc (fst bp))) \<and>
    map_of (rev (map (\<lambda>bp. (MID (Meta (fst bp)), EpubPath (Loc (fst bp)))) ys) @ owners) (MID (Meta (fst bp))) = Some p"
  using assms
proof (induction bps arbitrary: owners)
  case (Cons b bps)
  let ?o = "(MID (Meta (fst b)), EpubPath (Loc (fst b))) # owners"
  show ?case
  proof (cases "map_of owners (MID (Meta (fst b)))")
    case None
    with Cons.prems have "find_duplicate ?o bps = Some e" by (simp add: Let_def)
    from Cons.IH [OF this] obtain ys bp zs p where "bps = ys @ bp # zs"
      "e = DuplicateId (MID (Meta (fst bp))) p (EpubPath (Loc (fst bp)))"
      "map_of (rev (map (\<lambda>bp. (MID (Meta (fst bp)), EpubPath (Loc (fst bp)))) ys) @ ?o) (MID (Meta (fst bp))) = Some p"
      by blast
    then show ?thesis by (intro exI [of _ "b # ys"] exI [of _ bp] exI [of _ zs] exI [of _ p]) simp
  next
    case (Some p)
    with Cons.prems show ?thesis by (intro exI [of _ "[]"] exI [of _ b] exI [of _ bps] exI [of _ p]) (simp add: Let_def)
  qed
qed simp

lemma check_duplicate_ids_ok: "check_duplicate_ids s w = (Inr s', w') \<Longrightarrow> s' = sort_indexed s \<and> w' = w"
  by (auto simp: check_duplicate_ids_def Let_def return_io_def fail_io_def split: option.splits)


section \<open>Rebuilding\<close>

text \<open>The id sequence is past every row of the table that holds it.\<close>

definition seq_sound :: "db \<Rightarrow> bool" where
  "seq_sound d \<longleftrightarrow> seq_ok d \<and> 0 \<le> BookIdSeq d"

text \<open>A database a rebuild may leave after it started at \<open>d\<close>.\<close>

definition rebuilt_to :: "book_path list \<Rightarrow> (string \<times> path_info) list \<Rightarrow> int \<Rightarrow> db \<Rightarrow> bool" where
  "rebuilt_to bs skipped m d' \<longleftrightarrow> rebuildable bs skipped \<and> db_ok d' \<and> seq_sound d' \<and> abs_index d' = rebuilt bs \<and>
     PendingOps d' = [] \<and> m \<le> BookIdSeq d'"

lemma seq_sound_schema: "seq_sound d \<Longrightarrow> seq_sound (ensure_schema d)"
  by (simp add: seq_sound_def seq_ok_def ensure_schema_def empty_tables_def)

lemma seq_sound_simps [simp]: "seq_sound (d\<lparr>PendingOps := x\<rparr>) = seq_sound d" "seq_sound (d\<lparr>UserVersion := v\<rparr>) = seq_sound d"
  by (simp_all add: seq_sound_def seq_ok_def)

lemma rebuild_body_marked:
  assumes "marked k d d1" "seq_sound d" "rebuild_body bs skipped m d1 = (q, d')"
  shows "case q of Inl _ \<Rightarrow> d' = d1 | Inr _ \<Rightarrow> rebuilt_to bs skipped m d'"
proof -
  have fresh: "k \<notin> set (PendingOps d)" and d1: "d1 = d\<lparr>PendingOps := PendingOps d @ [k]\<rparr>"
    using assms(1) by (simp_all add: marked_def)
  have tx: "rebuild_tx k bs skipped m d = (q, d')"
  proof -
    have "insert_pending_op k d = Inr d1" using fresh d1 by (simp add: insert_pending_Inr)
    with assms(3) show ?thesis by (simp add: rebuild_tx_def)
  qed
  show ?thesis
  proof (cases "rebuildable bs skipped")
    case False
    with rebuild_tx_cases [OF fresh, of bs skipped m] tx d1 show ?thesis by auto
  next
    case True
    with rebuild_tx_cases [OF fresh, of bs skipped m] tx assms(2) show ?thesis
      by (auto simp: rebuilt_to_def seq_sound_def seq_ok_def not_less split: if_splits)
  qed
qed

lemma holds_call:
  assumes "\<And>d q d'. P d \<Longrightarrow> f d = (q, d') \<Longrightarrow> case q of Inl _ \<Rightarrow> E d' | Inr x \<Rightarrow> Q x d'" "\<And>d. P d \<Longrightarrow> E d"
  shows "holds P (db_call f) E Q"
proof (rule holdsI)
  fix w r w' assume p: "P (WDb w)" and r: "db_call f w = (r, w')"
  from r show "case r of Inl _ \<Rightarrow> E (WDb w') | Inr x \<Rightarrow> Q x (WDb w')"
    by (cases rule: db_call_cases) (use assms(1) [OF p] assms(2) [OF p] in \<open>auto split: sum.splits\<close>)
qed

text \<open>After a failure the index is as it was, asks for a rebuild, or has been rebuilt.\<close>

definition rebuild_failed :: "book_path list \<Rightarrow> (string \<times> path_info) list \<Rightarrow> int \<Rightarrow> db \<Rightarrow> db \<Rightarrow> bool" where
  "rebuild_failed bs skipped m d d' \<longleftrightarrow> d' = d \<or> needs_reindex d' \<or> rebuilt_to bs skipped m d'"

lemma holds_rebuild_index:
  assumes "seq_sound d"
  shows "holds ((=) d) (rebuild_index k bs skipped m) (rebuild_failed bs skipped m d)
    (\<lambda>_ d'. rebuilt_to bs skipped m d' \<and> \<not> needs_reindex d')"
  unfolding rebuild_index_def
proof (rule holds_bind [where R = "\<lambda>_. (=) (ensure_schema d)"], goal_cases)
  case 1
  show ?case by (rule holds_call) (auto simp: rebuild_failed_def)
next
  case 2
  have fail: "rebuild_failed bs skipped m d (ensure_schema d)"
    using ensure_schema_keeps [of d] by (cases "UserVersion d = schema_version") (auto simp: rebuild_failed_def needs_reindex_def)
  have step: "holds ((=) (ensure_schema d)) (db_call (\<lambda>d. case insert_pending_op k d of Inl e \<Rightarrow> (Inl e, d) | Inr d' \<Rightarrow> (Inr (), d')))
      (rebuild_failed bs skipped m d) (\<lambda>_. marked k (ensure_schema d))"
    by (rule holds_call) (use fail in \<open>auto simp: marked_def insert_pending_Inr split: sum.splits\<close>)
  have body: "holds (marked k (ensure_schema d)) (db_call (rebuild_body bs skipped m)) (rebuild_failed bs skipped m d)
      (\<lambda>_. rebuilt_to bs skipped m)"
  proof (rule holds_call)
    fix d1 q d' assume "marked k (ensure_schema d) d1" "rebuild_body bs skipped m d1 = (q, d')"
    with rebuild_body_marked [OF this(1) seq_sound_schema [OF assms] this(2)] marked_simps(2)
    show "case q of Inl _ \<Rightarrow> rebuild_failed bs skipped m d d' | Inr x \<Rightarrow> rebuilt_to bs skipped m d'"
      by (auto simp: rebuild_failed_def split: sum.splits)
  qed (simp add: rebuild_failed_def marked_simps(2))
  have version: "holds (rebuilt_to bs skipped m) (db_call (\<lambda>d. (Inr (), d\<lparr>UserVersion := schema_version\<rparr>)))
      (rebuild_failed bs skipped m d) (\<lambda>_ d'. rebuilt_to bs skipped m d' \<and> \<not> needs_reindex d')"
    by (rule holds_call) (auto simp: rebuild_failed_def rebuilt_to_def needs_reindex_def count_pending_ops_def)
  have analyze: "holds (\<lambda>d'. rebuilt_to bs skipped m d' \<and> \<not> needs_reindex d') (db_call (\<lambda>d. (Inr (), d)))
      (rebuild_failed bs skipped m d) (\<lambda>_ d'. rebuilt_to bs skipped m d' \<and> \<not> needs_reindex d')"
    by (rule holds_call) (auto simp: rebuild_failed_def)
  show ?case by (rule holds_bind [OF step], rule holds_bind [OF body], rule holds_bind [OF version], rule analyze)
qed

section \<open>The whole rebuild\<close>

lemma quiet_scan [quiet_rules]: "quiet (scan_find env l known e)" "quiet (scan_entries env l known es s)"
proof -
  show q: "quiet (scan_find env l known e)" for e
    unfolding scan_find_def path_info_of_def Let_def by (intro quiet_rules)
  show "quiet (scan_entries env l known es s)"
    by (induction es arbitrary: s) (auto simp: scan_entry_def intro!: quiet_rules q)
qed

lemma quiet_check [quiet_rules]: "quiet (check_duplicate_ids s)"
  unfolding check_duplicate_ids_def Let_def by (intro quiet_rules)

lemma quiet_canonical [quiet_rules]: "quiet (move_to_canonical l bps)"
proof (induction bps)
  case (Cons bp bps)
  then show ?case by (cases bp) (auto simp: Let_def intro!: quiet_rules)
qed (simp add: quiet_return)

text \<open>\<open>moved bps bps'\<close>: the same books in the same order, except where they are.\<close>

definition moved_books :: "book_path list \<Rightarrow> book_path list \<Rightarrow> bool" where
  "moved_books bps bps' \<longleftrightarrow> list_all2 (\<lambda>x y. snd y = snd x \<and>
     (fst y = fst x \<or> fst y = (fst x)\<lparr>Loc := layout (Authors (Bib (fst x))) (Title (Bib (fst x))) (MID (Meta (fst x)))\<rparr>)) bps bps'"

lemma move_to_canonical_books:
  "move_to_canonical l bps w = (Inr bps', w') \<Longrightarrow> moved_books bps bps'"
proof (induction bps arbitrary: bps' w)
  case (Cons bp bps)
  obtain b obs where bp: "bp = (b, obs)" by (cases bp)
  from Cons.prems [unfolded bp] obtain b' w1 rest where "move_to_canonical l bps w1 = (Inr rest, w')"
    "bps' = (b', obs) # rest"
    "b' = b \<or> b' = b\<lparr>Loc := layout (Authors (Bib b)) (Title (Bib b)) (MID (Meta b))\<rparr>"
    by (auto simp: Let_def return_io_def attempt_Inr elim!: bind_io_cases split: if_splits sum.splits)
  with Cons.IH show ?case by (auto simp: moved_books_def bp)
qed (simp add: moved_books_def return_io_def)

lemma moved_books_ids: "moved_books bps bps' \<Longrightarrow> map (\<lambda>x. MID (Meta (fst x))) bps' = map (\<lambda>x. MID (Meta (fst x))) bps"
  unfolding moved_books_def by (induction rule: list_all2_induct) auto

lemma walk_dirs_bind:
  "walk_dirs rt (p # ps) skip entries =
     (if (case skip of None \<Rightarrow> False | Some s \<Rightarrow> prefix s p) then walk_dirs rt ps skip entries
      else bind_io (attempt (os_stat (join_path [path_string p, meta_filename]))) (\<lambda>r. case r of
          Inl _ \<Rightarrow> bind_io (os_read_dir (path_string p)) (\<lambda>_. walk_dirs rt ps skip entries)
        | Inr _ \<Rightarrow> bind_io (attempt (find_epub (path_string p))) (\<lambda>r. case r of
            Inl _ \<Rightarrow> walk_dirs rt ps (Some p) entries
          | Inr n \<Rightarrow> walk_dirs rt ps (Some p) (entries @ [\<lparr>EpubPath = join_path [rel_path rt p, n]\<rparr>]))))"
  by (rule ext) (auto simp: bind_io_def attempt_def split: prod.split sum.split option.split)

lemma quiet_walk_dirs: "quiet (walk_dirs rt ps skip entries)"
proof (induction ps arbitrary: skip entries)
  case (Cons p ps)
  show ?case unfolding walk_dirs_bind find_epub_def by (intro quiet_rules Cons.IH)
qed (simp add: quiet_def)

lemma quiet_walk [quiet_rules]: "quiet (walk rt)"
proof -
  have "quiet (\<lambda>w. if n \<noteq> Dir then (Inr [], w) else walk_dirs rt (dirs_below (comps rt) (FS w)) None [] w)" for n
    using quiet_walk_dirs unfolding quiet_def by (simp split: if_split) blast
  then show ?thesis unfolding walk_def by (intro quiet_bind quiet_calls)
qed

lemma rebuilt_ids: "dom (rebuilt bs) = (\<lambda>x. MID (Meta (fst x))) ` set bs"
  by (force simp: rebuilt_def dom_map_of_conv_image_fst)

lemma scanned_ids:
  assumes "scan_entries env l known es empty_scan w = (Inr s, w1)" "bp \<in> set (SIndexed s)"
  shows "MID (Meta (fst bp)) \<le> SMaxID s"
proof -
  from scan_entries_returns [OF assms(1)] obtain fs where fs: "s = record_all (zip es fs) empty_scan" by blast
  with assms(2) obtain e where "(e, Indexed (fst bp) (snd bp)) \<in> set (zip es fs)"
    by (metis append_Nil found_books_in prod.collapse record_all_indexed record_simps(9))
  then have "MID (Meta (fst bp)) \<in> set (found_ids (zip es fs))" by (force simp: found_ids_def)
  with fold_max_ge [of 0 "found_ids (zip es fs)"] show ?thesis by (simp add: fs record_all_max)
qed



end
