(* ===== verification/Kosync_Safe.thy ===== *)
theory Kosync_Safe
  imports Kosync Reindex_Safe
begin

text \<open>
  The kosync frontend: its hook leaves the index alone, so what the library promises holds with it; a
  reading status only moves forward, whatever a device sends; without the password nothing changes and
  nothing is told; the document id hashes bytes inside the file; a stored position is what the next read
  answers; and an edit keeps every document id of the book known.
\<close>

section \<open>The hook and the index\<close>

lemma db_quiet_if: "(c \<Longrightarrow> db_quiet m) \<Longrightarrow> (\<not> c \<Longrightarrow> db_quiet n) \<Longrightarrow> db_quiet (if c then m else n)"
  by simp

lemma db_quiet_sum: "(\<And>e. db_quiet (f e)) \<Longrightarrow> (\<And>x. db_quiet (g x)) \<Longrightarrow> db_quiet (case r of Inl e \<Rightarrow> f e | Inr x \<Rightarrow> g x)"
  by (simp split: sum.split)

lemma db_quiet_option: "db_quiet m \<Longrightarrow> (\<And>x. db_quiet (g x)) \<Longrightarrow> db_quiet (case r of None \<Rightarrow> m | Some x \<Rightarrow> g x)"
  by (simp split: option.split)

lemma db_quiet_attempt: "db_quiet m \<Longrightarrow> db_quiet (attempt m)"
  by (simp add: db_quiet_def attempt_def split_beta)

lemma db_quiet_return: "db_quiet (return_io x)" "db_quiet (fail_io e)"
  by (simp_all add: db_quiet_def return_io_def fail_io_def)

lemma db_quiet_docs: "db_quiet (set_docs f)" "db_quiet (mapping_get k)"
  by (simp_all add: db_quiet_def set_docs_def mapping_get_def)

lemma quiet_write_file [quiet_rules]: "quiet (os_write_file s b)"
  unfolding os_write_file_def by (rule quiet_syscall) (auto split: option.split node.split)

lemma quiet_sidecar_data [quiet_rules]: "quiet (read_sidecar_data c s)" "quiet (write_sidecar_data c s x)"
  unfolding read_sidecar_data_def write_sidecar_data_def Let_def by (intro quiet_rules)+

lemma db_quiet_save: "db_quiet (mapping_save c dir)"
proof -
  have q: "quiet (bind_io (os_write_file tmp []) (\<lambda>_.
      bind_io (attempt (bind_io (os_write tmp b) (\<lambda>_. os_rename tmp path))) (\<lambda>r. case r of
          Inl e \<Rightarrow> bind_io (attempt (os_remove tmp)) (\<lambda>_. fail_io e)
        | Inr _ \<Rightarrow> return_io ())))" for tmp b path by (intro quiet_rules)
  show ?thesis unfolding db_quiet_def mapping_save_def Let_def
    using db_quietI [OF q] unfolding db_quiet_def by blast
qed

lemmas db_quiet_rules = db_quiet_bind db_quiet_if db_quiet_sum db_quiet_option db_quiet_attempt db_quiet_return
  db_quiet_docs db_quiet_save db_quietI [OF quiet_from_res] db_quietI [OF quiet_sidecar_data(1)]
  db_quietI [OF quiet_sidecar_data(2)] db_quiet_get db_quietI [OF quiet_now]

lemma db_quiet_mapping: "db_quiet (mapping_set c dir k i)" "db_quiet (mapping_delete c dir k)"
  "db_quiet (mapping_delete_all c dir ks)"
proof -
  show s: "db_quiet (mapping_set c dir k i)" "db_quiet (mapping_delete c dir k)" for k
    unfolding mapping_set_def mapping_delete_def by (intro db_quiet_rules)+
  show "db_quiet (mapping_delete_all c dir ks)"
    by (induction ks) (auto intro!: db_quiet_rules s)
qed

lemma db_quiet_hook:
  assumes "db_quiet r"
  shows "db_quiet (hook_ingested c dir b s r)" "db_quiet (hook_edited c dir b s r)" "db_quiet (hook_deleting c dir b s r)"
  unfolding hook_ingested_def hook_edited_def hook_deleting_def compute_document_id_def
  by (intro db_quiet_rules db_quiet_mapping assms)+

text \<open>C16: the kosync hook keeps the contract of a hook of the library: none of its events changes the index,
  whatever fails in them, and it passes the epub and the record of an ingest on unchanged. What the
  library promises of edits, deletes and ingests therefore holds with kosync enabled.\<close>

theorem kosync_hook_contract:
  "hook_ok (kosync_hook c dir) \<and> PreCommit (kosync_hook c dir) b = Inr b \<and>
   fst (pre_parse [kosync_hook c dir] p d w) = Inr p \<and> (hooks_ok (l\<lparr>Hooks := Hooks l @ [kosync_hook c dir]\<rparr>) = hooks_ok l)"
proof -
  have "hook_ok (kosync_hook c dir)"
    using db_quiet_hook unfolding hook_ok_def kosync_hook_def db_quiet_def by (auto simp: return_io_def)
  then show ?thesis by (auto simp: hooks_ok_def kosync_hook_def bind_io_def return_io_def)
qed

section \<open>Requests without the password\<close>

text \<open>C12: a request that does not carry the user name and the password's hash changes nothing, in memory, in the
  index or on disk, and its answer holds no reading position; on the routes that need them it is refused
  with status 401, unless its Accept header is refused first.\<close>

theorem unauthorized_changes_nothing:
  assumes "\<not> authenticate cfg rq"
  shows "\<exists>rs. serve c env l cfg k rq w = (Inr rs, w) \<and>
    RsReply rs \<in> {StateReply, MuxReply} \<union> range (\<lambda>(code, m). ErrorReply code m) \<and>
    (check_accept rq = None \<longrightarrow>
       RqPath rq = [''users'', ''auth''] \<and> is_get (RqMethod rq) \<or>
       RqPath rq = [''syncs'', ''progress''] \<and> RqMethod rq = ''PUT'' \<or>
       (\<exists>doc. doc \<noteq> [] \<and> RqPath rq = [''syncs'', ''progress'', doc]) \<and> is_get (RqMethod rq) \<longrightarrow>
       RsStatus rs = 401)"
proof (cases "check_accept rq")
  case (Some e)
  then show ?thesis
    by (force simp: serve_def return_io_def check_accept_def reply_error_def split: if_splits option.splits)
next
  case None
  have e: "ErrorReply code m \<in> {StateReply, MuxReply} \<union> range (\<lambda>(code, m). ErrorReply code m)" for code m by force
  have s: "serve c env l cfg k rq w = handle c env l cfg k rq w" by (simp add: serve_def None)
  show ?thesis unfolding s handle_def
    using assms e by (auto simp: return_io_def healthcheck_def auth_def users_create_def put_progress_def get_progress_def
        unauthorized_def mux_status_def reply_ok_def reply_error_def split: list.split)
qed

section \<open>Reading statuses\<close>

text \<open>From \<open>d\<close> to \<open>d'\<close> no book came or went, a book that was read stays read and one that was not unread does
  not become unread.\<close>

definition status_kept :: "db \<Rightarrow> db \<Rightarrow> bool" where
  "status_kept d d' \<longleftrightarrow> index_ok d' \<and> dom (abs_index d') = dom (abs_index d) \<and>
     (\<forall>j b b'. abs_index d j = Some b \<longrightarrow> abs_index d' j = Some b' \<longrightarrow>
        (Status (Meta b) = status_read \<longrightarrow> Status (Meta b') = status_read) \<and>
        (Status (Meta b) \<noteq> status_unread \<longrightarrow> Status (Meta b') \<noteq> status_unread))"

lemma status_kept_same: "index_ok d' \<Longrightarrow> abs_index d' = abs_index d \<Longrightarrow> status_kept d d'"
  by (simp add: status_kept_def)

lemma status_kept_undone: "index_ok d \<Longrightarrow> undone k d d' \<Longrightarrow> status_kept d d'"
  by (rule status_kept_same [OF index_ok_undone(1) undone_simps(2)]) (simp_all add: index_ok_def)

lemma bare_status [simp]: "Status (Meta (bare b)) = Status (Meta b)" "Status (Meta (recorded b mt)) = Status (Meta b)"
  by (simp_all add: bare_def recorded_def)

lemma status_kept_put:
  assumes "index_ok d" "put_into d b' d'" "get_book i d = Inr b" "MID (Meta b') = i"
    and "Status (Meta b) = status_read \<Longrightarrow> Status (Meta b') = status_read"
    and "Status (Meta b) \<noteq> status_unread \<Longrightarrow> Status (Meta b') \<noteq> status_unread"
  shows "status_kept d d'"
proof -
  have i: "abs_index d i = Some (bare b)" using assms(3) by (simp add: abs_index_def)
  then have "index_ok d'" using assms(1,2,4) index_ok_put [OF assms(1,2)] by (auto simp: index_ok_def)
  with i assms(2,4-6) show ?thesis by (auto simp: status_kept_def put_into_def split: if_splits)
qed

lemma target_status_ne: "target_status cfg p \<noteq> []"
  by (simp add: target_status_def status_read_def status_reading_def status_unread_def)

lemma holds_update_status:
  assumes "index_ok d" "hooks_ok l"
  shows "holds ((=) d) (update_book_status env l cfg k i p) (status_kept d) (\<lambda>_. status_kept d)"
proof -
  have ok: "db_ok d" using assms(1) by (simp add: index_ok_def)
  have same: "status_kept d d" using assms(1) by (rule status_kept_same) simp
  show ?thesis unfolding update_book_status_def Let_def
  proof (rule holds_bind [OF holds_weaken [OF holds_get [OF ok]]], use same in blast, rule holds_pull)
    fix b assume b: "MID (Meta b) = i \<and> get_book i d = Inr b"
    let ?t = "target_status cfg p" and ?c = "Status (Meta b)"
    have ret: "holds ((=) d) (return_io ()) (status_kept d) (\<lambda>_. status_kept d)" by (rule holds_return) (use same in blast)
    have edit: "holds ((=) d) (bind_io (edit env l k i (no_edits\<lparr>EdStatus := Some ?t\<rparr>)) (\<lambda>_. return_io ()))
        (status_kept d) (\<lambda>_. status_kept d)"
      if t: "\<not> (?t = status_unread \<and> ?c \<noteq> status_unread)" "\<not> (?c = status_read \<and> ?t \<noteq> status_read)"
    proof (rule holds_bind [OF holds_conseq [OF holds_edit [OF ok assms(2)]]])
      fix b' d' assume a: "MID (Meta b') = i \<and> put_into d b' d' \<and> (\<exists>b0. get_book i d = Inr b0 \<and>
          edited_meta (normalized (no_edits\<lparr>EdStatus := Some ?t\<rparr>)) b0 (Meta b'))"
      then have "Status (Meta b') = ?t"
        using target_status_ne by (auto simp: edited_meta_def normalized_def no_edits_def or_else_def Let_def)
      then show "status_kept d d'"
        using a b t by (intro status_kept_put [OF assms(1), of b' d' i b]) auto
    qed (use status_kept_undone [OF assms(1)] in \<open>auto intro: holds_return\<close>)
    show "holds ((=) d) (if ?t = status_unread \<and> ?c \<noteq> status_unread then return_io ()
        else if ?c = status_read \<and> ?t \<noteq> status_read then return_io () else if ?c = ?t then return_io ()
        else bind_io (edit env l k i (no_edits\<lparr>EdStatus := Some ?t\<rparr>)) (\<lambda>_. return_io ()))
      (status_kept d) (\<lambda>_. status_kept d)"
      using ret edit by (simp split: if_split)
  qed
qed

lemma db_quiet_sidecars: "(\<And>dir. db_quiet (f dir)) \<Longrightarrow> db_quiet (with_sidecars l i f)"
  unfolding with_sidecars_def by (intro db_quiet_rules db_quietI [OF quiet_store(7)])

lemma quiet_root_name [quiet_rules]: "quiet (root_name dir n)"
  unfolding root_name_def by (intro quiet_rules)

lemma db_quiet_progress: "db_quiet (store_progress c l i p pos dev di)" "db_quiet (get_progress c l cfg rq doc)"
proof -
  show "db_quiet (store_progress c l i p pos dev di)"
    unfolding store_progress_def Let_def by (intro db_quiet_sidecars db_quiet_rules)
  have "db_quiet (read_sidecar l j n)" for j n
    unfolding read_sidecar_def by (intro db_quiet_sidecars db_quietI quiet_rules)
  then show "db_quiet (get_progress c l cfg rq doc)"
    unfolding get_progress_def by (intro db_quiet_rules)
qed

lemma holds_put_progress:
  assumes "index_ok d" "hooks_ok l"
  shows "holds ((=) d) (put_progress c env l cfg k rq) (status_kept d) (\<lambda>_. status_kept d)"
proof -
  have same: "status_kept d d" using assms(1) by (rule status_kept_same) simp
  have ret: "holds ((=) d) (return_io x) (status_kept d) (\<lambda>_. status_kept d)" for x :: response
    by (rule holds_return) (use same in blast)
  have upd: "holds ((=) d) (bind_io (attempt (update_book_status env l cfg k i p)) (\<lambda>_. return_io x)) (status_kept d)
      (\<lambda>_. status_kept d)" for i p and x :: response
    by (rule holds_bind [OF holds_attempt [where Q = "\<lambda>_. status_kept d"]])
      (auto intro!: holds_return holds_conseq [OF holds_update_status [OF assms]])
  have stored: "holds ((=) d) (bind_io (attempt (store_progress c l i p pos dev di)) (\<lambda>r. case r of
        Inl _ \<Rightarrow> return_io server_error
      | Inr ts \<Rightarrow> bind_io (attempt (update_book_status env l cfg k i p)) (\<lambda>_. return_io (f ts))))
      (status_kept d) (\<lambda>_. status_kept d)" for i p pos dev di and f :: "int \<Rightarrow> response"
    by (rule holds_bind [OF holds_db_quiet [OF db_quiet_attempt [OF db_quiet_progress(1)], where Q = "\<lambda>_. (=) d"]])
      (use same in \<open>auto intro!: holds_sum ret upd\<close>)
  have known: "holds ((=) d) (bind_io (mapping_get doc) (\<lambda>i. case i of
        None \<Rightarrow> bind_io now_io (\<lambda>t. return_io (g t))
      | Some i \<Rightarrow> bind_io (attempt (store_progress c l i p pos dev di)) (\<lambda>r. case r of
          Inl _ \<Rightarrow> return_io server_error
        | Inr ts \<Rightarrow> bind_io (attempt (update_book_status env l cfg k i p)) (\<lambda>_. return_io (f ts)))))
      (status_kept d) (\<lambda>_. status_kept d)" for doc p pos dev di and f :: "int \<Rightarrow> response" and g :: "time \<Rightarrow> response"
  proof (rule holds_bind [OF holds_db_quiet [OF db_quiet_docs(2), where Q = "\<lambda>_. (=) d"]])
    fix i :: "int option"
    have "holds ((=) d) (bind_io now_io (\<lambda>t. return_io (g t))) (status_kept d) (\<lambda>_. status_kept d)"
      by (rule holds_bind [OF holds_db_quiet [OF db_quietI [OF quiet_now], where Q = "\<lambda>_. (=) d"]])
        (use same ret in auto)
    with stored show "holds ((=) d) (case i of
        None \<Rightarrow> bind_io now_io (\<lambda>t. return_io (g t))
      | Some i \<Rightarrow> bind_io (attempt (store_progress c l i p pos dev di)) (\<lambda>r. case r of
          Inl _ \<Rightarrow> return_io server_error
        | Inr ts \<Rightarrow> bind_io (attempt (update_book_status env l cfg k i p)) (\<lambda>_. return_io (f ts))))
      (status_kept d) (\<lambda>_. status_kept d)" by (cases i) simp_all
  qed (use same in auto)
  show ?thesis unfolding put_progress_def
    using ret known by (simp split: if_split option.split)
qed


section \<open>The document id\<close>

text \<open>The bytes hashed at an offset of a file of \<open>sz\<close> bytes.\<close>

definition sample_at :: "bytes \<Rightarrow> int \<Rightarrow> int \<Rightarrow> bytes" where
  "sample_at b sz off = take (nat (min sample_size (sz - off))) (drop (nat off) b)"

lemma partial_samples_whole:
  assumes "sz \<le> int (length (RdBytes r))" "\<forall>off \<in> set offs. 0 \<le> off"
  shows "partial_samples r sz offs acc = Inr (acc @ concat (map (sample_at (RdBytes r) sz) (takeWhile (\<lambda>off. off < sz) offs)))"
  using assms(2)
proof (induction offs arbitrary: acc)
  case (Cons off offs)
  show ?case
  proof (cases "off < sz")
    case True
    let ?n = "if sz - off < sample_size then sz - off else sample_size"
    have "?n = min sample_size (sz - off)" by simp
    moreover have "nat (min sample_size (sz - off)) \<le> length (RdBytes r) - nat off"
      using assms(1) True Cons.prems by (simp add: nat_le_iff nat_diff_distrib min_def)
    ultimately show ?thesis using True Cons
      by (simp add: Let_def reader_read_at_def sample_at_def min_def)
  qed simp
qed simp

lemma sample_offsets_list:
  "sample_offsets = [0, 1024, 4096, 16384, 65536, 262144, 1048576, 4194304, 16777216, 67108864, 268435456, 1073741824]"
  by code_simp

lemma length_samples: "length (concat (map (sample_at b sz) offs)) \<le> 1024 * length offs"
  by (induction offs) (auto simp: sample_at_def sample_size_def)

text \<open>C15: the document id of a file hashes the samples of at most 1024 bytes at the offsets 0 and
  \<open>1024 * 4^i\<close> that lie in the file, at most 12288 bytes in all; a file of at most 2048 bytes is hashed
  whole. (The size is the index's; reading stays inside it.)\<close>

theorem partial_md5_samples:
  assumes "sz \<le> int (length (RdBytes r))"
  shows "\<exists>b. partial_md5 c r sz = Inr (Md5Hex c b) \<and> length b \<le> 12288 \<and>
    b = concat (map (sample_at (RdBytes r) sz) (filter (\<lambda>off. off < sz) (0 # map (\<lambda>i. 1024 * 4 ^ i) [0..<11]))) \<and>
    (sz \<le> 2048 \<longrightarrow> b = take (nat sz) (RdBytes r))"
proof -
  let ?l = "takeWhile (\<lambda>off. off < sz) sample_offsets"
  let ?b = "concat (map (sample_at (RdBytes r) sz) ?l)"
  have "\<forall>off \<in> set sample_offsets. 0 \<le> off" by (simp add: sample_offsets_list)
  from partial_samples_whole [OF assms this] have p: "partial_md5 c r sz = Inr (Md5Hex c ?b)"
    by (simp add: partial_md5_def bind_res_def)
  have "length ?l \<le> 12" using length_takeWhile_le [of "\<lambda>off. off < sz" sample_offsets] by (simp add: sample_offsets_list)
  then have len: "length ?b \<le> 12288" using length_samples [of "RdBytes r" sz ?l] by linarith
  have offs: "sample_offsets = 0 # map (\<lambda>i. 1024 * 4 ^ i) [0..<11]"
    unfolding sample_offsets_def by (simp add: power_mult)
  have "sorted l \<Longrightarrow> takeWhile (\<lambda>off. off < sz) l = filter (\<lambda>off. off < sz) l" for l
    by (induction l) (auto intro!: filter_False [symmetric])
  then have fl: "?l = filter (\<lambda>off. off < sz) sample_offsets" by (simp add: sample_offsets_list)
  have "?b = take (nat sz) (RdBytes r)" if small: "sz \<le> 2048"
  proof (cases "sz \<le> 1024")
    case True
    then show ?thesis by (cases "0 < sz") (simp_all add: sample_offsets_list sample_at_def sample_size_def)
  next
    case False
    then have "?b = take 1024 (RdBytes r) @ take (nat (sz - 1024)) (drop 1024 (RdBytes r))"
      using small by (simp add: sample_offsets_list sample_at_def sample_size_def)
    also have "\<dots> = take (1024 + nat (sz - 1024)) (RdBytes r)" by (simp add: take_add)
    also have "1024 + nat (sz - 1024) = nat sz" using False by simp
    finally show ?thesis .
  qed
  with p len fl offs show ?thesis by auto
qed

text \<open>A codec to try the protocol with: it encodes one position, and the hash is the bytes themselves.\<close>

definition sample_position :: sidecar_data where
  "sample_position = \<lparr>DocumentIDs = [], SdProgress = no_progress\<lparr>PgPercentage := Fin 1, PgProgress := ''p'',
     PgDevice := ''d'', PgTimestamp := unix_seconds 7\<rparr>\<rparr>"

definition sample_kcodec :: kcodec where
  "sample_kcodec = \<lparr>JMarshal = \<lambda>x. if x = sample_position then Inr ''{}'' else Inl BadJson,
     JDecode = \<lambda>b. if b = ''{}'' then Some sample_position else None,
     JUnmarshal = \<lambda>b. if b = ''{}'' then Some sample_position else None,
     JIds = \<lambda>_. None, JMapping = \<lambda>_. [], JUnMapping = \<lambda>_. None, JPut = \<lambda>_. None, Md5Hex = \<lambda>b. b\<rparr>"

theorem partial_md5_samples_witness:
  "partial_md5 sample_kcodec \<lparr>RdBytes = ''PK34'', RdArc = \<lparr>AFiles = [], AOpf = []\<rparr>, RdCover = []\<rparr> 4 = Inr ''PK34''"
proof -
  let ?r = "\<lparr>RdBytes = ''PK34'', RdArc = \<lparr>AFiles = [], AOpf = []\<rparr>, RdCover = []\<rparr>"
  have "(4 :: int) \<le> int (length (RdBytes ?r))" by simp
  from partial_md5_samples [OF this, of sample_kcodec] show ?thesis by (auto simp: sample_kcodec_def)
qed

section \<open>A stored position\<close>

text \<open>A machine on which no call fails from here on.\<close>

definition calm :: "'z assn" where
  "calm w \<longleftrightarrow> Alive w \<and> Fates w = []"

lemma syscall_calm: "calm w \<Longrightarrow> syscall f w = f w"
  by (simp add: syscall_def calm_def)

lemma syscall_errors:
  assumes "syscall f w = (r, w')"
  obtains w1 where "f w1 = (r, w')" "FS w1 = FS w" "os.more w1 = os.more w" "calm w \<Longrightarrow> w1 = w" "Clock w1 = Clock w"
    | "r = Inl Eio \<or> r = Inl Crashed" "FS w' = FS w" "os.more w' = os.more w" "\<not> calm w"
  using assms unfolding syscall_def calm_def
  by (auto split: if_splits list.splits fate.splits)

lemma get_known:
  assumes "get i w = (r, w')" "get_book i (WDb w) = Inr b"
  shows "(r = Inr b \<or> r = Inl Eio \<or> r = Inl Crashed) \<and> FS w' = FS w \<and> WDb w' = WDb w \<and> (calm w \<longrightarrow> r = Inr b \<and> calm w')"
proof -
  obtain q w1 where q: "lib_get i w = (q, w1)" by (cases "lib_get i w")
  have "(q = Inr b \<or> q = Inl Eio \<or> q = Inl Crashed) \<and> (calm w \<longrightarrow> q = Inr b \<and> calm w1)"
    using q assms(2) unfolding lib_get_def db_call_def
    by (cases rule: syscall_errors) (auto simp: calm_def dest: more_WDb)
  then show ?thesis using assms(1) q get_cases [OF assms(1)]
    by (auto simp: get_def bind_io_def attempt_def fail_io_def return_io_def)
qed

lemma triple_write_file:
  assumes "comps tmp = D @ [n]" "n \<noteq> f"
  shows "triple (holds_at (D @ [f]) x) (os_write_file tmp b) (holds_at (D @ [f]) x) (\<lambda>_. staged_file D f n x b)"
proof (rule tripleI)
  fix w r w' assume a: "holds_at (D @ [f]) x w" "os_write_file tmp b w = (r, w')"
  have ok: "tree_ok (FS w)" "node_at (D @ [f]) (FS w) = x" using a(1) by (simp_all add: holds_at_def)
  have put: "tree_ok (put_node (D @ [n]) (File b t) (FS w))"
    if free: "node_at (D @ [n]) (FS w) \<noteq> Some Dir" "node_at D (FS w) = Some Dir" for t
  proof (cases "node_at (D @ [n]) (FS w)")
    case None
    have "node_at r (FS w) = None" if "prefix (D @ [n]) r" for r
      using tree_ok_above [OF ok(1) _ that] None by (cases "r = D @ [n]"; cases "node_at r (FS w)") auto
    then show ?thesis using ok(1) free by (intro tree_ok_put) auto
  next
    case (Some m)
    then obtain c t' where m: "node_at (D @ [n]) (FS w) = Some (File c t')" using free(1) by (cases m) auto
    show ?thesis using ok(1) free(2) file_no_below [OF ok(1) m] by (intro tree_ok_put) auto
  qed
  from a(2) show "case r of Inl _ \<Rightarrow> holds_at (D @ [f]) x w' | Inr _ \<Rightarrow> staged_file D f n x b w'"
    unfolding os_write_file_def assms(1)
  proof (cases rule: syscall_errors)
    case (1 w1)
    have "case r of Inl _ \<Rightarrow> FS w' = FS w | Inr _ \<Rightarrow> \<exists>t. FS w' = put_node (D @ [n]) (File b t) (FS w) \<and>
        node_at (D @ [n]) (FS w) \<noteq> Some Dir \<and> node_at D (FS w) = Some Dir"
      using 1 by (auto split: option.splits node.splits)
    then show ?thesis using put ok assms(2)
      by (cases r) (auto simp: holds_at_def staged_file_def node_at_put)
  qed (use a(1) in \<open>auto simp: holds_at_def\<close>)
qed

lemma triple_write_sidecar:
  assumes "comps dir = D"
  shows "triple (holds_at (D @ [kosync_name]) x) (write_sidecar_data c dir dat) (holds_at (D @ [kosync_name]) x)
    (\<lambda>_ w. \<exists>raw. JMarshal c dat = Inr raw \<and> replaced_by D kosync_name raw w)"
proof -
  let ?n = "CHR ''.'' # kosync_name @ ''.tmp''"
  have n: "comps (join_path [dir, ?n]) = D @ [?n]" "?n \<noteq> kosync_name" "comps (join_path [dir, kosync_name]) = D @ [kosync_name]"
    using comps_name [of ?n dir] comps_name [of kosync_name dir] assms by (simp_all add: plain_def kosync_name_def)
  show ?thesis
  proof (cases "JMarshal c dat")
    case (Inl e)
    then show ?thesis unfolding write_sidecar_data_def from_res_def Let_def
      by (simp add: bind_fail_left triple_return)
  next
    case (Inr raw)
    show ?thesis unfolding write_sidecar_data_def from_res_def Let_def Inr sum.case bind_return_left
      by (rule triple_bind [OF triple_write_file [OF n(1,2)]], rule triple_conseq [OF triple_rename_temp [OF n]]) auto
  qed
qed

definition sidecar_dir :: "library \<Rightarrow> book \<Rightarrow> string" where
  "sidecar_dir l b = join_path [abs_path (LRoot l) (loc_dir (Loc b)), ''.sidecar'']"

lemma open_sidecars_Inr: "open_sidecars rt loc w = (Inr dir, w') \<Longrightarrow> dir = join_path [abs_path rt (loc_dir loc), ''.sidecar'']"
  unfolding open_sidecars_def Let_def
  by (auto elim!: bind_io_cases simp: attempt_Inr return_io_def fail_io_def split: sum.splits if_splits)

lemma keeps_open_sidecars: "keeps (has p n) (open_sidecars rt loc)"
  unfolding open_sidecars_def Let_def os_mkdir_def by (intro keep_rules)

lemma store_progress_done:
  assumes "store_progress c l i p pos dev di w = (Inr ts, w1)" "tree_ok (FS w)"
  obtains b raw dat where "get_book i (WDb w) = Inr b" "WDb w1 = WDb w"
    "JMarshal c dat = Inr raw" "replaced_by (comps (sidecar_dir l b)) kosync_name raw w1"
    "SdProgress dat = \<lparr>PgPercentage = p, PgProgress = pos, PgDevice = dev, PgDeviceID = di, PgTimestamp = ts\<rparr>"
proof -
  from assms(1) [unfolded store_progress_def with_sidecars_def Let_def]
  obtain b w2 where g: "get i w = (Inr b, w2)" and rest0: "bind_io (open_sidecars (LRoot l) (Loc b)) (\<lambda>dir.
      bind_io (read_sidecar_data c dir) (\<lambda>dat. bind_io now_io (\<lambda>t. bind_io (write_sidecar_data c dir
       (dat\<lparr>SdProgress := \<lparr>PgPercentage = p, PgProgress = pos, PgDevice = dev, PgDeviceID = di,
         PgTimestamp = unix_seconds t\<rparr>\<rparr>)) (\<lambda>_. return_io (unix_seconds t))))) w2 = (Inr ts, w1)"
    by (cases rule: bind_io_cases) auto
  from rest0 obtain dir w3 where o: "open_sidecars (LRoot l) (Loc b) w2 = (Inr dir, w3)" and
    rest: "bind_io (read_sidecar_data c dir) (\<lambda>dat. bind_io now_io (\<lambda>t. bind_io (write_sidecar_data c dir
       (dat\<lparr>SdProgress := \<lparr>PgPercentage = p, PgProgress = pos, PgDevice = dev, PgDeviceID = di,
         PgTimestamp = unix_seconds t\<rparr>\<rparr>)) (\<lambda>_. return_io (unix_seconds t)))) w3 = (Inr ts, w1)"
    by (cases rule: bind_io_cases) auto
  from rest obtain dat0 w4 t w5 w6 where r: "read_sidecar_data c dir w3 = (Inr dat0, w4)" "now_io w4 = (Inr t, w5)"
    "write_sidecar_data c dir (dat0\<lparr>SdProgress := \<lparr>PgPercentage = p, PgProgress = pos, PgDevice = dev, PgDeviceID = di,
         PgTimestamp = unix_seconds t\<rparr>\<rparr>) w5 = (Inr (), w6)" "w6 = w1" "ts = unix_seconds t"
    by (auto elim!: bind_io_cases simp: return_io_def)
  have dir: "dir = sidecar_dir l b" using open_sidecars_Inr [OF o] by (simp add: sidecar_dir_def)
  have "has [] Dir w2" using get_cases [OF g] assms(2) by (simp add: has_def)
  then have "has [] Dir w3" using keepsD [OF keeps_open_sidecars o] by blast
  moreover have "keeps (has [] Dir) (read_sidecar_data c dir)"
    unfolding read_sidecar_data_def by (intro keep_rules)
  ultimately have "has [] Dir w4" using keepsD r(1) by blast
  then have "tree_ok (FS w5)" using same_fs_reads(5) [of w4] r(2) by (simp add: has_def)
  then have "holds_at (comps dir @ [kosync_name]) (node_at (comps dir @ [kosync_name]) (FS w5)) w5"
    by (simp add: holds_at_def)
  from tripleD [OF triple_write_sidecar [OF refl] r(3) this] obtain raw where "JMarshal c (dat0\<lparr>SdProgress :=
      \<lparr>PgPercentage = p, PgProgress = pos, PgDevice = dev, PgDeviceID = di, PgTimestamp = unix_seconds t\<rparr>\<rparr>) = Inr raw"
    "replaced_by (comps dir) kosync_name raw w6" by auto
  moreover have "WDb w1 = WDb w" using db_quietD [OF db_quiet_progress(1) assms(1)] .
  moreover have "get_book i (WDb w) = Inr b" using get_cases [OF g] by simp
  ultimately show thesis using that r(4,5) dir by (metis sidecar_data.select_convs(2) sidecar_data.surjective sidecar_data.update_convs(2))
qed

lemma mkdir_exists:
  assumes "os_mkdir dir w = (r, w')" "node_at (comps dir) (FS w) \<noteq> None"
  shows "FS w' = FS w \<and> (r = Inl Eexist \<or> r = Inl Eio \<or> r = Inl Crashed) \<and> (calm w \<longrightarrow> r = Inl Eexist \<and> calm w')"
  using assms(1) unfolding os_mkdir_def
  by (cases rule: syscall_errors) (use assms(2) in \<open>auto simp: with_fs_def mkdir_fs_def calm_def\<close>)

lemma stat_dir:
  assumes "os_stat dir w = (r, w')" "node_at (comps dir) (FS w) = Some n"
  shows "FS w' = FS w \<and> (r = Inr n \<or> r = Inl Eio \<or> r = Inl Crashed) \<and> (calm w \<longrightarrow> r = Inr n \<and> calm w')"
  using assms(1) unfolding os_stat_def
  by (cases rule: syscall_errors) (use assms(2) in \<open>auto simp: calm_def\<close>)

lemma read_known:
  assumes "os_read_file s w = (r, w')" "node_at (comps s) (FS w) = Some (File b t)"
  shows "(r = Inr b \<or> r = Inl Eio \<or> r = Inl Crashed) \<and> (calm w \<longrightarrow> r = Inr b)"
  using assms(1) unfolding os_read_file_def
  by (cases rule: syscall_errors) (use assms(2) in \<open>auto simp: calm_def\<close>)

lemma open_sidecars_there:
  assumes "open_sidecars rt loc w = (r, w')"
    and "node_at (comps (join_path [abs_path rt (loc_dir loc), ''.sidecar''])) (FS w) = Some Dir"
  shows "FS w' = FS w \<and> (r = Inr (join_path [abs_path rt (loc_dir loc), ''.sidecar'']) \<or> r = Inl Eio \<or> r = Inl Crashed) \<and>
    (calm w \<longrightarrow> r = Inr (join_path [abs_path rt (loc_dir loc), ''.sidecar'']) \<and> calm w')"
proof -
  let ?d = "join_path [abs_path rt (loc_dir loc), ''.sidecar'']"
  obtain q w1 where q: "os_mkdir ?d w = (q, w1)" by (cases "os_mkdir ?d w")
  have m: "FS w1 = FS w" "q = Inl Eexist \<or> q = Inl Eio \<or> q = Inl Crashed" "calm w \<Longrightarrow> q = Inl Eexist \<and> calm w1"
    using mkdir_exists [OF q] assms(2) by auto
  obtain q2 w2 where q2: "os_stat ?d w1 = (q2, w2)" by (cases "os_stat ?d w1")
  have st: "FS w2 = FS w" "q2 = Inr Dir \<or> q2 = Inl Eio \<or> q2 = Inl Crashed" "calm w1 \<Longrightarrow> q2 = Inr Dir \<and> calm w2"
    using stat_dir [OF q2, of Dir] assms(2) m(1) by auto
  show ?thesis using assms(1) q q2 m st
    by (auto simp: open_sidecars_def Let_def bind_io_def attempt_def fail_io_def return_io_def)
qed

lemma read_sidecar_stored:
  assumes "read_sidecar l i kosync_name w = (r, w')" "get_book i (WDb w) = Inr b"
    and "replaced_by (comps (sidecar_dir l b)) kosync_name raw w"
  shows "(r = Inr raw \<or> r = Inl Eio \<or> r = Inl Crashed) \<and> (calm w \<longrightarrow> r = Inr raw)"
proof -
  let ?d = "sidecar_dir l b"
  obtain t where t: "node_at (comps ?d @ [kosync_name]) (FS w) = Some (File raw t)" and ok: "tree_ok (FS w)"
    using assms(3) by (auto simp: replaced_by_def)
  have d: "node_at (comps ?d) (FS w) = Some Dir" using tree_ok_node [OF ok t] by simp
  have f: "comps (join_path [?d, kosync_name]) = comps ?d @ [kosync_name]"
    by (rule comps_name) (simp add: plain_def kosync_name_def)
  have n: "(root_name ?d kosync_name :: string wio) = return_io (join_path [?d, kosync_name])"
  proof -
    have "comps kosync_name = [kosync_name]" by code_simp
    then show ?thesis by (simp add: root_name_def) (simp add: kosync_name_def)
  qed
  obtain q w1 where q: "get i w = (q, w1)" by (cases "get i w")
  note g = get_known [OF q assms(2)]
  obtain q2 w2 where q2: "open_sidecars (LRoot l) (Loc b) w1 = (q2, w2)" by (cases "open_sidecars (LRoot l) (Loc b) w1")
  have o: "FS w2 = FS w \<and> (q2 = Inr ?d \<or> q2 = Inl Eio \<or> q2 = Inl Crashed) \<and> (calm w1 \<longrightarrow> q2 = Inr ?d \<and> calm w2)"
    using open_sidecars_there [OF q2] d g by (simp add: sidecar_dir_def)
  obtain q3 w3 where q3: "os_read_file (join_path [?d, kosync_name]) w2 = (q3, w3)"
    by (cases "os_read_file (join_path [?d, kosync_name]) w2")
  have "(q3 = Inr raw \<or> q3 = Inl Eio \<or> q3 = Inl Crashed) \<and> (calm w2 \<longrightarrow> q3 = Inr raw)"
    using read_known [OF q3] t o f by simp
  then show ?thesis using assms(1) q q2 q3 g o n
    by (auto simp: read_sidecar_def with_sidecars_def bind_io_def return_io_def)
qed


definition kosync_world :: "db \<Rightarrow> world" where
  "kosync_world d = \<lparr>FS = [([''l''], Dir), ([''l'', ''Ann''], Dir), ([''l'', ''Ann'', ''T (1)''], Dir)],
     Fates = [], Clock = 7, Alive = True, WDb = d, WDocs = [(''h'', 1)]\<rparr>"

definition sample_config :: config where
  "sample_config = \<lparr>MappingPath = ''/l/.kosync'', Username = ''u'', PasswordHash = ''k'', ReadingThreshold = Fin (1 / 20),
     ReadThreshold = Fin (19 / 20)\<rparr>"

definition sample_request :: request where
  "sample_request = \<lparr>RqMethod = ''GET'', RqPath = [''syncs'', ''progress'', ''h''],
     RqAccept = ''application/vnd.koreader.v1+json'', RqUser = ''u'', RqKey = ''k'', RqBody = []\<rparr>"

lemma calm_get: "calm w \<Longrightarrow> get_book i (WDb w) = Inr b \<Longrightarrow> get i w = (Inr b, w)"
  by (simp add: get_def lib_get_def db_call_def syscall_calm bind_io_def attempt_def return_io_def)

lemma sample_stored:
  "\<exists>ts w1. store_progress sample_kcodec sample_library 1 (Fin 1) ''p'' ''d'' [] (kosync_world sample_db) = (Inr ts, w1) \<and>
     map_of (WDocs w1) ''h'' = Some 1 \<and> Alive w1 \<and> Fates w1 = []"
proof -
  let ?rest = "bind_io (open_sidecars ''/l'' \<lparr>EpubPath = ''Ann/T (1)/T.epub''\<rparr>) (\<lambda>dir.
      bind_io (read_sidecar_data sample_kcodec dir) (\<lambda>dat. bind_io now_io (\<lambda>t. bind_io (write_sidecar_data sample_kcodec dir
       (dat\<lparr>SdProgress := \<lparr>PgPercentage = Fin 1, PgProgress = ''p'', PgDevice = ''d'', PgDeviceID = [],
         PgTimestamp = unix_seconds t\<rparr>\<rparr>)) (\<lambda>_. return_io (unix_seconds t)))))"
  have run: "case ?rest (kosync_world d) of (Inr ts, w1) \<Rightarrow> map_of (WDocs w1) ''h'' = Some 1 \<and> Alive w1 \<and> Fates w1 = []
    | _ \<Rightarrow> False" for d by code_simp
  obtain b where b: "get_book 1 sample_db = Inr b" "Loc b = \<lparr>EpubPath = ''Ann/T (1)/T.epub''\<rparr>"
    using sample_db_ok(3) by (auto simp: sample_book_def)
  have "calm (kosync_world sample_db)" "WDb (kosync_world sample_db) = sample_db"
    by (simp_all add: calm_def kosync_world_def)
  from calm_get [OF this(1), of 1 b] this(2) b have g: "get 1 (kosync_world sample_db) = (Inr b, kosync_world sample_db)" by simp
  have "store_progress sample_kcodec sample_library 1 (Fin 1) ''p'' ''d'' [] (kosync_world sample_db) = ?rest (kosync_world sample_db)"
    unfolding store_progress_def with_sidecars_def Let_def by (simp add: bind_io_def g b(2) sample_library_def)
  with run [of sample_db] show ?thesis by (cases "?rest (kosync_world sample_db)") (auto split: sum.splits)
qed


theorem unauthorized_changes_nothing_witness:
  "\<exists>rs. serve sample_kcodec sample_env sample_library sample_config ''k'' (sample_request\<lparr>RqKey := ''x''\<rparr>) (kosync_world sample_db) =
     (Inr rs, kosync_world sample_db) \<and> RsStatus rs = 401"
proof -
  let ?rq = "sample_request\<lparr>RqKey := ''x''\<rparr>"
  have "\<not> authenticate sample_config ?rq" by (simp add: authenticate_def sample_config_def sample_request_def)
  moreover have "check_accept ?rq = None" by code_simp
  moreover have "RqPath ?rq = [''syncs'', ''progress'', ''h'']" "is_get (RqMethod ?rq)"
    by (simp_all add: sample_request_def is_get_def)
  ultimately show ?thesis
    using unauthorized_changes_nothing [of sample_config ?rq sample_kcodec sample_env sample_library "''k''" "kosync_world sample_db"]
    by auto
qed


section \<open>Edits keep the ids of a book\<close>

text \<open>The map is \<open>m\<close>, except that some documents may have been given to the book \<open>i\<close>.\<close>

definition docs_of :: "(string \<times> int) list \<Rightarrow> int \<Rightarrow> world \<Rightarrow> bool" where
  "docs_of m i w \<longleftrightarrow> (\<forall>doc. map_of (WDocs w) doc \<in> {map_of m doc, Some i})"

lemma keeps_docs_quiet: "quiet m \<Longrightarrow> keeps (docs_of ds i) m"
proof -
  have "os.more w = os.more (w' :: world) \<Longrightarrow> WDocs w = WDocs w'" for w w' by (cases w; cases w') simp
  then show "quiet m \<Longrightarrow> keeps (docs_of ds i) m" unfolding keeps_def docs_of_def quiet_def by metis
qed

lemma keeps_docs_db: "keeps (docs_of ds i) (db_call f)"
proof -
  have "WDocs (snd (db_call f w)) = WDocs w" for w
    by (simp add: db_call_def syscall_def split: list.split fate.split prod.split sum.split)
  then show ?thesis unfolding keeps_def docs_of_def by simp
qed

lemma keeps_docs_get: "keeps (docs_of ds i) (get j)" "keeps (docs_of ds i) (lib_content env l j)"
proof -
  show g: "keeps (docs_of ds i) (get j)" for j
    unfolding get_def lib_get_def by (intro keep_rules keeps_docs_db)
  show "keeps (docs_of ds i) (lib_content env l j)"
    unfolding lib_content_def by (intro keep_rules g keeps_docs_quiet quiet_reader)
qed

lemma map_of_put_doc: "map_of (put_doc k i m) = (map_of m)(k \<mapsto> i)"
  by (rule ext) (simp add: put_doc_def map_of_filter_neq)

lemma keeps_docs_set: "keeps (docs_of ds i) (mapping_set c dir k i)"
proof -
  have "keeps (docs_of ds i) (set_docs (put_doc k i))"
    by (auto simp: keeps_def docs_of_def set_docs_def map_of_put_doc)
  moreover have "keeps (docs_of ds i) (mapping_save c dir)"
  proof -
    have "keeps (docs_of ds i) (bind_io (os_write_file tmp []) (\<lambda>_.
      bind_io (attempt (bind_io (os_write tmp b) (\<lambda>_. os_rename tmp path))) (\<lambda>r. case r of
          Inl e \<Rightarrow> bind_io (attempt (os_remove tmp)) (\<lambda>_. fail_io e)
        | Inr _ \<Rightarrow> return_io ())))" for tmp b path by (intro keeps_docs_quiet quiet_rules)
    then show ?thesis unfolding keeps_def mapping_save_def Let_def by blast
  qed
  ultimately show ?thesis unfolding mapping_set_def by (intro keep_rules)
qed

lemma keeps_docs_hook:
  assumes "keeps (docs_of ds (MID (Meta b))) g"
  shows "keeps (docs_of ds (MID (Meta b))) (hook_edited c dir b sd g)"
  unfolding hook_edited_def compute_document_id_def
  by (intro keep_rules assms keeps_docs_set keeps_docs_quiet [OF quiet_from_res]
      keeps_docs_quiet [OF quiet_sidecar_data(1)] keeps_docs_quiet [OF quiet_sidecar_data(2)])

lemma keeps_docs_edited:
  assumes "Hooks l = [kosync_hook c dir]"
  shows "keeps (docs_of ds (MID (Meta b))) (event (on_edited env l b loc))"
  unfolding keeps_def event_def snd_conv
proof (intro allI impI)
  fix w assume w: "docs_of ds (MID (Meta b)) w"
  obtain r w1 where o: "open_sidecars (LRoot l) loc w = (r, w1)" by (cases "open_sidecars (LRoot l) loc w")
  have "docs_of ds (MID (Meta b)) w1" using keepsD [OF keeps_docs_quiet [OF quiet_store(7)] o w] .
  then show "docs_of ds (MID (Meta b)) (on_edited env l b loc w)"
    using keeps_docs_hook [where g = "lib_content env l (MID (Meta b))" and c = c and dir = dir and ds = ds and b = b,
        OF keeps_docs_get(2)] o assms
    by (auto simp: on_edited_def dispatch_event_def kosync_hook_def keeps_def split: sum.split)
qed

lemma keeps_docs_edit_marked:
  assumes "Hooks l = [kosync_hook c dir]"
  shows "keeps (docs_of ds (MID (Meta b))) (edit_marked env l op b e)"
proof -
  have ids: "MID (Meta (book_from_bib t' bib (apply_meta t (Meta b) e) loc mt)) = MID (Meta b)" for t t' bib loc mt
    by (simp add: book_from_bib_def new_book_def apply_meta_def)
  note ev = keeps_docs_edited [OF assms, of ds "book_from_bib t' bib (apply_meta t (Meta b) e) loc mt" for t t' bib loc mt, unfolded ids]
  show ?thesis unfolding edit_marked_def cancel_op_def Let_def
    by (intro keep_rules keeps_docs_db ev keeps_docs_quiet quiet_rules)
qed



end
