(* ===== verification/Vfile.thy ===== *)
theory Vfile
  imports Epub_File "HOL-Library.Word"
begin

text \<open>
  \<^verbatim>\<open>internal/fs/vfile\<close>: the files the 9P server builds on. A fid, an offset and a count are the 64-bit words
  of the protocol library, so sums of them wrap. A slice of Go is \<open>bytes\<close>, and \<open>bytes option\<close> where the code
  tells the nil slice from an empty one. The mutex of each type makes every operation below atomic.
\<close>

type_synonym word64 = "64 word"

datatype vfile_error = NotOpen | TooLarge word64 | NegativeOffset | SliceBounds | Loading err

section \<open>Reading\<close>

text \<open>The length of a slice as the code computes with it.\<close>

definition len64 :: "bytes \<Rightarrow> word64" where
  "len64 b = of_nat (length b)"

text \<open>\<^verbatim>\<open>data[lo:hi]\<close> panics when \<^verbatim>\<open>lo > hi\<close>; here \<open>hi\<close> never exceeds the length.\<close>

definition slice :: "bytes \<Rightarrow> word64 \<Rightarrow> word64 \<Rightarrow> vfile_error + bytes" where
  "slice b lo hi = (if hi < lo \<or> len64 b < hi then Inl SliceBounds
     else Inr (take (unat hi - unat lo) (drop (unat lo) b)))"

definition clamp_read :: "bytes \<Rightarrow> word64 \<Rightarrow> word64 \<Rightarrow> vfile_error + bytes" where
  "clamp_read b offset count =
     (if offset \<ge> len64 b then Inr []
      else let count = (if offset + count > len64 b then len64 b - offset else count)
           in slice b offset (offset + count))"

text \<open>A file whose content is loaded when a fid opens it: the content of each open fid.\<close>

type_synonym snapshots = "word64 \<rightharpoonup> bytes option"

definition snapshot_open :: "('w \<Rightarrow> (err + bytes option) \<times> 'w) \<Rightarrow> snapshots \<Rightarrow> word64 \<Rightarrow> 'w \<Rightarrow> (vfile_error option \<times> snapshots) \<times> 'w" where
  "snapshot_open load reads fid w = (case load w of
      (Inl e, w') \<Rightarrow> ((Some (Loading e), reads), w')
    | (Inr b, w') \<Rightarrow> ((None, reads(fid \<mapsto> b)), w'))"

definition snapshot_read :: "snapshots \<Rightarrow> word64 \<Rightarrow> word64 \<Rightarrow> word64 \<Rightarrow> vfile_error + bytes" where
  "snapshot_read reads fid offset count = (case reads fid of
      Some (Some b) \<Rightarrow> clamp_read b offset count
    | _ \<Rightarrow> Inl NotOpen)"

definition snapshot :: "snapshots \<Rightarrow> word64 \<Rightarrow> bytes option \<times> bool" where
  "snapshot reads fid = (case reads fid of Some b \<Rightarrow> (b, True) | None \<Rightarrow> (None, False))"

definition snapshot_close :: "snapshots \<Rightarrow> word64 \<Rightarrow> snapshots" where
  "snapshot_close reads fid = reads(fid := None)"

text \<open>A file with one reader per fid. The conversion to a signed offset can make it negative, which a reader
  refuses; the end of the file is not an error.\<close>

type_synonym readers = "word64 \<rightharpoonup> reader"

definition readat_open :: "('w \<Rightarrow> (err + reader) \<times> 'w) \<Rightarrow> readers \<Rightarrow> word64 \<Rightarrow> 'w \<Rightarrow> (vfile_error option \<times> readers) \<times> 'w" where
  "readat_open op fids fid w = (case op w of
      (Inl e, w') \<Rightarrow> ((Some (Loading e), fids), w')
    | (Inr r, w') \<Rightarrow> ((None, fids(fid \<mapsto> r)), w'))"

definition readat_read :: "readers \<Rightarrow> word64 \<Rightarrow> word64 \<Rightarrow> word64 \<Rightarrow> vfile_error + bytes" where
  "readat_read fids fid offset count = (case fids fid of
      None \<Rightarrow> Inl NotOpen
    | Some r \<Rightarrow> if sint offset < 0 then Inl NegativeOffset
        else Inr (reader_read_at r (unat count) (unat offset)))"

definition readat_close :: "readers \<Rightarrow> word64 \<Rightarrow> readers" where
  "readat_close fids fid = (case fids fid of Some r \<Rightarrow> fids(fid := None) | None \<Rightarrow> fids)"

section \<open>Writing\<close>

record write_buffer =
  WMax :: word64
  WBufs :: "word64 \<rightharpoonup> bytes"

definition new_write_buffer :: "word64 \<Rightarrow> write_buffer" where
  "new_write_buffer m = \<lparr>WMax = m, WBufs = Map.empty\<rparr>"

text \<open>\<^verbatim>\<open>copy(buf[offset:], data)\<close> over a buffer that reaches to the end of the data.\<close>

definition overlay :: "word64 \<Rightarrow> bytes \<Rightarrow> bytes \<Rightarrow> bytes" where
  "overlay offset dat buf = take (unat offset) buf @ dat @ drop (unat offset + length dat) buf"

definition buffer_after :: "bytes option \<Rightarrow> word64 \<Rightarrow> bytes \<Rightarrow> (unit \<Rightarrow> bytes) option \<Rightarrow> bytes" where
  "buffer_after old offset dat seed =
     (let buf = (case old of Some b \<Rightarrow> b | None \<Rightarrow> (case seed of Some s \<Rightarrow> s () | None \<Rightarrow> []));
          end = offset + len64 dat;
          buf = (if end > len64 buf then buf @ replicate (unat (end - len64 buf)) (CHR 0x00) else buf);
          buf = overlay offset dat buf
      in if old = None \<and> offset = 0 \<and> end < len64 buf then take (unat end) buf else buf)"

definition buffer_write :: "write_buffer \<Rightarrow> word64 \<Rightarrow> word64 \<Rightarrow> bytes \<Rightarrow> (unit \<Rightarrow> bytes) option \<Rightarrow> (vfile_error + 32 word) \<times> write_buffer" where
  "buffer_write w fid offset dat seed =
     (if length dat = 0 then (Inr 0, w)
      else if offset > WMax w \<or> len64 dat > WMax w - offset then (Inl (TooLarge (WMax w)), w)
      else (Inr (of_nat (length dat)), w\<lparr>WBufs := (WBufs w)(fid \<mapsto> buffer_after (WBufs w fid) offset dat seed)\<rparr>))"

definition take_buffer :: "write_buffer \<Rightarrow> word64 \<Rightarrow> bytes \<times> write_buffer" where
  "take_buffer w fid = (case WBufs w fid of Some b \<Rightarrow> b | None \<Rightarrow> [], w\<lparr>WBufs := (WBufs w)(fid := None)\<rparr>)"

text \<open>What a commit hands on, if it hands on anything: the caller runs its commit on it.\<close>

definition commit :: "write_buffer \<Rightarrow> word64 \<Rightarrow> bytes option \<times> write_buffer" where
  "commit w fid = (case take_buffer w fid of (buf, w') \<Rightarrow> (if length buf = 0 then None else Some buf, w'))"

definition commit_text :: "write_buffer \<Rightarrow> word64 \<Rightarrow> string option \<times> write_buffer" where
  "commit_text w fid = (case commit w fid of
      (None, w') \<Rightarrow> (None, w')
    | (Some buf, w') \<Rightarrow> (let s = trim_space buf in if s = [] then None else Some s, w'))"

section \<open>Bounds\<close>

text \<open>No slice of Go is longer than \<open>2 ^ 63 - 1\<close> bytes.\<close>

lemma unat_len64: "length b < 2 ^ 63 \<Longrightarrow> unat (len64 b) = length b"
  by (simp add: len64_def unat_of_nat take_bit_nat_eq_self)

text \<open>Within the sizes the protocol has (a count of 32 bits), a read never panics and returns exactly the
  bytes of the file from the offset on, at most \<open>count\<close> of them, none at or past its end.\<close>

theorem clamp_read_slices:
  assumes "length b < 2 ^ 63" "unat count < 2 ^ 32"
  shows "clamp_read b offset count = Inr (take (unat count) (drop (unat offset) b))"
proof (cases "offset \<ge> len64 b")
  case True
  then show ?thesis using assms by (simp add: clamp_read_def word_le_nat_alt unat_len64)
next
  case False
  then have o: "unat offset < length b" using assms by (simp add: word_le_nat_alt unat_len64)
  then have s: "unat (offset + count) = unat offset + unat count"
    using assms by (simp add: unat_word_ariths)
  from o assms show ?thesis
    by (auto simp: clamp_read_def slice_def word_less_nat_alt word_le_nat_alt unat_len64 s Let_def unat_sub)
qed

theorem clamp_read_slices_witness: "clamp_read ''hello world'' 6 100 = Inr ''world''"
  using clamp_read_slices [of "''hello world''" 100 6] by simp

lemma buffer_write_limit:
  assumes "dat \<noteq> []" "length dat < 2 ^ 63"
  shows "buffer_write w fid offset dat seed =
    (if unat offset + length dat \<le> unat (WMax w)
     then (Inr (of_nat (length dat)), w\<lparr>WBufs := (WBufs w)(fid \<mapsto> buffer_after (WBufs w fid) offset dat seed)\<rparr>)
     else (Inl (TooLarge (WMax w)), w))"
proof (cases "offset > WMax w")
  case True
  then show ?thesis using assms by (simp add: buffer_write_def word_less_nat_alt)
next
  case False
  then have s: "unat (WMax w - offset) = unat (WMax w) - unat offset" by (simp add: unat_sub not_less)
  from False assms show ?thesis by (auto simp: buffer_write_def word_less_nat_alt s unat_len64)
qed

text \<open>A write is refused exactly when its last byte would lie past the limit, also for an offset that would
  wrap the sum around, and a refused write changes nothing.\<close>

theorem write_within_limit:
  assumes "dat \<noteq> []" "length dat < 2 ^ 63"
  shows "buffer_write w fid offset dat seed =
    (if unat offset + length dat \<le> unat (WMax w)
     then (Inr (of_nat (length dat)), w\<lparr>WBufs := (WBufs w)(fid \<mapsto> buffer_after (WBufs w fid) offset dat seed)\<rparr>)
     else (Inl (TooLarge (WMax w)), w))"
  by (rule buffer_write_limit [OF assms])

theorem write_within_limit_witness:
  "fst (buffer_write (new_write_buffer 16) 1 18446744073709551615 ''12345678'' None) = Inl (TooLarge 16)"
  using write_within_limit [of "''12345678''" "new_write_buffer 16" 1 18446744073709551615 None]
  by (simp add: new_write_buffer_def)

section \<open>Writing a file from front to back\<close>

text \<open>The writes of a client that sends the chunks of a file one after another.\<close>

fun write_chunks :: "write_buffer \<Rightarrow> word64 \<Rightarrow> nat \<Rightarrow> bytes list \<Rightarrow> (unit \<Rightarrow> bytes) option \<Rightarrow> vfile_error option \<times> write_buffer" where
  "write_chunks w fid pos [] seed = (None, w)"
| "write_chunks w fid pos (c # cs) seed = (case buffer_write w fid (of_nat pos) c seed of
      (Inl e, w') \<Rightarrow> (Some e, w')
    | (Inr _, w') \<Rightarrow> write_chunks w' fid (pos + length c) cs seed)"

lemma append_after:
  assumes "length buf + length c < 2 ^ 63"
  shows "buffer_after (Some buf) (of_nat (length buf)) c seed = buf @ c"
proof -
  have u: "unat (of_nat (length buf) :: word64) = length buf" "unat (len64 buf) = length buf" "unat (len64 c) = length c"
    using assms unat_len64 [of buf] unat_len64 [of c] by (simp_all add: len64_def)
  have e: "unat (of_nat (length buf) + len64 c) = length buf + length c"
    using assms by (simp add: unat_word_ariths u)
  have "unat (of_nat (length buf) + len64 c - len64 buf) = length c"
    by (simp add: len64_def) (simp add: len64_def [symmetric] u)
  then show ?thesis
    by (auto simp: buffer_after_def Let_def word_less_nat_alt e u overlay_def)
qed

lemma first_after:
  assumes "length c < 2 ^ 63" "\<And>s. seed = Some s \<Longrightarrow> length (s ()) < 2 ^ 63"
  shows "buffer_after None 0 c seed = c"
proof -
  define buf where "buf = (case seed of Some s \<Rightarrow> s () | None \<Rightarrow> [])"
  have b: "length buf < 2 ^ 63" using assms(2) by (auto simp: buf_def split: option.split)
  have u: "unat (len64 buf) = length buf" "unat (len64 c) = length c" using b assms(1) by (simp_all add: unat_len64)
  show ?thesis
  proof (cases "length c > length buf")
    case True
    then have "unat (len64 c - len64 buf) = length c - length buf"
      by (simp add: unat_sub word_le_nat_alt u)
    with True show ?thesis
      by (simp add: buffer_after_def buf_def [symmetric] Let_def word_less_nat_alt u overlay_def len64_def)
  next
    case False
    then have l: "unat (len64 (c @ drop (length c) buf)) = length buf" using b by (subst unat_len64) simp_all
    from False show ?thesis
      by (auto simp: buffer_after_def buf_def [symmetric] Let_def word_less_nat_alt u overlay_def l)
  qed
qed

lemma write_chunks_from:
  assumes "WBufs w fid = Some buf" "length buf + length (concat cs) \<le> unat (WMax w)" "unat (WMax w) < 2 ^ 63" "[] \<notin> set cs"
  shows "write_chunks w fid (length buf) cs seed = (None, w\<lparr>WBufs := (WBufs w)(fid \<mapsto> buf @ concat cs)\<rparr>)"
  using assms
proof (induction cs arbitrary: w buf)
  case Nil
  then show ?case by (simp add: fun_upd_idem)
next
  case (Cons c cs)
  have u: "unat (of_nat (length buf) :: word64) = length buf" using Cons.prems by (simp add: unat_of_nat take_bit_nat_eq_self)
  have "buffer_write w fid (of_nat (length buf)) c seed =
      (Inr (of_nat (length c)), w\<lparr>WBufs := (WBufs w)(fid \<mapsto> buf @ c)\<rparr>)"
    using Cons.prems buffer_write_limit [of c w fid "of_nat (length buf)" seed] append_after [of buf c seed] by (auto simp: u)
  then show ?case
    using Cons.IH [of "w\<lparr>WBufs := (WBufs w)(fid \<mapsto> buf @ c)\<rparr>" "buf @ c"] Cons.prems by (simp add: fun_upd_same del: fun_upd_apply)
qed

lemma writes_commit:
  assumes "WBufs w fid = None" "cs \<noteq> []" "[] \<notin> set cs" "length (concat cs) \<le> unat (WMax w)" "unat (WMax w) < 2 ^ 63"
    "\<And>s. seed = Some s \<Longrightarrow> length (s ()) < 2 ^ 63"
  shows "\<exists>w'. write_chunks w fid 0 cs seed = (None, w') \<and> commit w' fid = (Some (concat cs), w)"
proof -
  obtain c rest where cs: "cs = c # rest" using assms(2) by (cases cs) auto
  have "buffer_write w fid 0 c seed = (Inr (of_nat (length c)), w\<lparr>WBufs := (WBufs w)(fid \<mapsto> c)\<rparr>)"
    using assms buffer_write_limit [of c w fid 0 seed] first_after [of c seed] by (auto simp: cs)
  then have "write_chunks w fid 0 cs seed = (None, w\<lparr>WBufs := (WBufs w)(fid \<mapsto> concat cs)\<rparr>)"
    using write_chunks_from [of "w\<lparr>WBufs := (WBufs w)(fid \<mapsto> c)\<rparr>" fid c rest seed] assms
    by (simp add: cs fun_upd_same del: fun_upd_apply)
  moreover have "commit (w\<lparr>WBufs := (WBufs w)(fid \<mapsto> concat cs)\<rparr>) fid = (Some (concat cs), w)"
    using assms(1,3) by (auto simp: commit_def take_buffer_def cs fun_upd_idem)
  ultimately show ?thesis by blast
qed

text \<open>A client that writes a file from front to back in any chunks, within the limit, commits exactly the
  bytes it sent: nothing of the value the file had before is left over and nothing is cut off.\<close>

theorem writes_commit_whole:
  assumes "WBufs w fid = None" "cs \<noteq> []" "[] \<notin> set cs" "length (concat cs) \<le> unat (WMax w)" "unat (WMax w) < 2 ^ 63"
    "\<And>s. seed = Some s \<Longrightarrow> length (s ()) < 2 ^ 63"
  shows "\<exists>w'. write_chunks w fid 0 cs seed = (None, w') \<and> commit w' fid = (Some (concat cs), w)"
  by (rule writes_commit) (use assms in auto)

theorem writes_commit_whole_witness:
  "\<exists>w'. write_chunks (new_write_buffer 4096) 1 0 [''ne'', ''w''] (Some (\<lambda>_. ''original'')) = (None, w') \<and>
     fst (commit w' 1) = Some ''new''"
  using writes_commit_whole [of "new_write_buffer 4096" 1 "[''ne'', ''w'']" "Some (\<lambda>_. ''original'')"]
  by (auto simp: new_write_buffer_def)

end
