(* ===== verification/Ctl.thy ===== *)
theory Ctl
  imports Kosync_Safe Query Vfile
begin

text \<open>
  \<^verbatim>\<open>internal/fs/ctl\<close>: the command file of the 9P tree. A line written to it is split into words, the verb is
  looked up in the table of commands and run on the library, and the outcome goes to a log that keeps the
  last commands. What a command reports is the datatype \<open>report\<close>; \<open>report_text\<close> is the text the code writes
  for it. Parameters: the text of an error, \<^verbatim>\<open>%q\<close> and \<^verbatim>\<open>strconv.ParseFloat\<close>, and for each book the id its
  operation draws.
\<close>

section \<open>Splitting a command line\<close>

datatype command_error = Unterminated | EmptyCommand

text \<open>\<open>cur\<close> is the word being built, \<open>q\<close> whether a quote is open. The words are those of the rest of the line.\<close>

fun split_words :: "string \<Rightarrow> bool \<Rightarrow> string list \<Rightarrow> string list \<times> bool" where
  "split_words cur q [] = (if cur = [] then [] else [cur], q)"
| "split_words cur q (r # rs) =
     (if r = [CHR 0x22] then split_words cur (\<not> q) rs
      else if r \<in> set space_runes \<and> \<not> q then
        (if cur = [] then split_words [] q rs
         else (case split_words [] q rs of (ws, u) \<Rightarrow> (cur # ws, u)))
      else split_words (cur @ r) q rs)"

definition parse_command :: "string \<Rightarrow> command_error + string \<times> string list" where
  "parse_command s = (case split_words [] False (runes (trim_space s)) of (ws, unterminated) \<Rightarrow>
     if unterminated then Inl Unterminated
     else (case ws of [] \<Rightarrow> Inl EmptyCommand | w # ws \<Rightarrow> Inr (w, ws)))"

section \<open>Selections\<close>

text \<open>The runes of a string as the bytes they take in it, so an invalid byte stays itself.\<close>

fun rune_slices :: "nat \<Rightarrow> string \<Rightarrow> string list" where
  "rune_slices n [] = []"
| "rune_slices 0 s = []"
| "rune_slices (Suc n) s = (let k = max 1 (rune_len s) in take k s # rune_slices n (drop k s))"

text \<open>\<^verbatim>\<open>strings.FieldsFunc\<close>: the runs of runes that are no separator.\<close>

fun fields_of :: "(string \<Rightarrow> bool) \<Rightarrow> string \<Rightarrow> string list \<Rightarrow> string list" where
  "fields_of sep cur [] = (if cur = [] then [] else [cur])"
| "fields_of sep cur (r # rs) =
     (if sep r then (if cur = [] then fields_of sep [] rs else cur # fields_of sep [] rs)
      else fields_of sep (cur @ r) rs)"

definition fields_func :: "(string \<Rightarrow> bool) \<Rightarrow> string \<Rightarrow> string list" where
  "fields_func sep s = fields_of sep [] (rune_slices (length s) s)"

definition is_space :: "string \<Rightarrow> bool" where
  "is_space r \<longleftrightarrow> r \<in> set space_runes"

datatype spec_error = EmptySpec | BadQuery query_error | InvalidId string string | NoValidIds string

fun parse_ids :: "string \<Rightarrow> string list \<Rightarrow> spec_error + int list" where
  "parse_ids spec [] = Inr []"
| "parse_ids spec (p # ps) = (case parse_int64 p of
      None \<Rightarrow> Inl (InvalidId p spec)
    | Some i \<Rightarrow> bind_res (parse_ids spec ps) (\<lambda>is. Inr (i # is)))"

definition parse_id_list :: "string \<Rightarrow> spec_error + query" where
  "parse_id_list spec =
     bind_res (parse_ids spec (fields_func (\<lambda>r. r = '','' \<or> is_space r) spec)) (\<lambda>is.
     if is = [] then Inl (NoValidIds spec) else Inr (empty_query\<lparr>QIDs := is\<rparr>))"

definition parse_selection :: "string \<Rightarrow> spec_error + query" where
  "parse_selection s = (let spec = trim_space s in
     if spec = [] then Inl EmptySpec
     else if spec = ''*'' then Inr empty_query
     else if CHR '':'' \<in> set spec then
       (case parse_query spec of Inl e \<Rightarrow> Inl (BadQuery e) | Inr q \<Rightarrow> Inr (q\<lparr>QExactTitles := True\<rparr>))
     else parse_id_list spec)"

section \<open>The log of commands\<close>

record log_entry =
  Timestamp :: time
  Command :: string
  Result :: string

definition no_entry :: log_entry where
  "no_entry = \<lparr>Timestamp = 0, Command = [], Result = []\<rparr>"

record command_log =
  LogRing :: "log_entry list"
  LogMax :: nat
  LogNext :: nat
  LogFull :: bool

definition new_command_log :: "nat \<Rightarrow> command_log" where
  "new_command_log n = \<lparr>LogRing = replicate n no_entry, LogMax = n, LogNext = 0, LogFull = False\<rparr>"

definition log_append :: "command_log \<Rightarrow> log_entry \<Rightarrow> command_log" where
  "log_append l e = (let next = (LogNext l + 1) mod LogMax l in
     l\<lparr>LogRing := (LogRing l)[LogNext l := e], LogNext := next, LogFull := (next = 0 \<or> LogFull l)\<rparr>)"

definition log_entries :: "command_log \<Rightarrow> log_entry list" where
  "log_entries l = (if LogFull l then drop (LogNext l) (LogRing l) @ take (LogNext l) (LogRing l)
     else take (LogNext l) (LogRing l))"

text \<open>\<^verbatim>\<open>%-30s\<close> pads to 30 runes.\<close>

definition pad_right :: "nat \<Rightarrow> string \<Rightarrow> string" where
  "pad_right n s = s @ replicate (n - length (runes s)) (CHR '' '')"

definition newline :: string where "newline = [CHR 0x0A]"

definition log_text :: "(time \<Rightarrow> string) \<Rightarrow> command_log \<Rightarrow> bytes" where
  "log_text stamp l = (let es = log_entries l in
     if es = [] then ''(no commands yet)'' @ newline
     else concat (map (\<lambda>e. stamp (Timestamp e) @ ''  '' @ pad_right 30 (Command e) @ ''  '' @ Result e @ newline) es))"

section \<open>Reports\<close>

datatype book_failure = NotFound int | Failed int err

datatype report =
    CommandError command_error | UnknownCommand string | Usage string string
  | InvalidRating string | InvalidBookId string | EmptyAuthorName
  | SpecError spec_error | QueryFailed err
  | DeleteFailed book_failure | DeletedBook int
  | EditedBooks string int int "book_failure list"

definition book_error :: "int \<Rightarrow> err \<Rightarrow> book_failure" where
  "book_error i e = (case e of BookNotFound _ \<Rightarrow> NotFound i | _ \<Rightarrow> Failed i e)"

record texts =
  ErrText :: "err \<Rightarrow> string"
  QueryText :: "query_error \<Rightarrow> string"
  Quoted :: "string \<Rightarrow> string"

definition failure_text :: "texts \<Rightarrow> book_failure \<Rightarrow> string" where
  "failure_text t f = (case f of
      NotFound i \<Rightarrow> ''book '' @ dec_int i @ '': not found''
    | Failed i e \<Rightarrow> (let pre = ''book '' @ dec_int i @ '': ''; msg = ErrText t e in
        if prefix pre msg then msg else pre @ msg))"

definition format_result :: "texts \<Rightarrow> string \<Rightarrow> int \<Rightarrow> int \<Rightarrow> book_failure list \<Rightarrow> string" where
  "format_result t op affected skipped errs =
     (let status = (if affected = 0 \<and> errs \<noteq> [] then ''error'' else ''ok'');
          head = (if affected > 0 then status @ '': '' @ dec_int affected @ '' books '' @ op
                  else status @ '': no books '' @ op);
          skip = (if skipped > 0 then [dec_int skipped @ '' skipped''] else []);
          failed = (if errs = [] then []
                    else (''errors: '' @ dec_int (int (length errs)) @ '' book(s)'') # map (\<lambda>e. ''  '' @ failure_text t e) errs)
      in join newline (head # skip @ failed))"

definition spec_text :: "texts \<Rightarrow> spec_error \<Rightarrow> string" where
  "spec_text t e = (case e of
      EmptySpec \<Rightarrow> ''empty id-spec''
    | BadQuery e \<Rightarrow> QueryText t e
    | InvalidId p spec \<Rightarrow> ''invalid id '' @ Quoted t p @ '' in spec '' @ Quoted t spec
    | NoValidIds spec \<Rightarrow> ''no valid ids in spec '' @ Quoted t spec)"

definition report_text :: "texts \<Rightarrow> report \<Rightarrow> string" where
  "report_text t r = (case r of
      CommandError Unterminated \<Rightarrow> ''error: unterminated double-quoted string''
    | CommandError EmptyCommand \<Rightarrow> ''error: empty command''
    | UnknownCommand n \<Rightarrow> ''error: unknown command '' @ Quoted t n
    | Usage n ps \<Rightarrow> ''usage: '' @ n @ '' '' @ ps
    | InvalidRating s \<Rightarrow> ''error: invalid rating '' @ Quoted t s
    | InvalidBookId s \<Rightarrow> ''error: invalid id '' @ Quoted t s
    | EmptyAuthorName \<Rightarrow> ''error: new author name must not be empty''
    | SpecError e \<Rightarrow> ''error: '' @ spec_text t e
    | QueryFailed e \<Rightarrow> ''error: query failed: '' @ ErrText t e
    | DeleteFailed f \<Rightarrow> ''error: '' @ failure_text t f
    | DeletedBook i \<Rightarrow> ''ok: book '' @ dec_int i @ '' deleted''
    | EditedBooks op affected skipped errs \<Rightarrow> format_result t op affected skipped errs)"

section \<open>Editing a selection\<close>

record 'd ctl =
  CEnv :: "'d env"
  CLib :: library
  CDraw :: "int \<Rightarrow> string"
  CFloat :: "string \<Rightarrow> float64 option"

definition ids_only :: "query \<Rightarrow> bool" where
  "ids_only q \<longleftrightarrow> QIDs q \<noteq> [] \<and> QAuthors q = [] \<and> QTags q = [] \<and> QSeries q = [] \<and> QStatus q = [] \<and> QTitles q = []"

definition book_id :: "book \<Rightarrow> int" where "book_id b = MID (Meta b)"

definition by_id :: "book list \<Rightarrow> int \<rightharpoonup> book" where
  "by_id bs = foldl (\<lambda>m b. m(book_id b \<mapsto> b)) Map.empty bs"

record tally =
  Affected :: int
  Skipped :: int
  Errs :: "book_failure list"
  Seen :: "int list"

definition visit_book :: "'d ctl \<Rightarrow> (int \<rightharpoonup> book) \<Rightarrow> (book \<Rightarrow> edits option) \<Rightarrow> int \<Rightarrow> tally \<Rightarrow> world \<Rightarrow> tally \<times> world" where
  "visit_book c byid fn i t w =
     (if i \<in> set (Seen t) then (t, w)
      else (let t = t\<lparr>Seen := i # Seen t\<rparr> in
        case byid i of
          None \<Rightarrow> (t\<lparr>Errs := Errs t @ [NotFound i]\<rparr>, w)
        | Some b \<Rightarrow> (case fn b of
            None \<Rightarrow> (t\<lparr>Skipped := Skipped t + 1\<rparr>, w)
          | Some e \<Rightarrow> (case edit (CEnv c) (CLib c) (CDraw c i) i e w of
              (Inl er, w) \<Rightarrow> (t\<lparr>Errs := Errs t @ [book_error i er]\<rparr>, w)
            | (Inr _, w) \<Rightarrow> (t\<lparr>Affected := Affected t + 1\<rparr>, w)))))"

fun visit_books :: "'d ctl \<Rightarrow> (int \<rightharpoonup> book) \<Rightarrow> (book \<Rightarrow> edits option) \<Rightarrow> int list \<Rightarrow> tally \<Rightarrow> world \<Rightarrow> tally \<times> world" where
  "visit_books c byid fn [] t w = (t, w)"
| "visit_books c byid fn (i # is) t w = (case visit_book c byid fn i t w of (t, w) \<Rightarrow> visit_books c byid fn is t w)"

definition edit_selection :: "'d ctl \<Rightarrow> string \<Rightarrow> query \<Rightarrow> (book \<Rightarrow> edits option) \<Rightarrow> world \<Rightarrow> report \<times> world" where
  "edit_selection c op q fn w = (case lib_search q w of
      (Inl e, w) \<Rightarrow> (QueryFailed e, w)
    | (Inr books, w) \<Rightarrow>
        (let visit = (if ids_only q then QIDs q else map book_id books) in
         case visit_books c (by_id books) fn visit \<lparr>Affected = 0, Skipped = 0, Errs = [], Seen = []\<rparr> w of
           (t, w) \<Rightarrow> (EditedBooks op (Affected t) (Skipped t) (Errs t), w)))"

definition edit_spec :: "'d ctl \<Rightarrow> string \<Rightarrow> string \<Rightarrow> (book \<Rightarrow> edits option) \<Rightarrow> world \<Rightarrow> report \<times> world" where
  "edit_spec c op spec fn w = (case parse_selection spec of
      Inl e \<Rightarrow> (SpecError e, w)
    | Inr q \<Rightarrow> edit_selection c op q fn w)"

section \<open>The edits of each command\<close>

definition add_tag_edits :: "string \<Rightarrow> book \<Rightarrow> edits option" where
  "add_tag_edits tag b = (if tag \<in> set (Tags (Meta b)) then None
     else Some (no_edits\<lparr>EdTags := Some (Tags (Meta b) @ [tag])\<rparr>))"

definition remove_tag_edits :: "string \<Rightarrow> book \<Rightarrow> edits option" where
  "remove_tag_edits tag b = (if tag \<notin> set (Tags (Meta b)) then None
     else Some (no_edits\<lparr>EdTags := Some (filter (\<lambda>t. t \<noteq> tag) (Tags (Meta b)))\<rparr>))"

definition set_status_edits :: "string \<Rightarrow> book \<Rightarrow> edits option" where
  "set_status_edits s b = (if Status (Meta b) = s then None else Some (no_edits\<lparr>EdStatus := Some s\<rparr>))"

text \<open>Floats compare as the code does: no NaN equals anything.\<close>

definition float_eq :: "float64 \<Rightarrow> float64 \<Rightarrow> bool" where
  "float_eq x y \<longleftrightarrow> x = y \<and> x \<noteq> NaN"

definition set_rating_edits :: "float64 \<Rightarrow> book \<Rightarrow> edits option" where
  "set_rating_edits r b = (if float_eq (Rating (Meta b)) r then None else Some (no_edits\<lparr>EdRating := Some r\<rparr>))"

definition renamed_tags :: "string \<Rightarrow> string \<Rightarrow> string list \<Rightarrow> string list" where
  "renamed_tags old new ts = (if new \<in> set ts then filter (\<lambda>t. t \<noteq> old) ts
     else map (\<lambda>t. if t = old then new else t) ts)"

definition rename_tag_edits :: "string \<Rightarrow> string \<Rightarrow> book \<Rightarrow> edits option" where
  "rename_tag_edits old new b = Some (no_edits\<lparr>EdTags := Some (renamed_tags old new (Tags (Meta b)))\<rparr>)"

fun dedupe_authors_seen :: "string list \<Rightarrow> author list \<Rightarrow> author list" where
  "dedupe_authors_seen seen [] = []"
| "dedupe_authors_seen seen (a # as) =
     (if AName a \<in> set seen then dedupe_authors_seen seen as
      else a # dedupe_authors_seen (AName a # seen) as)"

definition dedupe_authors :: "author list \<Rightarrow> author list" where
  "dedupe_authors as = dedupe_authors_seen [] as"

definition rename_author_edits :: "string \<Rightarrow> author \<Rightarrow> book \<Rightarrow> edits option" where
  "rename_author_edits old new b =
     (let hit = (\<lambda>a. AName a = old \<or> ASortName a = old); as = Authors (Bib b) in
      if \<not> list_ex hit as then None
      else Some (no_edits\<lparr>EdAuthors := Some (dedupe_authors (map (\<lambda>a. if hit a then new else a) as))\<rparr>))"

definition rename_series_edits :: "string \<Rightarrow> book \<Rightarrow> edits option" where
  "rename_series_edits new b = Some (no_edits\<lparr>EdSeries := Some new\<rparr>)"

section \<open>The commands\<close>

definition add_tag :: "'d ctl \<Rightarrow> string list \<Rightarrow> world \<Rightarrow> report \<times> world" where
  "add_tag c args = edit_spec c ''edited'' (args ! 1) (add_tag_edits (args ! 0))"

definition remove_tag :: "'d ctl \<Rightarrow> string list \<Rightarrow> world \<Rightarrow> report \<times> world" where
  "remove_tag c args = edit_spec c ''edited'' (args ! 1) (remove_tag_edits (args ! 0))"

definition set_status :: "'d ctl \<Rightarrow> string list \<Rightarrow> world \<Rightarrow> report \<times> world" where
  "set_status c args = edit_spec c ''edited'' (args ! 1) (set_status_edits (args ! 0))"

definition set_rating :: "'d ctl \<Rightarrow> string list \<Rightarrow> world \<Rightarrow> report \<times> world" where
  "set_rating c args w = (case CFloat c (args ! 0) of
      None \<Rightarrow> (InvalidRating (args ! 0), w)
    | Some r \<Rightarrow> edit_spec c ''edited'' (args ! 1) (set_rating_edits r) w)"

definition ctl_delete_book :: "'d ctl \<Rightarrow> string list \<Rightarrow> world \<Rightarrow> report \<times> world" where
  "ctl_delete_book c args w = (case parse_int64 (args ! 0) of
      None \<Rightarrow> (InvalidBookId (args ! 0), w)
    | Some i \<Rightarrow> (case delete (CEnv c) (CLib c) (CDraw c i) i w of
          (Inl e, w) \<Rightarrow> (DeleteFailed (book_error i e), w)
        | (Inr _, w) \<Rightarrow> (DeletedBook i, w)))"

definition rename_tag :: "'d ctl \<Rightarrow> string list \<Rightarrow> world \<Rightarrow> report \<times> world" where
  "rename_tag c args = edit_selection c ''renamed'' (empty_query\<lparr>QTags := [args ! 0]\<rparr>) (rename_tag_edits (args ! 0) (args ! 1))"

definition rename_author :: "'d ctl \<Rightarrow> string list \<Rightarrow> world \<Rightarrow> report \<times> world" where
  "rename_author c args w = (let new = parse_author (args ! 1) in
     if AName new = [] then (EmptyAuthorName, w)
     else edit_selection c ''renamed'' (empty_query\<lparr>QAuthors := [args ! 0]\<rparr>) (rename_author_edits (args ! 0) new) w)"

definition rename_series :: "'d ctl \<Rightarrow> string list \<Rightarrow> world \<Rightarrow> report \<times> world" where
  "rename_series c args = edit_selection c ''renamed'' (empty_query\<lparr>QSeries := [args ! 0]\<rparr>) (rename_series_edits (args ! 1))"

record 'd command =
  CmdName :: string
  CParams :: string
  CDesc :: string
  CRun :: "'d ctl \<Rightarrow> string list \<Rightarrow> world \<Rightarrow> report \<times> world"

definition status_desc :: string where
  "status_desc = ''Set reading status for matching books.'' @ newline @ ''Status: '' @ status_list @ ''.''"

definition rename_tag_desc :: string where
  "rename_tag_desc = join newline
     [''Rename a tag across every book. Renaming <old> onto a'',
      ''tag that already exists merges the two: books that had'',
      ''only <old> now have <new>; books that had both drop the'',
      ''duplicate <old>.'']"

definition rename_author_desc :: string where
  "rename_author_desc = join newline
     [''Rename an author across every book.'',
      ''<old> is matched against display name OR sort name.'',
      ''<new> uses the \"Name | Sort\" format (same as the'',
      ''authors field file).'']"

definition commands :: "'d command list" where
  "commands =
     [\<lparr>CmdName = ''add-tag'', CParams = ''<tag> <id-spec>'', CDesc = ''Add a tag to matching books.'', CRun = add_tag\<rparr>,
      \<lparr>CmdName = ''remove-tag'', CParams = ''<tag> <id-spec>'', CDesc = ''Remove a tag from matching books.'', CRun = remove_tag\<rparr>,
      \<lparr>CmdName = ''set-status'', CParams = ''<status> <id-spec>'', CDesc = status_desc, CRun = set_status\<rparr>,
      \<lparr>CmdName = ''set-rating'', CParams = ''<rating> <id-spec>'', CDesc = ''Set rating (0-5) for matching books.'', CRun = set_rating\<rparr>,
      \<lparr>CmdName = ''delete'', CParams = ''<id>'', CDesc = ''Delete a single book by id.'', CRun = ctl_delete_book\<rparr>,
      \<lparr>CmdName = ''rename-tag'', CParams = ''<old> <new>'', CDesc = rename_tag_desc, CRun = rename_tag\<rparr>,
      \<lparr>CmdName = ''rename-author'', CParams = ''<old> <new>'', CDesc = rename_author_desc, CRun = rename_author\<rparr>,
      \<lparr>CmdName = ''rename-series'', CParams = ''<old> <new>'', CDesc = ''Rename a series across every book.'', CRun = rename_series\<rparr>]"

definition arity :: "string \<Rightarrow> nat" where
  "arity params = length (fields_func is_space params)"

definition dispatch :: "'d ctl \<Rightarrow> string \<Rightarrow> string list \<Rightarrow> world \<Rightarrow> report \<times> world" where
  "dispatch c name args w = (case find (\<lambda>k. CmdName k = name) commands of
      None \<Rightarrow> (UnknownCommand name, w)
    | Some k \<Rightarrow> if length args \<noteq> arity (CParams k) then (Usage (CmdName k) (CParams k), w)
        else CRun k c args w)"

definition execute :: "texts \<Rightarrow> 'd ctl \<Rightarrow> string \<Rightarrow> command_log \<Rightarrow> world \<Rightarrow> command_log \<times> world" where
  "execute t c cmd l w =
     (let (r, w) = (case parse_command cmd of
          Inl e \<Rightarrow> (CommandError e, w)
        | Inr (name, args) \<Rightarrow> dispatch c name args w)
      in (log_append l \<lparr>Timestamp = Clock w, Command = cmd, Result = report_text t r\<rparr>, w))"

section \<open>The file\<close>

definition ctl_read_hint :: bytes where
  "ctl_read_hint = ''write a command line here to run it; read log for results and help for usage.'' @ newline"

definition ctl_read :: "word64 \<Rightarrow> word64 \<Rightarrow> vfile_error + bytes" where
  "ctl_read offset n = clamp_read ctl_read_hint offset n"

record ctl_file =
  CWrites :: write_buffer
  CLog :: command_log

definition new_ctl_file :: "command_log \<Rightarrow> ctl_file" where
  "new_ctl_file l = \<lparr>CWrites = new_write_buffer 4096, CLog = l\<rparr>"

definition ctl_write :: "ctl_file \<Rightarrow> word64 \<Rightarrow> word64 \<Rightarrow> bytes \<Rightarrow> (vfile_error + 32 word) \<times> ctl_file" where
  "ctl_write f fid offset dat = (case buffer_write (CWrites f) fid offset dat None of (r, wb) \<Rightarrow> (r, f\<lparr>CWrites := wb\<rparr>))"

definition ctl_close :: "texts \<Rightarrow> 'd ctl \<Rightarrow> ctl_file \<Rightarrow> word64 \<Rightarrow> world \<Rightarrow> ctl_file \<times> world" where
  "ctl_close t c f fid w = (case commit_text (CWrites f) fid of
      (None, wb) \<Rightarrow> (f\<lparr>CWrites := wb\<rparr>, w)
    | (Some s, wb) \<Rightarrow> (case execute t c s (CLog f) w of (l, w) \<Rightarrow> (f\<lparr>CWrites := wb, CLog := l\<rparr>, w)))"

end
