(* ===== verification/Ctl_Safe.thy ===== *)
theory Ctl_Safe
  imports Ctl
begin

text \<open>
  What the command file promises: its log holds the last commands, a line of quoted words is read back as
  those words, and a command that edits a selection touches exactly the books selected, each at most once.
\<close>

section \<open>The log\<close>

text \<open>The ring after the entries \<open>es\<close> were appended to a new log of \<open>n\<close> entries.\<close>

definition log_holds :: "nat \<Rightarrow> command_log \<Rightarrow> log_entry list \<Rightarrow> bool" where
  "log_holds n l es \<longleftrightarrow> LogMax l = n \<and> length (LogRing l) = n \<and> LogNext l = length es mod n \<and>
     (LogFull l \<longleftrightarrow> n \<le> length es) \<and>
     (\<forall>i < length es. length es \<le> i + n \<longrightarrow> LogRing l ! (i mod n) = es ! i)"

lemma mod_window:
  assumes "i < j" "j < i + n"
  shows "i mod n \<noteq> j mod (n::nat)"
proof
  assume "i mod n = j mod n"
  then have "n dvd j - i" using assms(1) mod_eq_dvd_iff_nat [of i j n] by simp
  then show False using assms dvd_imp_le [of n "j - i"] by simp
qed

lemma log_holds_append:
  assumes "0 < n" "log_holds n l es"
  shows "log_holds n (log_append l e) (es @ [e])"
proof -
  have full: "LogFull (log_append l e) \<longleftrightarrow> n \<le> Suc (length es)"
  proof (cases "n \<le> length es")
    case False
    then show ?thesis using assms by (auto simp: log_append_def log_holds_def Let_def mod_Suc)
  qed (use assms in \<open>auto simp: log_append_def log_holds_def Let_def\<close>)
  have "LogRing (log_append l e) ! (i mod n) = (es @ [e]) ! i" if i: "i < Suc (length es)" "Suc (length es) \<le> i + n" for i
  proof (cases "i = length es")
    case False
    then have "i mod n \<noteq> length es mod n" using i by (intro mod_window) simp_all
    then show ?thesis using assms i False by (simp add: log_append_def log_holds_def Let_def nth_append)
  qed (use assms in \<open>simp add: log_append_def log_holds_def Let_def\<close>)
  with full show ?thesis using assms by (simp add: log_holds_def) (simp add: log_append_def Let_def mod_Suc_eq)
qed

lemma log_holds_new: "log_holds n (new_command_log n) []" if "0 < n"
  using that by (simp add: log_holds_def new_command_log_def)

lemma log_holds_entries:
  assumes "0 < n" "log_holds n l es"
  shows "log_entries l = drop (length es - n) es"
proof (cases "n \<le> length es")
  case False
  then show ?thesis using assms by (auto simp: log_entries_def log_holds_def intro!: nth_equalityI)
next
  case True
  let ?k = "length es mod n"
  have l: "LogNext l = ?k" "length (LogRing l) = n" "LogFull l" using assms True by (simp_all add: log_holds_def)
  have k: "?k < n" using assms(1) by simp
  show ?thesis
  proof (rule nth_equalityI)
    show "length (log_entries l) = length (drop (length es - n) es)"
      using k True by (simp add: log_entries_def l)
    fix i assume "i < length (log_entries l)"
    then have i: "i < n" using k by (simp add: log_entries_def l)
    let ?j = "length es - n + i"
    have j: "?j < length es" "length es \<le> ?j + n" using i True by simp_all
    have m: "?j mod n = (?k + i) mod n"
    proof -
      have "?j mod n = (?j + n) mod n" by simp
      also have "?j + n = length es + i" using True by simp
      finally show ?thesis by (simp add: mod_add_left_eq)
    qed
    have "log_entries l ! i = LogRing l ! ((?k + i) mod n)"
    proof (cases "?k + i < n")
      case False
      then have "?k + i - n < n" using k i by linarith
      then have "(?k + i) mod n = ?k + i - n" using False le_mod_geq [of n "?k + i"] by simp
      moreover have "?k + i - n < ?k" using False k i by linarith
      ultimately show ?thesis using False k by (auto simp: log_entries_def l nth_append add.commute)
    qed (use k in \<open>simp add: log_entries_def l nth_append\<close>)
    also have "\<dots> = es ! ?j" using assms(2) j unfolding m [symmetric] by (simp add: log_holds_def)
    finally show "log_entries l ! i = drop (length es - n) es ! i" using True by simp
  qed
qed

text \<open>C19: however many commands were run, the log shows the last ones it has room for, oldest first.\<close>

theorem log_keeps_last:
  assumes "0 < n"
  shows "log_entries (foldl log_append (new_command_log n) es) = drop (length es - n) es"
proof -
  have "log_holds n (foldl log_append (new_command_log n) es) es"
    by (induction es rule: rev_induct) (simp_all add: log_holds_new log_holds_append assms)
  then show ?thesis by (rule log_holds_entries [OF assms])
qed

theorem log_keeps_last_witness:
  "map Command (log_entries (foldl log_append (new_command_log 2)
     [no_entry\<lparr>Command := ''a''\<rparr>, no_entry\<lparr>Command := ''b''\<rparr>, no_entry\<lparr>Command := ''c''\<rparr>])) = [''b'', ''c'']"
  using log_keeps_last [of 2 "[no_entry\<lparr>Command := ''a''\<rparr>, no_entry\<lparr>Command := ''b''\<rparr>, no_entry\<lparr>Command := ''c''\<rparr>]"] by simp

section \<open>Words in quotes\<close>

definition valid_utf8 :: "string \<Rightarrow> bool" where
  "valid_utf8 s \<longleftrightarrow> concat (runes s) = s"

definition quote_word :: "string \<Rightarrow> string" where
  "quote_word w = [CHR 0x22] @ w @ [CHR 0x22]"

abbreviation quote_mark :: string where "quote_mark \<equiv> [CHR 0x22]"

lemma split_words_quoted:
  "quote_mark \<notin> set rs \<Longrightarrow> split_words cur True (rs @ rest) = split_words (cur @ concat rs) True rest"
  by (induction rs arbitrary: cur) auto

lemma rune_ok_byte: "byte c < 128 \<Longrightarrow> rune_ok [c]"
  by (simp add: rune_ok_def rune_len_def)

fun quoted_runes :: "string list \<Rightarrow> string list" where
  "quoted_runes [] = []"
| "quoted_runes [w] = quote_mark # runes w @ [quote_mark]"
| "quoted_runes (w # v # ws) = quote_mark # runes w @ quote_mark # [CHR 0x20] # quoted_runes (v # ws)"

lemma quoted_runes_ok: "r \<in> set (quoted_runes ws) \<Longrightarrow> rune_ok r"
  by (induction ws rule: quoted_runes.induct) (auto simp: runes_ok rune_ok_byte byte_def)

lemma quoted_runes_concat:
  "\<forall>w \<in> set ws. valid_utf8 w \<Longrightarrow> concat (quoted_runes ws) = join '' '' (map quote_word ws)"
  by (induction ws rule: quoted_runes.induct) (simp_all add: valid_utf8_def quote_word_def)

lemma runes_no_quote: "CHR 0x22 \<notin> set w \<Longrightarrow> valid_utf8 w \<Longrightarrow> quote_mark \<notin> set (runes w)"
  unfolding valid_utf8_def by (metis UN_I list.set_intros(1) set_concat)

lemma split_quoted_runes:
  assumes "\<forall>w \<in> set ws. w \<noteq> [] \<and> valid_utf8 w \<and> CHR 0x22 \<notin> set w"
  shows "split_words [] False (quoted_runes ws) = (ws, False)"
  using assms
proof (induction ws rule: quoted_runes.induct)
  case (2 w)
  then show ?case using split_words_quoted [of "runes w" "[]" "[quote_mark]"] runes_no_quote [of w]
    by (simp add: valid_utf8_def)
next
  case (3 w v ws)
  then show ?case
    using split_words_quoted [of "runes w" "[]" "quote_mark # [CHR 0x20] # quoted_runes (v # ws)"] runes_no_quote [of w]
    by (simp add: valid_utf8_def space_runes_def)
qed simp

lemma strip_quote:
  "strip_one space_runes (CHR 0x22 # s) = None" "strip_one (map rev space_runes) (CHR 0x22 # s) = None"
  by (simp_all add: strip_one_def find_None_iff space_runes_def)

lemma quoted_last: "ws \<noteq> [] \<Longrightarrow> \<exists>t. join '' '' (map quote_word ws) = t @ [CHR 0x22]"
  by (induction ws rule: quoted_runes.induct) (auto simp: quote_word_def)

lemma quoted_first: "ws \<noteq> [] \<Longrightarrow> \<exists>t. join '' '' (map quote_word ws) = CHR 0x22 # t"
  by (cases ws rule: quoted_runes.cases) (auto simp: quote_word_def)

lemma trim_quoted: "ws \<noteq> [] \<Longrightarrow> trim_space (join '' '' (map quote_word ws)) = join '' '' (map quote_word ws)"
proof -
  assume "ws \<noteq> []"
  then obtain t u where "join '' '' (map quote_word ws) = t @ [CHR 0x22]" "join '' '' (map quote_word ws) = CHR 0x22 # u"
    using quoted_first quoted_last by blast
  then show ?thesis unfolding trim_space_def
    by (metis rev.simps(2) rev_rev_ident rev_append append_Nil rev_singleton_conv strip_all_id strip_quote append_Cons)
qed

text \<open>C20: a line of words in double quotes, separated by spaces, is read as those words, whatever other
  characters they hold.\<close>

theorem quoted_words_read_back:
  assumes "\<forall>v \<in> set (w # ws). v \<noteq> [] \<and> valid_utf8 v \<and> CHR 0x22 \<notin> set v"
  shows "parse_command (join '' '' (map quote_word (w # ws))) = Inr (w, ws)"
proof -
  have "runes (join '' '' (map quote_word (w # ws))) = quoted_runes (w # ws)"
    using quoted_runes_concat [of "w # ws"] runes_concat [of "quoted_runes (w # ws)"] quoted_runes_ok [of _ "w # ws"] assms
    by auto
  then show ?thesis
    using split_quoted_runes [of "w # ws"] trim_quoted [of "w # ws"] assms by (simp add: parse_command_def)
qed

theorem quoted_words_read_back_witness:
  "parse_command (join '' '' (map quote_word [''add-tag'', ''science fiction'', ''1, 2''])) = Inr (''add-tag'', [''science fiction'', ''1, 2''])"
  by (rule quoted_words_read_back) code_simp

section \<open>Editing a selection\<close>

text \<open>The book \<open>b'\<close> is what \<open>b\<close> became by an edit \<open>fn\<close> asked for.\<close>

definition edited_as :: "(book \<Rightarrow> edits option) \<Rightarrow> (int \<rightharpoonup> book) \<Rightarrow> book \<Rightarrow> book \<Rightarrow> bool" where
  "edited_as fn byid b b' \<longleftrightarrow> (\<exists>s e b0 b1 obs. byid (book_id b) = Some s \<and> fn s = Some e \<and> bare b0 = b \<and>
     edited_meta (normalized e) b0 (Meta b1) \<and> b' = bare (recorded b1 obs))"

text \<open>A book that is in no state to be edited: it is not there or already as asked for.\<close>

definition no_edit :: "(book \<Rightarrow> edits option) \<Rightarrow> (int \<rightharpoonup> book) \<Rightarrow> int \<Rightarrow> bool" where
  "no_edit fn byid i \<longleftrightarrow> (case byid i of None \<Rightarrow> True | Some b \<Rightarrow> fn b = None)"

text \<open>What a run of edits has done to the index \<open>d\<close>: the books \<open>A\<close> were edited, one edit each, the others are
  as they were, and a book that was seen and is not in \<open>A\<close> had nothing to edit or is reported.\<close>

definition edits_done :: "(book \<Rightarrow> edits option) \<Rightarrow> (int \<rightharpoonup> book) \<Rightarrow> db \<Rightarrow> tally \<Rightarrow> db \<Rightarrow> int set \<Rightarrow> bool" where
  "edits_done fn byid d t d' A \<longleftrightarrow> index_ok d' \<and> finite A \<and> int (card A) = Affected t \<and> A \<subseteq> set (Seen t) \<and>
     (\<forall>i. i \<notin> A \<longrightarrow> abs_index d' i = abs_index d i) \<and>
     (\<forall>i \<in> A. \<exists>b b'. abs_index d i = Some b \<and> abs_index d' i = Some b' \<and> edited_as fn byid b b') \<and>
     (Errs t = [] \<longrightarrow> (\<forall>i \<in> set (Seen t) - A. byid i \<noteq> None \<and> no_edit fn byid i))"

lemma abs_index_get: "abs_index d i = Some x \<longleftrightarrow> (\<exists>b. get_book i d = Inr b \<and> bare b = x)"
  by (auto simp: abs_index_def split: sum.splits)

lemma bare_id [simp]: "book_id (bare b) = book_id b" "MID (Meta (bare b)) = MID (Meta b)"
  by (simp_all add: bare_def book_id_def)

lemma edits_done_same:
  assumes "edits_done fn byid d t d' A" "undone k d' d''" "Errs t' = [] \<Longrightarrow> Errs t = [] \<and> byid i \<noteq> None \<and> no_edit fn byid i"
    "Affected t' = Affected t" "Seen t' = i # Seen t"
  shows "edits_done fn byid d t' d'' A"
proof -
  have ok: "index_ok d'" using assms(1) by (simp add: edits_done_def)
  then have "abs_index d'' = abs_index d'" "index_ok d''"
    using undone_simps(2) [OF assms(2)] index_ok_undone(1) [OF ok assms(2)] by (simp_all add: index_ok_def)
  then show ?thesis using assms(1,3-5) by (auto simp: edits_done_def)
qed

lemma undone_refl: "undone k d d"
  by (simp add: undone_def)

lemma visit_book_done:
  assumes "edits_done fn byid d t (WDb w) A" "hooks_ok (CLib c)" "visit_book c byid fn i t w = (t', w')"
  shows "\<exists>A'. edits_done fn byid d t' (WDb w') A' \<and> set (Seen t') = insert i (set (Seen t))"
proof (cases "i \<in> set (Seen t)")
  case True
  then show ?thesis using assms(1,3) by (auto simp: visit_book_def)
next
  case False
  have ok: "index_ok (WDb w)" using assms(1) by (simp add: edits_done_def)
  have db: "db_ok (WDb w)" using ok by (simp add: index_ok_def)
  show ?thesis
  proof (cases "no_edit fn byid i")
    case True
    then have w: "w' = w" and t: "Affected t' = Affected t" "Seen t' = i # Seen t" "Errs t' = [] \<longrightarrow> Errs t = [] \<and> byid i \<noteq> None"
      using assms(3) False by (auto simp: visit_book_def no_edit_def Let_def split: option.splits)
    have "edits_done fn byid d t' (WDb w) A"
      by (rule edits_done_same [OF assms(1) undone_refl [of "[]"], of t' i]) (use t True in auto)
    with w t show ?thesis by auto
  next
    case not: False
    then obtain b e where b: "byid i = Some b" "fn b = Some e" by (auto simp: no_edit_def split: option.splits)
    obtain r w1 where e: "edit (CEnv c) (CLib c) (CDraw c i) i e w = (r, w1)" by (cases "edit (CEnv c) (CLib c) (CDraw c i) i e w")
    note h = holdsD [OF holds_edit [OF db assms(2)] e refl]
    show ?thesis
    proof (cases r)
      case (Inl er)
      then have u: "undone (CDraw c i) (WDb w) (WDb w1)" using h by simp
      have "w' = w1" and t: "Affected t' = Affected t" "Seen t' = i # Seen t" "Errs t' \<noteq> []"
        using assms(3) False Inl b e by (auto simp: visit_book_def Let_def)
      then show ?thesis using edits_done_same [OF assms(1) u, of t' i] by auto
    next
      case (Inr b1)
      then obtain b0 where p: "MID (Meta b1) = i" "put_into (WDb w) b1 (WDb w1)" "get_book i (WDb w) = Inr b0"
          "edited_meta (normalized e) b0 (Meta b1)" using h by auto
      then obtain obs where abs1: "abs_index (WDb w1) = (abs_index (WDb w))(i \<mapsto> bare (recorded b1 obs))" by (auto simp: put_into_def)
      have t: "w' = w1" "Affected t' = Affected t + 1" "Seen t' = i # Seen t" "Errs t' = Errs t"
        using assms(3) False Inr b e by (auto simp: visit_book_def Let_def)
      have i: "i \<notin> A" "abs_index (WDb w) i = Some (bare b0)" "MID (Meta b0) = i"
        using assms(1) False p(3) get_book_id [OF db p(3)] by (auto simp: edits_done_def abs_index_get)
      then have same: "abs_index d i = Some (bare b0)" using assms(1) by (auto simp: edits_done_def)
      have "edited_as fn byid (bare b0) (bare (recorded b1 obs))"
        unfolding edited_as_def using b p(4) i(3) by (auto simp: book_id_def)
      moreover have "index_ok (WDb w1)"
        using index_ok_put [OF ok p(2)] i(2) p(1) ok by (auto simp: index_ok_def)
      ultimately have "edits_done fn byid d t' (WDb w1) (insert i A)"
        using assms(1) i(1) same abs1 t by (auto simp: edits_done_def)
      with t show ?thesis by auto
    qed
  qed
qed

lemma visit_books_done:
  assumes "edits_done fn byid d t (WDb w) A" "hooks_ok (CLib c)" "visit_books c byid fn is t w = (t', w')"
  shows "\<exists>A'. edits_done fn byid d t' (WDb w') A' \<and> set (Seen t') = set is \<union> set (Seen t)"
  using assms
proof (induction "is" arbitrary: t w A)
  case (Cons i "is")
  obtain t1 w1 where v: "visit_book c byid fn i t w = (t1, w1)" by (cases "visit_book c byid fn i t w")
  from visit_book_done [OF Cons.prems(1,2) v] obtain A1 where
    "edits_done fn byid d t1 (WDb w1) A1" "set (Seen t1) = insert i (set (Seen t))" by blast
  with Cons.IH [of t1 w1 A1] Cons.prems v show ?case by auto
qed auto

lemma by_id_Some: "by_id bs i = Some b \<Longrightarrow> b \<in> set bs \<and> book_id b = i"
  unfolding by_id_def by (induction bs rule: rev_induct) (auto split: if_splits)

lemma by_id_dom: "b \<in> set bs \<Longrightarrow> by_id bs (book_id b) \<noteq> None"
  unfolding by_id_def by (induction bs rule: rev_induct) auto

text \<open>A search result is what the index shows for its id, and its row matches.\<close>

lemma search_row:
  assumes "db_ok d" "b \<in> set (search q d)"
  shows "\<exists>r. row_matches d q r \<and> RID r = book_id b \<and> abs_index d (book_id b) = Some (bare b)"
proof -
  have "bare b \<in> set (map bare (search q d))" using assms(2) by simp
  then obtain r where r: "r \<in> set (query_rows q d)" "bare b = shown d r"
    unfolding search_shown [OF assms(1)] by auto
  have sub: "set (query_rows q d) \<subseteq> set (filter (row_matches d q) (Books d))"
    using mset_eq_setD [OF order_rows_mset [of "QOrder q" "filter (row_matches d q) (Books d)"]]
    by (auto simp: query_rows_def limit_rows_def dest: in_set_takeD)
  have m: "r \<in> set (Books d)" "row_matches d q r" using r(1) sub by auto
  have a: "abs_index d (RID r) = Some (bare b)"
    by (simp add: abs_index_shown [OF assms(1)] row_of_in [OF assms(1) m(1)] r(2))
  then have "RID r = book_id b"
    using get_book_id [OF assms(1)] by (metis abs_index_get bare_id(1) book_id_def)
  with m(2) a show ?thesis by auto
qed

lemma search_ids:
  assumes "db_ok d" "ids_only q"
  shows "book_id ` set (search q d) \<subseteq> set (QIDs q)"
proof
  fix i assume "i \<in> book_id ` set (search q d)"
  then obtain b where b: "b \<in> set (search q d)" "i = book_id b" by blast
  from search_row [OF assms(1) b(1)] obtain r where "row_matches d q r" "RID r = i" using b(2) by auto
  then show "i \<in> set (QIDs q)" using assms(2) by (auto simp: row_matches_def ids_only_def)
qed

lemma lib_search_db: "lib_search q w = (r, w') \<Longrightarrow> WDb w' = WDb w \<and> (\<forall>bs. r = Inr bs \<longrightarrow> bs = search q (WDb w))"
  unfolding lib_search_def db_read_def by (erule db_call_cases) auto

lemma edit_selection_done:
  assumes "edit_selection c op q fn w = (EditedBooks op' n m errs, w')" "index_ok (WDb w)" "hooks_ok (CLib c)"
  shows "\<exists>A t. edits_done fn (by_id (search q (WDb w))) (WDb w) t (WDb w') A \<and> Affected t = n \<and> Errs t = errs \<and>
    book_id ` set (search q (WDb w)) \<subseteq> set (Seen t)"
proof -
  obtain r w1 where l: "lib_search q w = (r, w1)" by (cases "lib_search q w")
  then have bs: "r = Inr (search q (WDb w))" and d: "WDb w1 = WDb w"
    using lib_search_db [OF l] assms(1) by (auto simp: edit_selection_def split: sum.splits)
  let ?visit = "if ids_only q then QIDs q else map book_id (search q (WDb w))"
  let ?t0 = "\<lparr>Affected = 0, Skipped = 0, Errs = [], Seen = []\<rparr>"
  obtain t where v: "visit_books c (by_id (search q (WDb w))) fn ?visit ?t0 w1 = (t, w')" "n = Affected t" "errs = Errs t"
    using assms(1) l by (auto simp: edit_selection_def bs split: prod.splits)
  have "edits_done fn (by_id (search q (WDb w))) (WDb w) ?t0 (WDb w1) {}"
    using assms(2) by (simp add: edits_done_def d)
  from visit_books_done [OF this assms(3) v(1)] obtain A where
    A: "edits_done fn (by_id (search q (WDb w))) (WDb w) t (WDb w') A" "set (Seen t) = set ?visit" by auto
  have "book_id ` set (search q (WDb w)) \<subseteq> set ?visit"
    using search_ids [of "WDb w" q] assms(2) by (auto simp: index_ok_def)
  then show ?thesis using A v(2,3) by (intro exI [of _ A] exI [of _ t]) simp
qed

lemma arity_tag [simp]: "arity ''<tag> <id-spec>'' = 2"
  by code_simp

lemma dispatch_add_tag: "dispatch c ''add-tag'' [tag, spec] = edit_spec c ''edited'' spec (add_tag_edits tag)"
  by (rule ext) (simp add: dispatch_def commands_def add_tag_def)

lemma edited_tags:
  assumes "edited_meta (normalized (no_edits\<lparr>EdTags := Some ts\<rparr>)) b0 (Meta b1)"
  shows "Tags (Meta (bare (recorded b1 obs))) = sort ts" "Rating (Meta (bare (recorded b1 obs))) = Rating (Meta b0)"
  using assms by (simp_all add: edited_meta_def normalized_def no_edits_def or_else_def bare_def recorded_def)

lemma bare_meta [simp]: "Meta (bare b) = Meta b"
  by (simp add: bare_def)


definition sample_ctl :: "unit ctl" where
  "sample_ctl = \<lparr>CEnv = sample_env, CLib = sample_library, CDraw = (\<lambda>_. ''k''), CFloat = (\<lambda>_. None)\<rparr>"

lemma lib_search_works: "Alive w \<Longrightarrow> Fates w = [] \<Longrightarrow> \<exists>w'. lib_search q w = (Inr (search q (WDb w)), w')"
  by (simp add: lib_search_def db_read_def db_call_def syscall_def)

lemma edit_selection_reports:
  assumes "lib_search q w = (Inr bs, w1)"
  shows "\<exists>n m errs w'. edit_selection c op q fn w = (EditedBooks op n m errs, w')"
  by (auto simp: edit_selection_def assms Let_def split: prod.split)


text \<open>C18: renaming a tag leaves a book with the new tag in the place of the old one and no duplicate, also when it
  had both; renaming a tag onto itself removes it.\<close>

theorem rename_tag_merges:
  "set (renamed_tags old new ts) = (if old \<in> set ts \<and> old \<noteq> new then insert new (set ts - {old}) else set ts - {old}) \<and>
   (distinct ts \<longrightarrow> distinct (renamed_tags old new ts))"
proof -
  have "distinct (map (\<lambda>t. if t = old then new else t) ts)" if "distinct ts" "new \<notin> set ts"
    using that by (induction ts) auto
  then show ?thesis by (auto simp: renamed_tags_def)
qed

theorem rename_tag_merges_witness:
  "renamed_tags ''a'' ''b'' [''a'', ''b''] = [''b''] \<and> renamed_tags ''a'' ''a'' [''a''] = [] \<and> distinct (renamed_tags ''a'' ''c'' [''a'', ''b''])"
  using rename_tag_merges [of "''a''" "''c''" "[''a'', ''b'']"] by (simp add: renamed_tags_def)

end
