(* ===== verification/Registry.thy ===== *)
theory Registry
  imports Book "HOL-Library.AList"
begin

text \<open>
  \<^verbatim>\<open>internal/fs/registry\<close>: the books of the served tree and the listings (views) that follow them. A
  \<^verbatim>\<open>*book.BookDir\<close> is a stable identity for one book id with a snapshot that is swapped, so a directory is its id
  and \<open>RgBooks\<close> holds the snapshots. A view is a value of any type with the two operations of the interface
  \<^verbatim>\<open>BookView\<close>, which get the snapshots of the moment; its key stands for the pointer views are compared by.
  Go walks the map of books in any order, here the order of \<open>RgBooks\<close>. The lock makes each operation atomic.
\<close>

type_synonym snapshots_of = "int \<Rightarrow> book"

record 'v view_ops =
  VAdd :: "snapshots_of \<Rightarrow> int \<Rightarrow> 'v \<Rightarrow> 'v"
  VRemove :: "snapshots_of \<Rightarrow> int \<Rightarrow> 'v \<Rightarrow> 'v"

record ('k, 'v) registry =
  RgBooks :: "(int \<times> book) list"
  RgViews :: "('k \<times> 'v) list"

definition new_registry :: "('k, 'v) registry" where
  "new_registry = \<lparr>RgBooks = [], RgViews = []\<rparr>"

definition snap :: "('k, 'v) registry \<Rightarrow> snapshots_of" where
  "snap r i = the (map_of (RgBooks r) i)"

definition reg_ids :: "('k, 'v) registry \<Rightarrow> int list" where
  "reg_ids r = map fst (RgBooks r)"

definition each_view :: "('v \<Rightarrow> 'v) \<Rightarrow> ('k, 'v) registry \<Rightarrow> ('k, 'v) registry" where
  "each_view f r = r\<lparr>RgViews := map (\<lambda>(k, v). (k, f v)) (RgViews r)\<rparr>"

definition fill_view :: "'v view_ops \<Rightarrow> ('k, 'v) registry \<Rightarrow> 'v \<Rightarrow> 'v" where
  "fill_view ops r v = foldl (\<lambda>v i. VAdd ops (snap r) i v) v (reg_ids r)"

definition dir_locked :: "book \<Rightarrow> ('k, 'v) registry \<Rightarrow> ('k, 'v) registry" where
  "dir_locked b r = (case map_of (RgBooks r) (MID (Meta b)) of
      Some _ \<Rightarrow> r
    | None \<Rightarrow> r\<lparr>RgBooks := RgBooks r @ [(MID (Meta b), b)]\<rparr>)"

definition add_locked :: "'v view_ops \<Rightarrow> book \<Rightarrow> ('k, 'v) registry \<Rightarrow> ('k, 'v) registry" where
  "add_locked ops b r = (let r = dir_locked b r in each_view (VAdd ops (snap r) (MID (Meta b))) r)"

definition reg_commit :: "'v view_ops \<Rightarrow> int \<Rightarrow> book \<Rightarrow> ('k, 'v) registry \<Rightarrow> ('k, 'v) registry" where
  "reg_commit ops i updated r =
     (let r = each_view (VRemove ops (snap r) i) r;
          r = r\<lparr>RgBooks := AList.update i updated (RgBooks r)\<rparr>
      in each_view (VAdd ops (snap r) i) r)"

definition reg_ingested :: "'v view_ops \<Rightarrow> book \<Rightarrow> ('k, 'v) registry \<Rightarrow> ('k, 'v) registry" where
  "reg_ingested ops b r = add_locked ops b r"

definition reg_edited :: "'v view_ops \<Rightarrow> book \<Rightarrow> ('k, 'v) registry \<Rightarrow> ('k, 'v) registry" where
  "reg_edited ops b r = (case map_of (RgBooks r) (MID (Meta b)) of
      None \<Rightarrow> r
    | Some _ \<Rightarrow> reg_commit ops (MID (Meta b)) b r)"

definition reg_remove :: "'v view_ops \<Rightarrow> int \<Rightarrow> ('k, 'v) registry \<Rightarrow> ('k, 'v) registry" where
  "reg_remove ops i r = (case map_of (RgBooks r) i of
      None \<Rightarrow> r
    | Some _ \<Rightarrow> (let r = each_view (VRemove ops (snap r) i) r in r\<lparr>RgBooks := AList.delete i (RgBooks r)\<rparr>))"

definition reg_deleted :: "'v view_ops \<Rightarrow> int \<Rightarrow> ('k, 'v) registry \<Rightarrow> ('k, 'v) registry" where
  "reg_deleted ops i r = reg_remove ops i r"

definition add_view :: "'v view_ops \<Rightarrow> 'k \<Rightarrow> 'v \<Rightarrow> ('k, 'v) registry \<Rightarrow> ('k, 'v) registry" where
  "add_view ops k v r = r\<lparr>RgViews := RgViews r @ [(k, fill_view ops r v)]\<rparr>"

fun remove_first :: "'k \<Rightarrow> ('k \<times> 'v) list \<Rightarrow> ('k \<times> 'v) list" where
  "remove_first k [] = []"
| "remove_first k ((j, v) # vs) = (if j = k then vs else (j, v) # remove_first k vs)"

definition remove_view :: "'k \<Rightarrow> ('k, 'v) registry \<Rightarrow> ('k, 'v) registry" where
  "remove_view k r = r\<lparr>RgViews := remove_first k (RgViews r)\<rparr>"

definition resync_view :: "'v view_ops \<Rightarrow> 'k \<Rightarrow> ('v \<Rightarrow> 'v) \<Rightarrow> ('k, 'v) registry \<Rightarrow> ('k, 'v) registry" where
  "resync_view ops k reset r =
     r\<lparr>RgViews := map (\<lambda>(j, v). (j, if j = k then fill_view ops r (reset v) else v)) (RgViews r)\<rparr>"

definition load :: "'v view_ops \<Rightarrow> book list \<Rightarrow> ('k, 'v) registry \<Rightarrow> ('k, 'v) registry" where
  "load ops bs r = foldl (\<lambda>r b. add_locked ops b r) r bs"

section \<open>What the operations do to the books\<close>

lemma ids_map_of: "map_of (RgBooks r) i = None \<longleftrightarrow> i \<notin> set (reg_ids r)"
  by (simp add: reg_ids_def map_of_eq_None_iff)

lemma ids_each [simp]: "reg_ids (each_view f r) = reg_ids r" "snap (each_view f r) = snap r"
    "RgBooks (each_view f r) = RgBooks r"
  by (simp_all add: reg_ids_def each_view_def snap_def fun_eq_iff)

lemma each_view_in: "(k, v) \<in> set (RgViews (each_view f r)) \<longleftrightarrow> (\<exists>u. v = f u \<and> (k, u) \<in> set (RgViews r))"
  by (auto simp: each_view_def)

lemma ingested_books:
  assumes "MID (Meta b) \<notin> set (reg_ids r)"
  shows "reg_ids (dir_locked b r) = reg_ids r @ [MID (Meta b)]" "snap (dir_locked b r) = (snap r)(MID (Meta b) := b)"
    "RgViews (dir_locked b r) = RgViews r"
    "set (reg_ids (reg_ingested ops b r)) = insert (MID (Meta b)) (set (reg_ids r))"
    "snap (reg_ingested ops b r) = (snap r)(MID (Meta b) := b)"
proof -
  let ?i = "MID (Meta b)" and ?r = "dir_locked b r"
  have r: "RgBooks ?r = RgBooks r @ [(?i, b)]"
    using assms ids_map_of [of r ?i] by (simp add: dir_locked_def)
  show "RgViews ?r = RgViews r" using assms ids_map_of [of r ?i] by (simp add: dir_locked_def)
  show ids: "reg_ids ?r = reg_ids r @ [?i]" by (simp add: reg_ids_def r)
  show snap: "snap ?r = (snap r)(?i := b)"
    using assms ids_map_of [of r ?i] by (auto simp: snap_def fun_eq_iff r map_add_def split: option.split)
  show "set (reg_ids (reg_ingested ops b r)) = insert ?i (set (reg_ids r))"
    by (simp add: reg_ingested_def add_locked_def ids Let_def)
  show "snap (reg_ingested ops b r) = (snap r)(?i := b)"
    by (simp add: reg_ingested_def add_locked_def snap Let_def)
qed

lemma edited_books:
  assumes "MID (Meta b) \<in> set (reg_ids r)"
  shows "reg_ids (reg_edited ops b r) = reg_ids r" "snap (reg_edited ops b r) = (snap r)(MID (Meta b) := b)"
proof -
  have e: "RgBooks (reg_edited ops b r) = AList.update (MID (Meta b)) b (RgBooks r)"
    using assms ids_map_of [of r "MID (Meta b)"] by (auto simp: reg_edited_def reg_commit_def Let_def split: option.split)
  show "reg_ids (reg_edited ops b r) = reg_ids r" using assms by (simp add: reg_ids_def e update_keys)
  show "snap (reg_edited ops b r) = (snap r)(MID (Meta b) := b)" by (simp add: snap_def fun_eq_iff e update_conv')
qed

section \<open>What a view promises\<close>

text \<open>
  \<open>files B v S\<close>: under the snapshots \<open>B\<close> the view \<open>v\<close> is the listing of the books \<open>S\<close>. \<open>allowed B S\<close> says which
  populations the view can list. A view that keeps these laws follows the registry through every event.
\<close>

locale book_view =
  fixes ops :: "'v view_ops"
    and allowed :: "snapshots_of \<Rightarrow> int set \<Rightarrow> bool"
    and files :: "snapshots_of \<Rightarrow> 'v \<Rightarrow> int set \<Rightarrow> bool"
  assumes add: "files B v S \<Longrightarrow> i \<notin> S \<Longrightarrow> allowed B (insert i S) \<Longrightarrow> files B (VAdd ops B i v) (insert i S)"
    and remove: "files B v S \<Longrightarrow> i \<in> S \<Longrightarrow> files B (VRemove ops B i v) (S - {i})"
    and frame: "files B v S \<Longrightarrow> (\<And>i. i \<in> S \<Longrightarrow> B' i = B i) \<Longrightarrow> files B' v S"
    and smaller: "allowed B S \<Longrightarrow> T \<subseteq> S \<Longrightarrow> allowed B T"
begin

definition reg_ok :: "('k, 'v) registry \<Rightarrow> bool" where
  "reg_ok r \<longleftrightarrow> distinct (reg_ids r) \<and> (\<forall>(k, v) \<in> set (RgViews r). files (snap r) v (set (reg_ids r)))"

lemma reg_okD: "reg_ok r \<Longrightarrow> (k, v) \<in> set (RgViews r) \<Longrightarrow> files (snap r) v (set (reg_ids r))"
  by (auto simp: reg_ok_def)

lemma ingested_ok:
  assumes "reg_ok r" "MID (Meta b) \<notin> set (reg_ids r)" "allowed ((snap r)(MID (Meta b) := b)) (insert (MID (Meta b)) (set (reg_ids r)))"
  shows "reg_ok (reg_ingested ops b r)"
proof -
  let ?i = "MID (Meta b)"
  let ?B = "(snap r)(?i := b)"
  note books = ingested_books [OF assms(2)]
  have "files ?B (VAdd ops ?B ?i u) (insert ?i (set (reg_ids r)))" if "(k, u) \<in> set (RgViews r)" for k u
    by (rule add [OF frame [OF reg_okD [OF assms(1) that]] assms(2,3)]) (use assms(2) in auto)
  then show ?thesis using assms(1,2)
    by (auto simp: reg_ok_def reg_ingested_def add_locked_def each_view_in books Let_def)
qed

lemma edited_ok:
  assumes "reg_ok r" "MID (Meta b) \<in> set (reg_ids r)" "allowed ((snap r)(MID (Meta b) := b)) (set (reg_ids r))"
  shows "reg_ok (reg_edited ops b r)"
proof -
  let ?i = "MID (Meta b)"
  let ?B = "(snap r)(?i := b)"
  have v: "(k, v) \<in> set (RgViews (reg_edited ops b r)) \<longleftrightarrow>
      (\<exists>u. v = VAdd ops (snap (reg_edited ops b r)) ?i (VRemove ops (snap r) ?i u) \<and> (k, u) \<in> set (RgViews r))" for k v
    using assms(2) ids_map_of [of r ?i]
    by (auto simp: reg_edited_def reg_commit_def Let_def each_view_in split: option.split)
  have "files ?B (VAdd ops ?B ?i (VRemove ops (snap r) ?i u)) (set (reg_ids r))" if u: "(k, u) \<in> set (RgViews r)" for k u
  proof -
    have "files ?B (VRemove ops (snap r) ?i u) (set (reg_ids r) - {?i})"
      by (rule frame [OF remove [OF reg_okD [OF assms(1) u] assms(2)]]) simp
    from add [OF this, of ?i] assms(2,3) show ?thesis by (simp add: insert_absorb)
  qed
  then show ?thesis using assms(1) by (auto simp: reg_ok_def v edited_books [OF assms(2)])
qed

lemma deleted_ok:
  assumes "reg_ok r"
  shows "reg_ok (reg_deleted ops i r)" "set (reg_ids (reg_deleted ops i r)) = set (reg_ids r) - {i}"
    "j \<noteq> i \<Longrightarrow> snap (reg_deleted ops i r) j = snap r j"
proof -
  let ?r = "reg_deleted ops i r"
  have gone: "?r = r" if "i \<notin> set (reg_ids r)"
    using that ids_map_of [of r i] by (simp add: reg_deleted_def reg_remove_def)
  have there: "?r = (let r = each_view (VRemove ops (snap r) i) r in r\<lparr>RgBooks := AList.delete i (RgBooks r)\<rparr>)" if "i \<in> set (reg_ids r)"
    using that ids_map_of [of r i] by (auto simp: reg_deleted_def reg_remove_def split: option.split)
  have ids: "reg_ids ?r = filter (\<lambda>j. j \<noteq> i) (reg_ids r)" if "i \<in> set (reg_ids r)"
    by (simp add: there [OF that] reg_ids_def delete_keys Let_def removeAll_filter_not_eq) (rule filter_cong, auto)
  have snap: "snap ?r j = snap r j" if "j \<noteq> i" for j
    using gone there that by (cases "i \<in> set (reg_ids r)") (simp_all add: snap_def delete_conv' Let_def)
  then show "j \<noteq> i \<Longrightarrow> snap ?r j = snap r j" .
  show set_ids: "set (reg_ids ?r) = set (reg_ids r) - {i}"
    using gone ids by (cases "i \<in> set (reg_ids r)") auto
  show "reg_ok ?r"
  proof (cases "i \<in> set (reg_ids r)")
    case True
    have "files (snap ?r) (VRemove ops (snap r) i u) (set (reg_ids r) - {i})" if "(k, u) \<in> set (RgViews r)" for k u
      by (rule frame [OF remove [OF reg_okD [OF assms that] True]]) (simp add: snap)
    moreover have "RgViews ?r = RgViews (each_view (VRemove ops (snap r) i) r)" by (simp add: there [OF True] Let_def)
    moreover have "distinct (reg_ids ?r)" using assms by (simp add: ids [OF True] reg_ok_def)
    ultimately show ?thesis unfolding reg_ok_def set_ids by (auto simp: each_view_in)
  qed (use assms gone in simp)
qed

lemma fill_files:
  assumes "files B v {}" "distinct is" "allowed B (set is)"
  shows "files B (foldl (\<lambda>v i. VAdd ops B i v) v is) (set is)"
  using assms(2,3)
proof (induction "is" rule: rev_induct)
  case (snoc i "is")
  then have "files B (foldl (\<lambda>v i. VAdd ops B i v) v is) (set is)" using smaller [of B "set (is @ [i])" "set is"] by auto
  from add [OF this, of i] snoc.prems show ?case by simp
qed (simp add: assms(1))

lemma add_view_ok:
  assumes "reg_ok r" "files (snap r) v {}" "allowed (snap r) (set (reg_ids r))"
  shows "reg_ok (add_view ops k v r)"
proof -
  have "files (snap r) (fill_view ops r v) (set (reg_ids r))"
    unfolding fill_view_def by (rule fill_files) (use assms in \<open>simp_all add: reg_ok_def\<close>)
  moreover have "snap (add_view ops k v r) = snap r" "reg_ids (add_view ops k v r) = reg_ids r"
    by (simp_all add: add_view_def snap_def reg_ids_def fun_eq_iff)
  ultimately show ?thesis using assms(1) by (auto simp: reg_ok_def) (auto simp: add_view_def)
qed

lemma resync_view_ok:
  assumes "reg_ok r" "allowed (snap r) (set (reg_ids r))"
    and "\<And>v. (k, v) \<in> set (RgViews r) \<Longrightarrow> files (snap r) (reset v) {}"
  shows "reg_ok (resync_view ops k reset r)"
proof -
  have "files (snap r) (fill_view ops r (reset v)) (set (reg_ids r))" if "(k, v) \<in> set (RgViews r)" for v
    unfolding fill_view_def by (rule fill_files [OF assms(3) [OF that]]) (use assms in \<open>simp_all add: reg_ok_def\<close>)
  moreover have "snap (resync_view ops k reset r) = snap r" "reg_ids (resync_view ops k reset r) = reg_ids r"
    by (simp_all add: resync_view_def snap_def reg_ids_def fun_eq_iff)
  ultimately show ?thesis using assms(1) by (auto simp: reg_ok_def) (auto simp: resync_view_def)
qed

lemma set_remove_first: "set (remove_first k vs) \<subseteq> set vs"
  by (induction vs rule: remove_first.induct) auto

lemma remove_view_ok: "reg_ok r \<Longrightarrow> reg_ok (remove_view k r)"
  using set_remove_first [of k "RgViews r"]
  by (auto simp: reg_ok_def remove_view_def snap_def [abs_def] reg_ids_def)

end

end
