(* ===== verification/Views.thy ===== *)
theory Views
  imports Registry Naming Query Vfile Index
begin

text \<open>
  \<^verbatim>\<open>internal/fs/views\<close>: the listings of the served tree. A directory of the 9P library
  (\<^verbatim>\<open>go9p/fs.StaticDir\<close>) is a parameter: \<open>DAdd\<close> files a node under the name it has, \<open>DDel\<close> drops the node of a
  name and \<open>DChildren\<close> lists the nodes with their names. A node's name is computed from its book whenever
  it is asked for, so each operation gets the names of the moment.
\<close>

record ('n, 'd) dir_ops =
  DNew :: 'd
  DAdd :: "('n \<Rightarrow> string) \<Rightarrow> 'n \<Rightarrow> 'd \<Rightarrow> 'd"
  DDel :: "('n \<Rightarrow> string) \<Rightarrow> string \<Rightarrow> 'd \<Rightarrow> 'd"
  DChildren :: "('n \<Rightarrow> string) \<Rightarrow> 'd \<Rightarrow> (string \<times> 'n) list"

text \<open>A book's own directory, or a wrapper that names it differently.\<close>

datatype book_node = BookNode int | NumberedNode int | NamedNode int

fun node_id :: "book_node \<Rightarrow> int" where
  "node_id (BookNode i) = i"
| "node_id (NumberedNode i) = i"
| "node_id (NamedNode i) = i"

section \<open>Lists of books by title\<close>

definition plain_name :: "book \<Rightarrow> string" where
  "plain_name b = path_safe (Title (Bib b))"

definition disambiguated_name :: "book \<Rightarrow> string" where
  "disambiguated_name b = path_safe (Title (Bib b)) @ '' ('' @ dec_int (MID (Meta b)) @ '')''"

fun list_name :: "snapshots_of \<Rightarrow> book_node \<Rightarrow> string" where
  "list_name B (NumberedNode i) = disambiguated_name (B i)"
| "list_name B n = plain_name (B (node_id n))"

record 'd book_list =
  BLDir :: 'd
  BLEntries :: "(int \<times> string) list"

definition new_book_list :: "(book_node, 'd) dir_ops \<Rightarrow> 'd book_list" where
  "new_book_list ops = \<lparr>BLDir = DNew ops, BLEntries = []\<rparr>"

definition bl_add :: "(book_node, 'd) dir_ops \<Rightarrow> snapshots_of \<Rightarrow> int \<Rightarrow> 'd book_list \<Rightarrow> 'd book_list" where
  "bl_add ops B i v =
     (let nm = list_name B; name = plain_name (B i); taken = map_of (DChildren ops nm (BLDir v)) name;
          n = (if taken \<noteq> None \<and> taken \<noteq> Some (BookNode i) then NumberedNode i else BookNode i)
      in v\<lparr>BLDir := DAdd ops nm n (BLDir v), BLEntries := AList.update i (nm n) (BLEntries v)\<rparr>)"

definition bl_remove :: "(book_node, 'd) dir_ops \<Rightarrow> snapshots_of \<Rightarrow> int \<Rightarrow> 'd book_list \<Rightarrow> 'd book_list" where
  "bl_remove ops B i v = (case map_of (BLEntries v) i of
      None \<Rightarrow> v
    | Some name \<Rightarrow> v\<lparr>BLDir := DDel ops (list_name B) name (BLDir v), BLEntries := AList.delete i (BLEntries v)\<rparr>)"

definition bl_clear :: "(book_node, 'd) dir_ops \<Rightarrow> snapshots_of \<Rightarrow> 'd book_list \<Rightarrow> 'd book_list" where
  "bl_clear ops B v = foldl (\<lambda>v (i, name). v\<lparr>BLDir := DDel ops (list_name B) name (BLDir v),
     BLEntries := AList.delete i (BLEntries v)\<rparr>) v (BLEntries v)"

section \<open>Padding\<close>

text \<open>The width is kept in 32 bits by the code; it is the length of a 64-bit number in decimal, so at most 20.\<close>

type_synonym pad = nat

definition pad_set :: "int \<Rightarrow> pad" where
  "pad_set m = (if m \<ge> 10 then length (dec_int m) else 0)"

text \<open>\<^verbatim>\<open>%0*d\<close>: zeros between the sign and the digits.\<close>

definition zero_pad :: "nat \<Rightarrow> int \<Rightarrow> string" where
  "zero_pad w n = (let s = dec_nat (nat \<bar>n\<bar>) in
     if n < 0 then CHR ''-'' # replicate (w - 1 - length s) (CHR ''0'') @ s else replicate (w - length s) (CHR ''0'') @ s)"

definition pad_format :: "pad \<Rightarrow> int \<Rightarrow> string" where
  "pad_format p n = (if p > 0 then zero_pad p n else dec_int n)"

section \<open>Books by id\<close>

record 'd by_id_dir =
  BIDir :: 'd
  BIMax :: int
  BIPad :: pad

definition id_entry_name :: "pad \<Rightarrow> book \<Rightarrow> string" where
  "id_entry_name p b = pad_format p (MID (Meta b)) @ ''. '' @ path_safe (Title (Bib b))"

definition id_name :: "pad \<Rightarrow> snapshots_of \<Rightarrow> book_node \<Rightarrow> string" where
  "id_name p B n = id_entry_name p (B (node_id n))"

definition by_id_add :: "(book_node, 'd) dir_ops \<Rightarrow> snapshots_of \<Rightarrow> int \<Rightarrow> 'd by_id_dir \<Rightarrow> 'd by_id_dir" where
  "by_id_add ops B i v =
     (let v = (if i > BIMax v then v\<lparr>BIMax := i, BIPad := pad_set i\<rparr> else v)
      in v\<lparr>BIDir := DAdd ops (id_name (BIPad v) B) (NamedNode i) (BIDir v)\<rparr>)"

definition by_id_remove :: "(book_node, 'd) dir_ops \<Rightarrow> snapshots_of \<Rightarrow> int \<Rightarrow> 'd by_id_dir \<Rightarrow> 'd by_id_dir" where
  "by_id_remove ops B i v =
     v\<lparr>BIDir := DDel ops (id_name (BIPad v) B) (id_entry_name (BIPad v) (B i)) (BIDir v)\<rparr>"

section \<open>The books of a series\<close>

text \<open>\<^verbatim>\<open>strconv.Atoi\<close> with its error dropped: out of range it still gives the nearest 64-bit number.\<close>

definition atoi :: "string \<Rightarrow> int" where
  "atoi s = (let (neg, ds) = (case s of
            [] \<Rightarrow> (False, s)
          | c # r \<Rightarrow> if c = CHR ''-'' then (True, r) else if c = CHR ''+'' then (False, r) else (False, s));
          i = (if neg then - int (digits_val ds) else int (digits_val ds))
      in if ds = [] \<or> \<not> list_all is_digit ds then 0 else max (- (2 ^ 63)) (min (2 ^ 63 - 1) i))"

definition series_level :: "string \<Rightarrow> int" where
  "series_level s = atoi (fst (cut (CHR ''.'') s))"

definition series_entry_name :: "pad \<Rightarrow> book \<Rightarrow> string" where
  "series_entry_name p b =
     (let s = series_index b;
          s = (if p > 0 then
                 (case cut (CHR ''.'') s of (head, rest, _) \<Rightarrow>
                    pad_format p (series_level head) @ (if rest \<noteq> [] then ''.'' @ rest else []))
               else s)
      in s @ '' - '' @ path_safe (Title (Bib b)))"

definition series_node_name :: "pad \<Rightarrow> snapshots_of \<Rightarrow> book_node \<Rightarrow> string" where
  "series_node_name p B n = series_entry_name p (B (node_id n))"

record 'd series_list =
  SLDir :: 'd
  SLChildren :: "int list"
  SLPad :: pad

definition repad :: "snapshots_of \<Rightarrow> 'd series_list \<Rightarrow> 'd series_list" where
  "repad B v = v\<lparr>SLPad := pad_set (foldl (\<lambda>m i. if has_series (Some (B i)) then max m (series_level (series_index (B i))) else m)
     0 (SLChildren v))\<rparr>"

definition series_add :: "(book_node, 'd) dir_ops \<Rightarrow> snapshots_of \<Rightarrow> int \<Rightarrow> 'd series_list \<Rightarrow> 'd series_list" where
  "series_add ops B i v = repad B (v\<lparr>SLChildren := i # removeAll i (SLChildren v),
     SLDir := DAdd ops (series_node_name (SLPad v) B) (NamedNode i) (SLDir v)\<rparr>)"

definition series_remove :: "(book_node, 'd) dir_ops \<Rightarrow> snapshots_of \<Rightarrow> int \<Rightarrow> 'd series_list \<Rightarrow> 'd series_list" where
  "series_remove ops B i v = (if i \<notin> set (SLChildren v) then v
     else repad B (v\<lparr>SLDir := DDel ops (series_node_name (SLPad v) B) (series_node_name (SLPad v) B (NamedNode i)) (SLDir v),
       SLChildren := removeAll i (SLChildren v)\<rparr>))"

section \<open>Groups\<close>

definition author_keys :: "book \<Rightarrow> string list" where
  "author_keys b = map AName (Authors (Bib b))"

definition tag_keys :: "book \<Rightarrow> string list" where
  "tag_keys b = filter (\<lambda>t. t \<noteq> []) (Tags (Meta b))"

definition status_keys :: "book \<Rightarrow> string list" where
  "status_keys b = [Status (Meta b)]"

definition series_keys :: "book \<Rightarrow> string list" where
  "series_keys b = (if has_series (Some b) then [series_name (Some b)] else [])"

text \<open>The child listing of a group: its two operations, an empty one, and whether it lists nothing.\<close>

record 'c child_ops =
  ChNew :: 'c
  ChView :: "'c view_ops"
  ChEmpty :: "snapshots_of \<Rightarrow> 'c \<Rightarrow> bool"

record ('d, 'c) keyed_dir =
  KDDir :: 'd
  KDChildren :: "(string \<times> 'c) list"

definition entry_names :: "(book \<Rightarrow> string list) \<Rightarrow> book \<Rightarrow> string list" where
  "entry_names keys b = map path_safe (keys b)"

definition child_there :: "(string, 'd) dir_ops \<Rightarrow> ('d, 'c) keyed_dir \<Rightarrow> string \<Rightarrow> bool" where
  "child_there ops v name \<longleftrightarrow> map_of (DChildren ops id (KDDir v)) name \<noteq> None"

definition the_child :: "'c child_ops \<Rightarrow> ('d, 'c) keyed_dir \<Rightarrow> string \<Rightarrow> 'c" where
  "the_child ch v name = (case map_of (KDChildren v) name of Some c \<Rightarrow> c | None \<Rightarrow> ChNew ch)"

definition child_dir :: "(string, 'd) dir_ops \<Rightarrow> 'c child_ops \<Rightarrow> string \<Rightarrow> ('d, 'c) keyed_dir \<Rightarrow> ('d, 'c) keyed_dir" where
  "child_dir ops ch name v = (if child_there ops v name then v
     else v\<lparr>KDDir := DAdd ops id name (KDDir v), KDChildren := AList.update name (ChNew ch) (KDChildren v)\<rparr>)"

definition prune_empty :: "(string, 'd) dir_ops \<Rightarrow> 'c child_ops \<Rightarrow> snapshots_of \<Rightarrow> string \<Rightarrow> ('d, 'c) keyed_dir \<Rightarrow> ('d, 'c) keyed_dir" where
  "prune_empty ops ch B name v = (if child_there ops v name \<and> ChEmpty ch B (the_child ch v name)
     then v\<lparr>KDDir := DDel ops id name (KDDir v)\<rparr> else v)"

definition remove_from_child :: "(string, 'd) dir_ops \<Rightarrow> 'c child_ops \<Rightarrow> snapshots_of \<Rightarrow> string \<Rightarrow> int \<Rightarrow> ('d, 'c) keyed_dir \<Rightarrow> ('d, 'c) keyed_dir" where
  "remove_from_child ops ch B name i v = (if child_there ops v name
     then prune_empty ops ch B name
       (v\<lparr>KDChildren := AList.update name (VRemove (ChView ch) B i (the_child ch v name)) (KDChildren v)\<rparr>)
     else v)"

definition keyed_add :: "(string, 'd) dir_ops \<Rightarrow> 'c child_ops \<Rightarrow> (book \<Rightarrow> string list) \<Rightarrow> snapshots_of \<Rightarrow> int \<Rightarrow> ('d, 'c) keyed_dir \<Rightarrow> ('d, 'c) keyed_dir" where
  "keyed_add ops ch keys B i v = foldl (\<lambda>v name. let v = child_dir ops ch name v in
     v\<lparr>KDChildren := AList.update name (VAdd (ChView ch) B i (the_child ch v name)) (KDChildren v)\<rparr>) v (entry_names keys (B i))"

definition keyed_remove :: "(string, 'd) dir_ops \<Rightarrow> 'c child_ops \<Rightarrow> (book \<Rightarrow> string list) \<Rightarrow> snapshots_of \<Rightarrow> int \<Rightarrow> ('d, 'c) keyed_dir \<Rightarrow> ('d, 'c) keyed_dir" where
  "keyed_remove ops ch keys B i v = foldl (\<lambda>v name. remove_from_child ops ch B name i v) v (entry_names keys (B i))"

section \<open>Recent books\<close>

definition recent_limit :: nat where "recent_limit = 5"

record 'd recent_dir =
  RcList :: "'d book_list"
  RcAll :: "int list"
  RcVisible :: "int list"

text \<open>\<^verbatim>\<open>slices.BinarySearchFunc\<close>: the first position whose element does not come before the target, when
  the ones that do are a prefix.\<close>

function bsearch :: "('a \<Rightarrow> bool) \<Rightarrow> 'a list \<Rightarrow> nat \<Rightarrow> nat \<Rightarrow> nat" where
  "bsearch before xs i j =
     (if i < j then (let h = (i + j) div 2 in if before (xs ! h) then bsearch before xs (h + 1) j else bsearch before xs i h)
      else i)"
  by pat_completeness auto
termination
  by (relation "measure (\<lambda>(before, xs, i, j). j - i)") auto

declare bsearch.simps [simp del]

definition recent_refresh :: "(book_node, 'd) dir_ops \<Rightarrow> snapshots_of \<Rightarrow> 'd recent_dir \<Rightarrow> 'd recent_dir" where
  "recent_refresh ops B v =
     (let top = take recent_limit (RcAll v);
          added = foldl (\<lambda>l i. if i \<in> set (RcVisible v) then l else bl_add ops B i l) (RcList v) top;
          removed = foldl (\<lambda>l i. if i \<in> set top then l else bl_remove ops B i l) added (RcVisible v)
      in v\<lparr>RcList := removed, RcVisible := top\<rparr>)"

definition recent_add :: "(book_node, 'd) dir_ops \<Rightarrow> snapshots_of \<Rightarrow> int \<Rightarrow> 'd recent_dir \<Rightarrow> 'd recent_dir" where
  "recent_add ops B i v =
     (let k = bsearch (\<lambda>j. DateAdded (Meta (B j)) > DateAdded (Meta (B i))) (RcAll v) 0 (length (RcAll v))
      in recent_refresh ops B (v\<lparr>RcAll := take k (RcAll v) @ i # drop k (RcAll v)\<rparr>))"

definition recent_remove :: "(book_node, 'd) dir_ops \<Rightarrow> snapshots_of \<Rightarrow> int \<Rightarrow> 'd recent_dir \<Rightarrow> 'd recent_dir" where
  "recent_remove ops B i v =
     recent_refresh ops B (v\<lparr>RcAll := filter (\<lambda>j. MID (Meta (B j)) \<noteq> MID (Meta (B i))) (RcAll v)\<rparr>)"

section \<open>Matching a query\<close>

text \<open>\<open>lw\<close> is \<^verbatim>\<open>strings.ToLower\<close>.\<close>

definition matches_authors :: "query \<Rightarrow> book \<Rightarrow> bool" where
  "matches_authors q b \<longleftrightarrow> QAuthors q = [] \<or>
     list_ex (\<lambda>a. AName a \<in> set (QAuthors q) \<or> ASortName a \<in> set (QAuthors q)) (Authors (Bib b))"

definition matches_tags :: "query \<Rightarrow> book \<Rightarrow> bool" where
  "matches_tags q b \<longleftrightarrow> QTags q = [] \<or> list_ex (\<lambda>t. t \<in> set (Tags (Meta b))) (QTags q)"

definition matches_series :: "query \<Rightarrow> book \<Rightarrow> bool" where
  "matches_series q b \<longleftrightarrow> QSeries q = [] \<or> has_series (Some b) \<and> series_name (Some b) \<in> set (QSeries q)"

definition matches_status :: "query \<Rightarrow> book \<Rightarrow> bool" where
  "matches_status q b \<longleftrightarrow> QStatus q = [] \<or> Status (Meta b) \<in> set (QStatus q)"

definition matches_ids :: "query \<Rightarrow> book \<Rightarrow> bool" where
  "matches_ids q b \<longleftrightarrow> QIDs q = [] \<or> MID (Meta b) \<in> set (QIDs q)"

definition matches_titles :: "(string \<Rightarrow> string) \<Rightarrow> query \<Rightarrow> book \<Rightarrow> bool" where
  "matches_titles lw q b \<longleftrightarrow> (if QTitles q = [] then True
     else if QExactTitles q then Title (Bib b) \<in> set (QTitles q)
     else list_ex (\<lambda>t. sublist (lw t) (lw (Title (Bib b)))) (QTitles q))"

definition make_matches :: "(string \<Rightarrow> string) \<Rightarrow> query \<Rightarrow> book \<Rightarrow> bool" where
  "make_matches lw q b \<longleftrightarrow> matches_authors q b \<and> matches_tags q b \<and> matches_series q b \<and>
     matches_status q b \<and> matches_ids q b \<and> matches_titles lw q b"

section \<open>Search results\<close>

record 'd results_dir =
  RsList :: "'d book_list"
  RsMatches :: "(book \<Rightarrow> bool) option"

definition new_results :: "(book_node, 'd) dir_ops \<Rightarrow> 'd results_dir" where
  "new_results ops = \<lparr>RsList = new_book_list ops, RsMatches = None\<rparr>"

definition results_add :: "(book_node, 'd) dir_ops \<Rightarrow> snapshots_of \<Rightarrow> int \<Rightarrow> 'd results_dir \<Rightarrow> 'd results_dir" where
  "results_add ops B i v = (case RsMatches v of
      None \<Rightarrow> v
    | Some fn \<Rightarrow> if fn (B i) then v\<lparr>RsList := bl_add ops B i (RsList v)\<rparr> else v)"

definition results_remove :: "(book_node, 'd) dir_ops \<Rightarrow> snapshots_of \<Rightarrow> int \<Rightarrow> 'd results_dir \<Rightarrow> 'd results_dir" where
  "results_remove ops B i v = v\<lparr>RsList := bl_remove ops B i (RsList v)\<rparr>"

definition reset_results :: "(book_node, 'd) dir_ops \<Rightarrow> snapshots_of \<Rightarrow> (book \<Rightarrow> bool) \<Rightarrow> 'd results_dir \<Rightarrow> 'd results_dir" where
  "reset_results ops B fn v = v\<lparr>RsMatches := Some fn, RsList := bl_clear ops B (RsList v)\<rparr>"

section \<open>The views of the tree\<close>

text \<open>The listings that follow the registry and show each book once: all books, the recent ones, the results of a
  search. \<open>served_ops\<close> is the interface they give the registry.\<close>

datatype 'd view = BooksView "'d book_list" | RecentView "'d recent_dir" | ResultsView "'d results_dir"

definition new_recent :: "(book_node, 'd) dir_ops \<Rightarrow> 'd recent_dir" where
  "new_recent ops = \<lparr>RcList = new_book_list ops, RcAll = [], RcVisible = []\<rparr>"

fun view_add :: "(book_node, 'd) dir_ops \<Rightarrow> snapshots_of \<Rightarrow> int \<Rightarrow> 'd view \<Rightarrow> 'd view" where
  "view_add ops B i (BooksView l) = BooksView (bl_add ops B i l)"
| "view_add ops B i (RecentView v) = RecentView (recent_add ops B i v)"
| "view_add ops B i (ResultsView v) = ResultsView (results_add ops B i v)"

fun view_remove :: "(book_node, 'd) dir_ops \<Rightarrow> snapshots_of \<Rightarrow> int \<Rightarrow> 'd view \<Rightarrow> 'd view" where
  "view_remove ops B i (BooksView l) = BooksView (bl_remove ops B i l)"
| "view_remove ops B i (RecentView v) = RecentView (recent_remove ops B i v)"
| "view_remove ops B i (ResultsView v) = ResultsView (results_remove ops B i v)"

definition served_ops :: "(book_node, 'd) dir_ops \<Rightarrow> 'd view view_ops" where
  "served_ops ops = \<lparr>VAdd = view_add ops, VRemove = view_remove ops\<rparr>"

text \<open>Running a query in a search handle.\<close>

fun reset_view :: "(book_node, 'd) dir_ops \<Rightarrow> snapshots_of \<Rightarrow> (book \<Rightarrow> bool) \<Rightarrow> 'd view \<Rightarrow> 'd view" where
  "reset_view ops B fn (ResultsView v) = ResultsView (reset_results ops B fn v)"
| "reset_view ops B fn v = v"

definition execute_search :: "(book_node, 'd) dir_ops \<Rightarrow> (string \<Rightarrow> string) \<Rightarrow> 'k \<Rightarrow> query \<Rightarrow> ('k, 'd view) registry \<Rightarrow> ('k, 'd view) registry" where
  "execute_search ops lw k q r = resync_view (served_ops ops) k (reset_view ops (snap r) (make_matches lw q)) r"

section \<open>Statistics\<close>

definition stats_line :: "string \<Rightarrow> string \<Rightarrow> string" where
  "stats_line k v = k @ '': '' @ v @ [CHR 0x0A]"

definition format_time :: "(time \<Rightarrow> string) \<Rightarrow> time \<Rightarrow> string" where
  "format_time stamp t = (if t = 0 then [] else stamp t)"

definition format_stats :: "(time \<Rightarrow> string) \<Rightarrow> stats \<Rightarrow> string" where
  "format_stats stamp s = concat
     [stats_line ''books'' (dec_int (SBooks s)), stats_line ''authors'' (dec_int (SAuthors s)),
      stats_line ''series'' (dec_int (SSeries s)), stats_line ''tags'' (dec_int (STags s)),
      stats_line ''total-size'' (dec_int (STotalSize s)), stats_line ''last-added'' (format_time stamp (SLastAdded s)),
      stats_line ''last-modified'' (format_time stamp (SLastModified s))]"

end
