(* ===== verification/Views_Safe.thy ===== *)
theory Views_Safe
  imports Views
begin

text \<open>
  The listings keep the laws of \<open>book_view\<close>: the list of books by title, the recent books and the results of a
  search. What the 9P directory has to do for that is \<open>static_dir_ok\<close>: \<open>nodes\<close> are the nodes filed in it.
\<close>

section \<open>The directory\<close>

definition static_dir_ok :: "('n, 'd) dir_ops \<Rightarrow> ('d \<Rightarrow> 'n set) \<Rightarrow> bool" where
  "static_dir_ok ops nodes \<longleftrightarrow> nodes (DNew ops) = {} \<and>
     (\<forall>nm n d. nm n \<notin> nm ` nodes d \<longrightarrow> nodes (DAdd ops nm n d) = insert n (nodes d)) \<and>
     (\<forall>nm s d. inj_on nm (nodes d) \<longrightarrow> nodes (DDel ops nm s d) = {n \<in> nodes d. nm n \<noteq> s}) \<and>
     (\<forall>nm d. inj_on nm (nodes d) \<longrightarrow> set (DChildren ops nm d) = (\<lambda>n. (nm n, n)) ` nodes d)"

lemma static_dir_okD:
  assumes "static_dir_ok ops nodes"
  shows "nodes (DNew ops) = {}" "nm n \<notin> nm ` nodes d \<Longrightarrow> nodes (DAdd ops nm n d) = insert n (nodes d)"
    "inj_on nm (nodes d) \<Longrightarrow> nodes (DDel ops nm s d) = {n \<in> nodes d. nm n \<noteq> s}"
    "inj_on nm (nodes d) \<Longrightarrow> set (DChildren ops nm d) = (\<lambda>n. (nm n, n)) ` nodes d"
proof -
  note s = assms [unfolded static_dir_ok_def]
  show "nodes (DNew ops) = {}" by (rule conjunct1 [OF s])
  show "nm n \<notin> nm ` nodes d \<Longrightarrow> nodes (DAdd ops nm n d) = insert n (nodes d)"
    using conjunct1 [OF conjunct2 [OF s]] by simp
  show "inj_on nm (nodes d) \<Longrightarrow> nodes (DDel ops nm s d) = {n \<in> nodes d. nm n \<noteq> s}"
    using conjunct1 [OF conjunct2 [OF conjunct2 [OF s]]] by simp
  show "inj_on nm (nodes d) \<Longrightarrow> set (DChildren ops nm d) = (\<lambda>n. (nm n, n)) ` nodes d"
    using conjunct2 [OF conjunct2 [OF conjunct2 [OF s]]] by simp
qed

lemma child_Some:
  assumes "static_dir_ok ops nodes" "inj_on nm (nodes d)"
  shows "map_of (DChildren ops nm d) s = Some n \<longleftrightarrow> n \<in> nodes d \<and> nm n = s"
proof -
  have c: "set (DChildren ops nm d) = (\<lambda>n. (nm n, n)) ` nodes d" by (rule static_dir_okD(4) [OF assms])
  have "map_of (DChildren ops nm d) (nm n) = Some n" if "n \<in> nodes d" for n
  proof -
    have "nm n \<in> fst ` set (DChildren ops nm d)" using that by (force simp: c)
    then obtain m where m: "map_of (DChildren ops nm d) (nm n) = Some m" by (metis domD dom_map_of_conv_image_fst)
    then have "(nm n, m) \<in> set (DChildren ops nm d)" by (rule map_of_SomeD)
    then show ?thesis using m that assms(2) by (auto simp: c dest: inj_onD)
  qed
  moreover have "n \<in> nodes d \<and> nm n = s" if "map_of (DChildren ops nm d) s = Some n"
    using map_of_SomeD [OF that] by (auto simp: c)
  ultimately show ?thesis by blast
qed

text \<open>A directory kept as a list of nodes has these properties.\<close>

definition list_dir :: "('n, 'n list) dir_ops" where
  "list_dir = \<lparr>DNew = [], DAdd = (\<lambda>nm n d. n # filter (\<lambda>m. nm m \<noteq> nm n) d),
     DDel = (\<lambda>nm s d. filter (\<lambda>m. nm m \<noteq> s) d), DChildren = (\<lambda>nm d. map (\<lambda>n. (nm n, n)) d)\<rparr>"

lemma list_dir_ok: "static_dir_ok list_dir set"
proof -
  have "insert n {m \<in> set d. nm m \<noteq> nm n} = insert n (set d)" if "nm n \<notin> nm ` set d" for nm :: "'a \<Rightarrow> string" and n d
    using that by auto (metis image_eqI)
  then show ?thesis by (auto simp: static_dir_ok_def list_dir_def)
qed

section \<open>Names\<close>

text \<open>A population of books no two of which are given one name: no title reads like another book's title with
  its number.\<close>

definition names_free :: "snapshots_of \<Rightarrow> int set \<Rightarrow> bool" where
  "names_free B S \<longleftrightarrow> (\<forall>i \<in> S. MID (Meta (B i)) = i \<and> in_int64 i) \<and>
     (\<forall>i \<in> S. \<forall>j \<in> S. disambiguated_name (B i) \<noteq> plain_name (B j))"

lemma names_free_subset: "names_free B S \<Longrightarrow> T \<subseteq> S \<Longrightarrow> names_free B T"
  by (auto simp: names_free_def)

lemma dec_int_chars: "c \<in> set (dec_int i) \<Longrightarrow> is_digit c \<or> c = CHR ''-''"
  by (auto simp: dec_int_def dest: dec_nat_digits split: if_splits)

lemma split_at_mark:
  assumes "s @ c # t = s' @ c # t'" "c \<notin> set t" "c \<notin> set t'"
  shows "t = t'"
proof -
  have "rev t @ c # rev s = rev t' @ c # rev s'" using arg_cong [OF assms(1), of rev] by simp
  then have "takeWhile (\<lambda>x. x \<noteq> c) (rev t @ c # rev s) = takeWhile (\<lambda>x. x \<noteq> c) (rev t' @ c # rev s')" by simp
  moreover have "takeWhile (\<lambda>x. x \<noteq> c) (rev t) = rev t" "takeWhile (\<lambda>x. x \<noteq> c) (rev t') = rev t'"
    using assms(2,3) by (auto simp: takeWhile_eq_all_conv)
  ultimately show ?thesis by (simp add: takeWhile_tail)
qed

lemma disambiguated_inject:
  assumes "disambiguated_name b = disambiguated_name c" "in_int64 (MID (Meta b))" "in_int64 (MID (Meta c))"
  shows "MID (Meta b) = MID (Meta c)"
proof -
  have no: "CHR ''('' \<notin> set (dec_int i @ '')'')" for i by (auto dest: dec_int_chars)
  from assms(1) have "(path_safe (Title (Bib b)) @ '' '') @ CHR ''('' # (dec_int (MID (Meta b)) @ '')'') =
      (path_safe (Title (Bib c)) @ '' '') @ CHR ''('' # (dec_int (MID (Meta c)) @ '')'')"
    by (simp add: disambiguated_name_def)
  from split_at_mark [OF this no no] show ?thesis using assms(2,3) dec_int_inject by simp
qed

section \<open>Lists of books\<close>

definition list_node :: "bool \<Rightarrow> int \<Rightarrow> book_node" where
  "list_node b i = (if b then NumberedNode i else BookNode i)"

text \<open>\<open>f\<close> says which books of the list have a number in their name.\<close>

definition lists_as :: "('d \<Rightarrow> book_node set) \<Rightarrow> snapshots_of \<Rightarrow> 'd book_list \<Rightarrow> int set \<Rightarrow> (int \<Rightarrow> bool) \<Rightarrow> bool" where
  "lists_as nodes B v S f \<longleftrightarrow> nodes (BLDir v) = (\<lambda>i. list_node (f i) i) ` S \<and>
     map_of (BLEntries v) = (\<lambda>i. if i \<in> S then Some (list_name B (list_node (f i) i)) else None) \<and>
     inj_on (list_name B) (nodes (BLDir v)) \<and> distinct (map fst (BLEntries v))"

definition bl_files :: "(book_node, 'd) dir_ops \<Rightarrow> ('d \<Rightarrow> book_node set) \<Rightarrow> snapshots_of \<Rightarrow> 'd book_list \<Rightarrow> int set \<Rightarrow> bool" where
  "bl_files ops nodes B v S \<longleftrightarrow> static_dir_ok ops nodes \<and> (\<exists>f. lists_as nodes B v S f)"

lemma lists_asI:
  assumes "nodes d = (\<lambda>i. list_node (f i) i) ` S" "inj_on (list_name B) (nodes d)"
    and "\<And>i. map_of es i = (if i \<in> S then Some (list_name B (list_node (f i) i)) else None)" "distinct (map fst es)"
  shows "lists_as nodes B (v\<lparr>BLDir := d, BLEntries := es\<rparr>) S f"
  using assms by (simp add: lists_as_def fun_eq_iff)

lemma bl_new: "static_dir_ok ops nodes \<Longrightarrow> bl_files ops nodes B (new_book_list ops) {}"
  by (auto simp: bl_files_def lists_as_def new_book_list_def static_dir_okD(1))

lemma list_node_simps [simp]:
  "list_node b i = list_node c j \<longleftrightarrow> b = c \<and> i = j" "list_node b i = BookNode j \<longleftrightarrow> \<not> b \<and> i = j"
  "list_name B (list_node b i) = (if b then disambiguated_name (B i) else plain_name (B i))"
  "node_id (list_node b i) = i"
  by (auto simp: list_node_def)

lemma bl_add_files:
  assumes "bl_files ops nodes B v S" "i \<notin> S" "names_free B (insert i S)"
  shows "bl_files ops nodes B (bl_add ops B i v) (insert i S)"
proof -
  from assms(1) obtain f where ok: "static_dir_ok ops nodes" and f: "lists_as nodes B v S f" by (auto simp: bl_files_def)
  have n: "nodes (BLDir v) = (\<lambda>i. list_node (f i) i) ` S" and inj: "inj_on (list_name B) (nodes (BLDir v))"
    and e: "map_of (BLEntries v) = (\<lambda>i. if i \<in> S then Some (list_name B (list_node (f i) i)) else None)"
    and dist: "distinct (map fst (BLEntries v))"
    using f unfolding lists_as_def by blast+
  define taken where "taken = map_of (DChildren ops (list_name B) (BLDir v)) (plain_name (B i))"
  define b where "b \<longleftrightarrow> taken \<noteq> None \<and> taken \<noteq> Some (BookNode i)"
  have notin: "list_name B (list_node b i) \<notin> list_name B ` nodes (BLDir v)"
  proof
    assume "list_name B (list_node b i) \<in> list_name B ` nodes (BLDir v)"
    then obtain j where j: "j \<in> S" "list_name B (list_node b i) = list_name B (list_node (f j) j)" by (auto simp: n)
    then have ij: "i \<noteq> j" using assms(2) by auto
    show False
    proof (cases b)
      case True
      then show False using j ij assms(3) disambiguated_inject [of "B i" "B j"]
        by (cases "f j") (auto simp: names_free_def)
    next
      case False
      have m: "list_node (f j) j \<in> nodes (BLDir v)" using j(1) by (simp add: n)
      have "list_name B (list_node (f j) j) = plain_name (B i)" using j(2) False by simp
      then have "taken = Some (list_node (f j) j)"
        unfolding taken_def child_Some [OF ok inj] using m by blast
      then show False using False ij by (simp add: b_def)
    qed
  qed
  have add: "bl_add ops B i v = v\<lparr>BLDir := DAdd ops (list_name B) (list_node b i) (BLDir v),
      BLEntries := AList.update i (list_name B (list_node b i)) (BLEntries v)\<rparr>"
    by (auto simp: bl_add_def Let_def taken_def [symmetric] list_node_def b_def)
  define g where "g = f(i := b)"
  have g: "g i = b" "j \<in> S \<Longrightarrow> g j = f j" for j using assms(2) by (auto simp: g_def)
  have im: "(\<lambda>j. list_node (g j) j) ` S = nodes (BLDir v)" unfolding n by (rule image_cong) (simp_all add: g(2))
  have nodes: "nodes (DAdd ops (list_name B) (list_node b i) (BLDir v)) = insert (list_node b i) (nodes (BLDir v))"
    by (rule static_dir_okD(2) [OF ok notin])
  have "map_of (AList.update i (list_name B (list_node b i)) (BLEntries v)) j =
      (if j \<in> insert i S then Some (list_name B (list_node (g j) j)) else None)" for j
    by (cases "j = i") (simp_all only: update_conv' e fun_upd_apply g if_True if_False insert_iff refl simp_thms cong: if_cong)
  moreover have "inj_on (list_name B) (insert (list_node b i) (nodes (BLDir v)))"
    using inj notin by (simp only: inj_on_insert Diff_iff) blast
  moreover have "insert (list_node b i) (nodes (BLDir v)) = (\<lambda>j. list_node (g j) j) ` insert i S"
    by (simp only: image_insert im g(1))
  ultimately have "lists_as nodes B (bl_add ops B i v) (insert i S) g"
    unfolding add by (intro lists_asI) (simp_all only: nodes distinct_update dist)
  with ok show ?thesis unfolding bl_files_def by blast
qed

lemma inj_delete: "inj_on nm N \<Longrightarrow> x \<in> N \<Longrightarrow> {m \<in> N. nm m \<noteq> nm x} = N - {x}"
  by (auto dest: inj_onD)

lemma image_delete: "(\<lambda>j. list_node (f j) j) ` S - {list_node (f i) i} = (\<lambda>j. list_node (f j) j) ` (S - {i})"
  by auto

lemma bl_remove_files:
  assumes "bl_files ops nodes B v S"
  shows "bl_files ops nodes B (bl_remove ops B i v) (S - {i})"
proof -
  from assms obtain f where ok: "static_dir_ok ops nodes" and f: "lists_as nodes B v S f" by (auto simp: bl_files_def)
  have n: "nodes (BLDir v) = (\<lambda>i. list_node (f i) i) ` S" and inj: "inj_on (list_name B) (nodes (BLDir v))"
    and e: "map_of (BLEntries v) = (\<lambda>i. if i \<in> S then Some (list_name B (list_node (f i) i)) else None)"
    and dist: "distinct (map fst (BLEntries v))"
    using f unfolding lists_as_def by blast+
  show ?thesis
  proof (cases "i \<in> S")
    case False
    then show ?thesis using assms by (simp add: bl_remove_def e)
  next
    case True
    let ?d = "DDel ops (list_name B) (list_name B (list_node (f i) i)) (BLDir v)"
    have "nodes ?d = {m \<in> nodes (BLDir v). list_name B m \<noteq> list_name B (list_node (f i) i)}"
      by (rule static_dir_okD(3) [OF ok inj])
    also have "\<dots> = nodes (BLDir v) - {list_node (f i) i}"
      by (rule inj_delete [OF inj]) (use True in \<open>simp add: n\<close>)
    finally have d: "nodes ?d = (\<lambda>j. list_node (f j) j) ` (S - {i})" by (simp only: n image_delete)
    have "inj_on (list_name B) (nodes ?d)" unfolding d by (rule inj_on_subset [OF inj [unfolded n]]) blast
    moreover have "map_of (AList.delete i (BLEntries v)) j = (if j \<in> S - {i} then Some (list_name B (list_node (f j) j)) else None)" for j
      by (simp add: delete_conv' e del: list_node_simps)
    ultimately have "lists_as nodes B (v\<lparr>BLDir := ?d, BLEntries := AList.delete i (BLEntries v)\<rparr>) (S - {i}) f"
      using d distinct_delete [OF dist] by (intro lists_asI)
    moreover have "bl_remove ops B i v = v\<lparr>BLDir := ?d, BLEntries := AList.delete i (BLEntries v)\<rparr>"
      using True by (simp add: bl_remove_def e del: list_node_simps)
    ultimately have "lists_as nodes B (bl_remove ops B i v) (S - {i}) f" by simp
    with ok show ?thesis unfolding bl_files_def by blast
  qed
qed

lemma bl_frame:
  assumes "bl_files ops nodes B v S" "\<And>i. i \<in> S \<Longrightarrow> B' i = B i"
  shows "bl_files ops nodes B' v S"
proof -
  from assms(1) obtain f where ok: "static_dir_ok ops nodes" and f: "lists_as nodes B v S f" by (auto simp: bl_files_def)
  have nm: "list_name B' (list_node b i) = list_name B (list_node b i)" if "i \<in> S" for b i using assms(2) [OF that] by simp
  have "inj_on (list_name B') (nodes (BLDir v)) = inj_on (list_name B) (nodes (BLDir v))"
    by (rule inj_on_cong) (use f nm in \<open>auto simp: lists_as_def simp del: list_node_simps\<close>)
  then have "lists_as nodes B' v S f" using f nm by (auto simp: lists_as_def fun_eq_iff simp del: list_node_simps)
  with ok show ?thesis by (auto simp: bl_files_def)
qed

lemma bl_remove_step:
  "map_of (BLEntries v) i = Some name \<Longrightarrow>
   v\<lparr>BLDir := DDel ops (list_name B) name (BLDir v), BLEntries := AList.delete i (BLEntries v)\<rparr> = bl_remove ops B i v"
  by (simp add: bl_remove_def)

lemma bl_remove_entries: "map_of (BLEntries (bl_remove ops B i v)) j = (if j = i then None else map_of (BLEntries v) j)"
  by (simp add: bl_remove_def delete_conv' split: option.split)

lemma bl_clear_removes:
  assumes "distinct (map fst es)" "\<And>i name. (i, name) \<in> set es \<Longrightarrow> map_of (BLEntries v) i = Some name"
  shows "foldl (\<lambda>v (i, name). v\<lparr>BLDir := DDel ops (list_name B) name (BLDir v), BLEntries := AList.delete i (BLEntries v)\<rparr>) v es =
    foldl (\<lambda>v i. bl_remove ops B i v) v (map fst es)"
  using assms
proof (induction es arbitrary: v)
  case (Cons p es)
  obtain i name where p: "p = (i, name)" by (cases p)
  have "map_of (BLEntries (bl_remove ops B i v)) j = Some nm" if "(j, nm) \<in> set es" for j nm
    using Cons.prems that by (force simp: bl_remove_entries p)
  then show ?case using Cons.IH [of "bl_remove ops B i v"] Cons.prems bl_remove_step [of v i name ops B] by (simp add: p)
qed simp

lemma bl_removes_files:
  "bl_files ops nodes B v S \<Longrightarrow> bl_files ops nodes B (foldl (\<lambda>v i. bl_remove ops B i v) v is) (S - set is)"
proof (induction "is" arbitrary: v S)
  case (Cons i "is")
  from Cons.IH [OF bl_remove_files [OF Cons.prems]] show ?case by (simp add: Diff_insert [symmetric] Diff_insert2 [symmetric])
qed simp

lemma bl_clear_files:
  assumes "bl_files ops nodes B v S"
  shows "bl_files ops nodes B (bl_clear ops B v) {}"
proof -
  from assms obtain f where f: "lists_as nodes B v S f" by (auto simp: bl_files_def)
  then have e: "map_of (BLEntries v) = (\<lambda>i. if i \<in> S then Some (list_name B (list_node (f i) i)) else None)"
    and d: "distinct (map fst (BLEntries v))" unfolding lists_as_def by blast+
  have "S \<subseteq> set (map fst (BLEntries v))"
    using e by (auto simp: fun_eq_iff) (metis domI dom_map_of_conv_image_fst option.distinct(1))
  then have "S - set (map fst (BLEntries v)) = {}" by blast
  moreover have "bl_clear ops B v = foldl (\<lambda>v i. bl_remove ops B i v) v (map fst (BLEntries v))"
    unfolding bl_clear_def by (rule bl_clear_removes [OF d]) (simp add: map_of_is_SomeI [OF d])
  ultimately show ?thesis using bl_removes_files [OF assms, of "map fst (BLEntries v)"] by (simp only:)
qed

section \<open>The recent books\<close>

text \<open>When the elements that come before are a prefix, the search finds its end.\<close>

definition prefix_end :: "('a \<Rightarrow> bool) \<Rightarrow> 'a list \<Rightarrow> nat \<Rightarrow> bool" where
  "prefix_end before xs k \<longleftrightarrow> k \<le> length xs \<and> (\<forall>m < k. before (xs ! m)) \<and> (\<forall>m. k \<le> m \<and> m < length xs \<longrightarrow> \<not> before (xs ! m))"

lemma bsearch_finds:
  assumes mono: "\<And>k m. k \<le> m \<Longrightarrow> m < length xs \<Longrightarrow> before (xs ! m) \<Longrightarrow> before (xs ! k)"
    and "i \<le> j" "j \<le> length xs" "\<forall>m < i. before (xs ! m)" "\<forall>m. j \<le> m \<and> m < length xs \<longrightarrow> \<not> before (xs ! m)"
  shows "prefix_end before xs (bsearch before xs i j)"
  using assms(2-)
proof (induction "j - i" arbitrary: i j rule: less_induct)
  case less
  show ?case
  proof (cases "i < j")
    case False
    then have "bsearch before xs i j = i" by (simp add: bsearch.simps [of before xs i j])
    then show ?thesis using less.prems False by (simp add: prefix_end_def)
  next
    case True
    define h where "h = (i + j) div 2"
    have h: "i \<le> h" "h < j" using True by (simp_all add: h_def)
    show ?thesis
    proof (cases "before (xs ! h)")
      case t: True
      have "\<forall>m < h + 1. before (xs ! m)" using mono [OF _ _ t] h less.prems(2) by (auto simp: less_Suc_eq_le)
      then have "prefix_end before xs (bsearch before xs (h + 1) j)" using h less.prems by (intro less.hyps) simp_all
      then show ?thesis using True t by (simp add: bsearch.simps [of before xs i j] h_def [symmetric] Let_def)
    next
      case f: False
      have "\<forall>m. h \<le> m \<and> m < length xs \<longrightarrow> \<not> before (xs ! m)" using mono f by blast
      then have "prefix_end before xs (bsearch before xs i h)" using h less.prems by (intro less.hyps) simp_all
      then show ?thesis using True f by (simp add: bsearch.simps [of before xs i j] h_def [symmetric] Let_def)
    qed
  qed
qed

definition newest_first :: "snapshots_of \<Rightarrow> int list \<Rightarrow> bool" where
  "newest_first B is \<longleftrightarrow> sorted_wrt (\<lambda>i j. DateAdded (Meta (B i)) \<ge> DateAdded (Meta (B j))) is"

lemma insert_newest:
  assumes "newest_first B is" "k = bsearch (\<lambda>j. DateAdded (Meta (B j)) > DateAdded (Meta (B i))) is 0 (length is)"
  shows "newest_first B (take k is @ i # drop k is)"
proof -
  let ?before = "\<lambda>j. DateAdded (Meta (B j)) > DateAdded (Meta (B i))"
  have "?before (is ! m)" if "m \<le> n" "n < length is" "?before (is ! n)" for m n
  proof (cases "m = n")
    case False
    then have "DateAdded (Meta (B (is ! m))) \<ge> DateAdded (Meta (B (is ! n)))"
      using sorted_wrt_nth_less [OF assms(1) [unfolded newest_first_def], of m n] that(1,2) by simp
    then show ?thesis using that(3) by (rule less_le_trans [rotated])
  qed (use that in simp)
  then have k: "prefix_end ?before is k" unfolding assms(2) by (rule bsearch_finds) simp_all
  have "?before j" if "j \<in> set (take k is)" for j using that k by (auto simp: in_set_conv_nth prefix_end_def)
  moreover have "\<not> ?before j" if "j \<in> set (drop k is)" for j using that k by (auto simp: in_set_conv_nth prefix_end_def)
  moreover have "newest_first B (take k is @ drop k is)" using assms(1) by simp
  ultimately show ?thesis by (fastforce simp: newest_first_def sorted_wrt_append)
qed

text \<open>The list of visible books is brought from the books \<open>vis\<close> to the books \<open>top\<close>.\<close>

lemma refresh_added:
  assumes "bl_files ops nodes B l (set vis)" "distinct tops" "names_free B (set vis \<union> set tops)"
  shows "bl_files ops nodes B (foldl (\<lambda>l i. if i \<in> set vis then l else bl_add ops B i l) l tops) (set vis \<union> set tops)"
  using assms(2,3)
proof (induction tops rule: rev_induct)
  case (snoc i tops)
  then have IH: "bl_files ops nodes B (foldl (\<lambda>l i. if i \<in> set vis then l else bl_add ops B i l) l tops) (set vis \<union> set tops)"
    using names_free_subset by auto
  show ?case
  proof (cases "i \<in> set vis")
    case True
    then show ?thesis using IH by (simp add: insert_absorb)
  next
    case False
    with snoc.prems have "i \<notin> set vis \<union> set tops" "names_free B (insert i (set vis \<union> set tops))" by simp_all
    from bl_add_files [OF IH this] False show ?thesis by simp
  qed
qed (simp add: assms(1))

lemma refresh_removed:
  assumes "bl_files ops nodes B l S"
  shows "bl_files ops nodes B (foldl (\<lambda>l i. if i \<in> T then l else bl_remove ops B i l) l vis) (S - (set vis - T))"
  using assms
proof (induction vis arbitrary: l S)
  case (Cons i vis)
  show ?case
  proof (cases "i \<in> T")
    case True
    have "S - (set (i # vis) - T) = S - (set vis - T)" using True by auto
    then show ?thesis using Cons.IH [OF Cons.prems] True by simp
  next
    case False
    have "S - (set (i # vis) - T) = S - {i} - (set vis - T)" using False by auto
    then show ?thesis using Cons.IH [OF bl_remove_files [OF Cons.prems, of i]] False by (simp only: foldl_Cons if_False)
  qed
qed simp

definition rc_files :: "(book_node, 'd) dir_ops \<Rightarrow> ('d \<Rightarrow> book_node set) \<Rightarrow> snapshots_of \<Rightarrow> 'd recent_dir \<Rightarrow> int set \<Rightarrow> bool" where
  "rc_files ops nodes B v S \<longleftrightarrow> bl_files ops nodes B (RcList v) (set (RcVisible v)) \<and>
     RcVisible v = take recent_limit (RcAll v) \<and> distinct (RcAll v) \<and> set (RcAll v) = S \<and> newest_first B (RcAll v) \<and>
     names_free B S"

lemma refresh_files:
  assumes "bl_files ops nodes B (RcList v) (set (RcVisible v))" "distinct (RcAll v)" "newest_first B (RcAll v)"
    and "names_free B (set (RcAll v))" "names_free B (set (RcVisible v) \<union> set (RcAll v))"
  shows "rc_files ops nodes B (recent_refresh ops B v) (set (RcAll v))"
proof -
  let ?top = "take recent_limit (RcAll v)" and ?vis = "RcVisible v"
  have "names_free B (set ?vis \<union> set ?top)" by (rule names_free_subset [OF assms(5)]) (auto dest: in_set_takeD)
  from refresh_removed [OF refresh_added [OF assms(1) _ this], of "set ?top" ?vis] assms(2)
  have "bl_files ops nodes B (RcList (recent_refresh ops B v)) (set ?vis \<union> set ?top - (set ?vis - set ?top))"
    by (simp add: recent_refresh_def Let_def)
  moreover have "set ?vis \<union> set ?top - (set ?vis - set ?top) = set ?top" by auto
  ultimately show ?thesis using assms(2-4) by (simp add: rc_files_def recent_refresh_def Let_def)
qed

lemma insert_at:
  assumes "distinct xs" "x \<notin> set xs"
  shows "distinct (take k xs @ x # drop k xs)" "set (take k xs @ x # drop k xs) = insert x (set xs)"
proof -
  have "set (take k xs) \<union> set (drop k xs) = set xs" by (metis append_take_drop_id set_append)
  then show "set (take k xs @ x # drop k xs) = insert x (set xs)" by auto
  have "distinct (take k xs @ drop k xs)" using assms(1) by simp
  then show "distinct (take k xs @ x # drop k xs)" using assms(2)
    by (auto dest: in_set_takeD in_set_dropD simp del: append_take_drop_id)
qed

lemma rc_add_files:
  assumes "rc_files ops nodes B v S" "i \<notin> S" "names_free B (insert i S)"
  shows "rc_files ops nodes B (recent_add ops B i v) (insert i S)"
proof -
  let ?k = "bsearch (\<lambda>j. DateAdded (Meta (B j)) > DateAdded (Meta (B i))) (RcAll v) 0 (length (RcAll v))"
  let ?all = "take ?k (RcAll v) @ i # drop ?k (RcAll v)"
  have S: "set (RcAll v) = S" "set (RcVisible v) \<subseteq> S" using assms(1) by (auto simp: rc_files_def dest: in_set_takeD)
  have "distinct (RcAll v)" using assms(1) by (simp add: rc_files_def)
  then have "distinct ?all" and set: "set ?all = insert i S"
    using insert_at [of "RcAll v" i ?k] assms(2) S(1) by simp_all
  moreover have "newest_first B ?all" using assms(1) by (intro insert_newest) (simp_all add: rc_files_def)
  moreover have "names_free B (set (RcVisible v) \<union> set ?all)"
    by (rule names_free_subset [OF assms(3)]) (use S(2) in \<open>unfold set, blast\<close>)
  moreover have "names_free B (set ?all)" unfolding set by (rule assms(3))
  moreover have "bl_files ops nodes B (RcList v) (set (RcVisible v))" using assms(1) unfolding rc_files_def by blast
  ultimately have "rc_files ops nodes B (recent_refresh ops B (v\<lparr>RcAll := ?all\<rparr>)) (set ?all)"
    using refresh_files [of ops nodes B "v\<lparr>RcAll := ?all\<rparr>"] by simp
  then show ?thesis unfolding set by (simp add: recent_add_def Let_def)
qed

lemma rc_remove_files:
  assumes "rc_files ops nodes B v S" "i \<in> S"
  shows "rc_files ops nodes B (recent_remove ops B i v) (S - {i})"
proof -
  have S: "set (RcAll v) = S" "set (RcVisible v) \<subseteq> S" "names_free B S" using assms(1) by (auto simp: rc_files_def dest: in_set_takeD)
  let ?all = "filter (\<lambda>j. MID (Meta (B j)) \<noteq> MID (Meta (B i))) (RcAll v)"
  have eq: "set ?all = S - {i}" using S assms(2) by (auto simp: names_free_def)
  have "newest_first B ?all" using assms(1) by (simp add: rc_files_def newest_first_def sorted_wrt_filter)
  then have "rc_files ops nodes B (recent_refresh ops B (v\<lparr>RcAll := ?all\<rparr>)) (set (RcAll (v\<lparr>RcAll := ?all\<rparr>)))"
    using assms(1) S names_free_subset [OF S(3)] by (intro refresh_files) (auto simp: rc_files_def)
  then show ?thesis using eq by (simp add: recent_remove_def)
qed

lemma names_free_frame: "names_free B S \<Longrightarrow> (\<And>i. i \<in> S \<Longrightarrow> B' i = B i) \<Longrightarrow> names_free B' S"
  by (simp add: names_free_def)

lemma rc_frame:
  assumes "rc_files ops nodes B v S" "\<And>i. i \<in> S \<Longrightarrow> B' i = B i"
  shows "rc_files ops nodes B' v S"
proof -
  have S: "set (RcAll v) = S" "set (RcVisible v) \<subseteq> S" using assms(1) by (auto simp: rc_files_def dest: in_set_takeD)
  have "newest_first B (RcAll v)" using assms(1) by (simp add: rc_files_def)
  then have "newest_first B' (RcAll v)" unfolding newest_first_def
    by (rule sorted_wrt_mono_rel [rotated]) (use S assms(2) in simp)
  moreover have "bl_files ops nodes B' (RcList v) (set (RcVisible v))"
    by (rule bl_frame [of ops nodes B]) (use assms S in \<open>auto simp: rc_files_def\<close>)
  ultimately show ?thesis using assms names_free_frame [of B S B'] by (simp add: rc_files_def)
qed

section \<open>Search results\<close>

definition matched :: "'d results_dir \<Rightarrow> snapshots_of \<Rightarrow> int set \<Rightarrow> int set" where
  "matched v B S = {i \<in> S. case RsMatches v of None \<Rightarrow> False | Some fn \<Rightarrow> fn (B i)}"

definition rs_files :: "(book_node, 'd) dir_ops \<Rightarrow> ('d \<Rightarrow> book_node set) \<Rightarrow> snapshots_of \<Rightarrow> 'd results_dir \<Rightarrow> int set \<Rightarrow> bool" where
  "rs_files ops nodes B v S \<longleftrightarrow> bl_files ops nodes B (RsList v) (matched v B S)"

lemma rs_add_files:
  assumes "rs_files ops nodes B v S" "i \<notin> S" "names_free B (insert i S)"
  shows "rs_files ops nodes B (results_add ops B i v) (insert i S)"
proof (cases "\<exists>fn. RsMatches v = Some fn \<and> fn (B i)")
  case True
  then have "matched (results_add ops B i v) B (insert i S) = insert i (matched v B S)"
    "results_add ops B i v = v\<lparr>RsList := bl_add ops B i (RsList v)\<rparr>"
    by (auto simp: results_add_def matched_def)
  moreover have "names_free B (insert i (matched v B S))" by (rule names_free_subset [OF assms(3)]) (auto simp: matched_def)
  ultimately show ?thesis using bl_add_files [of ops nodes B "RsList v" "matched v B S" i] assms(1,2)
    by (simp add: rs_files_def matched_def)
next
  case False
  then have "results_add ops B i v = v" "matched v B (insert i S) = matched v B S"
    by (auto simp: results_add_def matched_def split: option.splits)
  then show ?thesis using assms(1) by (simp add: rs_files_def)
qed

lemma rs_remove_files:
  "rs_files ops nodes B v S \<Longrightarrow> rs_files ops nodes B (results_remove ops B i v) (S - {i})"
  using bl_remove_files [of ops nodes B "RsList v" "matched v B S" i]
  by (simp add: rs_files_def results_remove_def matched_def set_diff_eq conj_commute conj_left_commute)

lemma rs_frame:
  assumes "rs_files ops nodes B v S" "\<And>i. i \<in> S \<Longrightarrow> B' i = B i"
  shows "rs_files ops nodes B' v S"
proof -
  have "matched v B' S = matched v B S" using assms(2) by (auto simp: matched_def split: option.splits)
  then show ?thesis using assms bl_frame [of ops nodes B "RsList v" "matched v B S" B'] by (simp add: rs_files_def matched_def)
qed

section \<open>The views of the tree\<close>

fun view_files :: "(book_node, 'd) dir_ops \<Rightarrow> ('d \<Rightarrow> book_node set) \<Rightarrow> snapshots_of \<Rightarrow> 'd view \<Rightarrow> int set \<Rightarrow> bool" where
  "view_files ops nodes B (BooksView l) S = bl_files ops nodes B l S"
| "view_files ops nodes B (RecentView v) S = rc_files ops nodes B v S"
| "view_files ops nodes B (ResultsView v) S = rs_files ops nodes B v S"

interpretation served: book_view "served_ops ops" names_free "view_files ops nodes"
  for ops :: "(book_node, 'd) dir_ops" and nodes :: "'d \<Rightarrow> book_node set"
proof
  show "view_files ops nodes B (VAdd (served_ops ops) B i v) (insert i S)"
    if "view_files ops nodes B v S" "i \<notin> S" "names_free B (insert i S)" for B v S i
    using that by (cases v) (simp_all add: served_ops_def bl_add_files rc_add_files rs_add_files)
  show "view_files ops nodes B (VRemove (served_ops ops) B i v) (S - {i})"
    if "view_files ops nodes B v S" "i \<in> S" for B v S i
    using that by (cases v) (simp_all add: served_ops_def bl_remove_files rc_remove_files rs_remove_files)
  show "view_files ops nodes B' v S" if "view_files ops nodes B v S" "\<And>i. i \<in> S \<Longrightarrow> B' i = B i" for B v S B'
    using that bl_frame [of ops nodes B] rc_frame [of ops nodes B] rs_frame [of ops nodes B] by (cases v) auto
qed (rule names_free_subset)

end
