(* ===== verification/Served.thy ===== *)
theory Served
  imports Views_Safe Library_Safe
begin

text \<open>
  The served tree as a whole: the views follow the registry through every event, and a search view shows the books
  the index finds.
\<close>

section \<open>Runs of the registry\<close>

text \<open>
  What happens to the registry of a running server: views are added (by the server, or empty ones by opening
  \<^verbatim>\<open>search/clone\<close>) and removed, books are ingested, edited and deleted, and queries are run in the handles. An
  ingested book has a new id. The names of the books of a state must be free: of two books no one has a title that
  reads like the other's title with its number (\<^verbatim>\<open>views/booklist.go\<close> records the limitation).
\<close>

definition reg_free :: "('k, 'd view) registry \<Rightarrow> bool" where
  "reg_free r \<longleftrightarrow> names_free (snap r) (set (reg_ids r))"

inductive served_run :: "(book_node, 'd) dir_ops \<Rightarrow> ('k, 'd view) registry \<Rightarrow> bool" for ops where
  start: "served_run ops new_registry"
| viewed: "served_run ops r \<Longrightarrow> v \<in> {BooksView (new_book_list ops), RecentView (new_recent ops), ResultsView (new_results ops)} \<Longrightarrow>
    served_run ops (add_view (served_ops ops) k v r)"
| dropped: "served_run ops r \<Longrightarrow> served_run ops (remove_view k r)"
| ingested: "served_run ops r \<Longrightarrow> MID (Meta b) \<notin> set (reg_ids r) \<Longrightarrow> r' = reg_ingested (served_ops ops) b r \<Longrightarrow>
    reg_free r' \<Longrightarrow> served_run ops r'"
| edited: "served_run ops r \<Longrightarrow> r' = reg_edited (served_ops ops) b r \<Longrightarrow> reg_free r' \<Longrightarrow> served_run ops r'"
| deleted: "served_run ops r \<Longrightarrow> served_run ops (reg_deleted (served_ops ops) i r)"
| queried: "served_run ops r \<Longrightarrow> (\<And>v. (k, v) \<in> set (RgViews r) \<Longrightarrow> \<exists>rs. v = ResultsView rs) \<Longrightarrow>
    served_run ops (execute_search ops lw k q r)"

lemma reset_files:
  "view_files ops nodes B (ResultsView v) S \<Longrightarrow> view_files ops nodes B (reset_view ops B fn (ResultsView v)) {}"
  using bl_clear_files [of ops nodes B "RsList v"] by (simp add: rs_files_def matched_def reset_results_def)

lemma new_view_files:
  assumes "static_dir_ok ops nodes" "v \<in> {BooksView (new_book_list ops), RecentView (new_recent ops), ResultsView (new_results ops)}"
  shows "view_files ops nodes B v {}"
  using assms bl_new [OF assms(1), of B]
  by (auto simp: rc_files_def new_recent_def newest_first_def names_free_def rs_files_def matched_def new_results_def)

lemma served_run_ok:
  assumes "served_run ops r" "static_dir_ok ops nodes"
  shows "served.reg_ok ops nodes r \<and> reg_free r"
  using assms
proof (induction rule: served_run.induct)
  case start
  then show ?case by (simp add: served.reg_ok_def new_registry_def reg_ids_def reg_free_def names_free_def)
next
  case (viewed r v k)
  then have "reg_free (add_view (served_ops ops) k v r) = reg_free r"
    by (simp add: reg_free_def add_view_def snap_def [abs_def] reg_ids_def)
  then show ?case
    using viewed served.add_view_ok [of ops nodes r v k] new_view_files [of ops nodes v] by (simp add: reg_free_def)
next
  case (dropped r k)
  then show ?case using served.remove_view_ok [of ops nodes r k]
    by (simp add: reg_free_def remove_view_def snap_def [abs_def] reg_ids_def)
next
  case (ingested r b r')
  then have "names_free ((snap r)(MID (Meta b) := b)) (insert (MID (Meta b)) (set (reg_ids r)))"
    by (simp add: reg_free_def ingested_books)
  then show ?case using ingested served.ingested_ok [of ops nodes r b] by simp
next
  case (edited r r' b)
  show ?case
  proof (cases "MID (Meta b) \<in> set (reg_ids r)")
    case False
    then have "r' = r" using edited.hyps(2) by (simp add: reg_edited_def ids_map_of [symmetric])
    then show ?thesis using edited by simp
  next
    case True
    then have "names_free ((snap r)(MID (Meta b) := b)) (set (reg_ids r))"
      using edited by (simp add: reg_free_def edited_books)
    then show ?thesis using edited True served.edited_ok [of ops nodes r b] by simp
  qed
next
  case (deleted r i)
  note d = served.deleted_ok [where r = r and i = i and ops = ops and nodes = nodes]
  have "names_free (snap (reg_deleted (served_ops ops) i r)) (set (reg_ids r) - {i})"
    by (rule names_free_frame [OF names_free_subset [of "snap r" "set (reg_ids r)"]]) (use deleted d(3) in \<open>auto simp: reg_free_def\<close>)
  then show ?case using deleted d(1,2) by (simp add: reg_free_def)
next
  case (queried r k lw q)
  let ?reset = "reset_view ops (snap r) (make_matches lw q)"
  have "view_files ops nodes (snap r) (?reset v) {}" if v: "(k, v) \<in> set (RgViews r)" for v
    using queried.hyps(2) [OF v] served.reg_okD [OF conjunct1 [OF queried.IH [OF queried.prems]] v] reset_files by blast
  then have "served.reg_ok ops nodes (execute_search ops lw k q r)"
    unfolding execute_search_def using queried by (intro served.resync_view_ok) (auto simp: reg_free_def)
  then show ?case using queried
    by (simp add: reg_free_def execute_search_def resync_view_def snap_def [abs_def] reg_ids_def)
qed

text \<open>A directory has one entry for each of the books \<open>S\<close>, all of different names.\<close>

definition shows_books :: "('d \<Rightarrow> book_node set) \<Rightarrow> snapshots_of \<Rightarrow> 'd \<Rightarrow> int set \<Rightarrow> bool" where
  "shows_books nodes B d S \<longleftrightarrow> node_id ` nodes d = S \<and> inj_on node_id (nodes d) \<and> inj_on (list_name B) (nodes d)"

lemma bl_files_shows: "bl_files ops nodes B l S \<Longrightarrow> shows_books nodes B (BLDir l) S"
proof -
  assume "bl_files ops nodes B l S"
  then obtain f where "lists_as nodes B l S f" by (auto simp: bl_files_def)
  then have n: "nodes (BLDir l) = (\<lambda>i. list_node (f i) i) ` S" and "inj_on (list_name B) (nodes (BLDir l))"
    unfolding lists_as_def by blast+
  moreover have "node_id ` nodes (BLDir l) = S" "inj_on node_id (nodes (BLDir l))"
    by (auto simp: n image_image inj_on_def)
  ultimately show ?thesis by (simp add: shows_books_def)
qed


lemma sample_names: "names_free (\<lambda>i. sample_book) {1}"
  by code_simp


section \<open>One query language, two matchers\<close>

text \<open>A book as a search returns it, from its row.\<close>

definition full :: "db \<Rightarrow> book_row \<Rightarrow> book" where
  "full d r = hd (hydrate_books d [to_book d r])"

lemma search_full: "search q d = map (full d) (query_rows q d)"
proof -
  have "hydrate_books d (map (to_book d) rs) ! k = full d (rs ! k)" if k: "k < length rs" for rs k
  proof -
    let ?ids = "map (\<lambda>b. MID (Meta b)) (map (to_book d) rs)"
    have "MID (Meta (to_book d (rs ! k))) \<in> set ?ids" using k by force
    from load_many [OF this] show ?thesis
      unfolding hydrate_books_def full_def Let_def using k by (simp flip: map_map [unfolded o_def])
  qed
  moreover have "length (hydrate_books d (map (to_book d) rs)) = length rs" for rs
    by (simp add: hydrate_books_def Let_def)
  ultimately show ?thesis by (intro nth_equalityI) (simp_all add: search_def)
qed

lemma full_simps:
  "Title (Bib (full d r)) = RTitle r" "Status (Meta (full d r)) = RStatus r" "MID (Meta (full d r)) = RID r"
  "Series (Bib (full d r)) = row_series d r" "Authors (Bib (full d r)) = load_authors [RID r] d (RID r)"
  "Tags (Meta (full d r)) = load_tags [RID r] d (RID r)"
  by (simp_all add: full_def hydrate_books_def to_book_def Let_def)

lemma load_authors_set:
  "set (map (\<lambda>a. (AName a, ASortName a)) (load_authors [i] d i)) = (\<lambda>x. (fst (snd x), fst (snd (snd x)))) ` set (joined i (AuthorsR d))"
  by (force simp: load_authors_def get_authors_by_book_ids_def rows_of_def joined_rows_one)

lemma load_tags_set: "set (load_tags [i] d i) = (\<lambda>x. fst (snd x)) ` set (joined i (TagsR d))"
  by (force simp: load_tags_def get_tags_by_book_ids_def rows_of_def joined_rows_one)

text \<open>Letters of ASCII only: there \<open>strings.ToLower\<close> and SQLite's \<^verbatim>\<open>LIKE\<close> fold the same characters.\<close>

definition ascii_text :: "string \<Rightarrow> bool" where
  "ascii_text s \<longleftrightarrow> list_all (\<lambda>c. byte c < 128) s"

definition lower_ok :: "(string \<Rightarrow> string) \<Rightarrow> bool" where
  "lower_ok lw \<longleftrightarrow> (\<forall>s. ascii_text s \<longrightarrow> lw s = map ascii_fold s)"

definition title_plain :: "query \<Rightarrow> book_row \<Rightarrow> bool" where
  "title_plain q r \<longleftrightarrow> QExactTitles q \<or> QTitles q = [] \<or> ascii_text (RTitle r) \<and> list_all ascii_text (QTitles q)"

lemma title_like_sublist: "title_like t s \<longleftrightarrow> sublist (map ascii_fold t) (map ascii_fold s)"
proof
  assume "title_like t s"
  then obtain a u b where "s = a @ u @ b" "map ascii_fold u = map ascii_fold t" unfolding title_like_iff by blast
  then show "sublist (map ascii_fold t) (map ascii_fold s)" by (simp flip: map_append) (auto simp: sublist_def)
next
  assume "sublist (map ascii_fold t) (map ascii_fold s)"
  then show "title_like t s" unfolding title_like_iff sublist_def by (auto simp: map_eq_append_conv append_eq_map_conv eq_commute [of "map ascii_fold t @ _"]) metis
qed

lemma row_matches_full:
  assumes "lower_ok lw" "title_plain q r"
  shows "row_matches d q r \<longleftrightarrow> make_matches lw q (full d r)"
proof -
  have authors: "(\<exists>a \<in> set (joined (RID r) (AuthorsR d)). fst (snd a) \<in> A \<or> fst (snd (snd a)) \<in> A) \<longleftrightarrow>
      list_ex (\<lambda>a. AName a \<in> A \<or> ASortName a \<in> A) (load_authors [RID r] d (RID r))" for A
  proof -
    have "(\<exists>a \<in> set (joined (RID r) (AuthorsR d)). fst (snd a) \<in> A \<or> fst (snd (snd a)) \<in> A) \<longleftrightarrow>
        (\<exists>p \<in> (\<lambda>x. (fst (snd x), fst (snd (snd x)))) ` set (joined (RID r) (AuthorsR d)). fst p \<in> A \<or> snd p \<in> A)" by simp
    also have "\<dots> \<longleftrightarrow> (\<exists>a \<in> set (load_authors [RID r] d (RID r)). AName a \<in> A \<or> ASortName a \<in> A)"
      unfolding load_authors_set [symmetric] by simp
    finally show ?thesis by (simp add: list_ex_iff)
  qed
  have tags: "(\<exists>t \<in> set (joined (RID r) (TagsR d)). fst (snd t) \<in> A) \<longleftrightarrow> (\<exists>t \<in> A. t \<in> set (load_tags [RID r] d (RID r)))" for A
    unfolding load_tags_set by auto
  have series: "has_series (Some (full d r)) \<and> series_name (Some (full d r)) \<in> A \<longleftrightarrow>
      (case RSeriesID r of None \<Rightarrow> False | Some sid \<Rightarrow> (case key_of (SeriesR d) sid of None \<Rightarrow> False | Some n \<Rightarrow> n \<in> A))" for A
    by (auto simp: has_series_def series_name_def full_simps row_series_def split: option.splits)
  have titles: "(if QExactTitles q then QTitles q = [] \<or> RTitle r \<in> set (QTitles q)
      else QTitles q = [] \<or> (\<exists>t \<in> set (QTitles q). title_like t (RTitle r))) \<longleftrightarrow> matches_titles lw q (full d r)"
  proof (cases "QExactTitles q \<or> QTitles q = []")
    case False
    then have "ascii_text (RTitle r)" "\<And>t. t \<in> set (QTitles q) \<Longrightarrow> ascii_text t"
      using assms(2) by (auto simp: title_plain_def list_all_iff)
    then show ?thesis using False assms(1)
      by (simp add: matches_titles_def full_simps title_like_sublist lower_ok_def list_ex_iff)
  qed (auto simp: matches_titles_def full_simps)
  show ?thesis
    unfolding row_matches_def make_matches_def matches_authors_def matches_tags_def matches_series_def matches_status_def
      matches_ids_def titles series full_simps authors tags
    by (simp add: list_ex_iff)
qed

text \<open>C22: the search view's matcher accepts exactly the books the index finds for the same query, as long as
  titles compared without their case are ASCII (beyond ASCII only the view folds letters).\<close>

theorem matcher_agrees_with_search:
  assumes "lower_ok lw" "QLimit q \<le> 0" "\<And>r. r \<in> set (Books d) \<Longrightarrow> title_plain q r"
  shows "set (search q d) = {b \<in> set (search empty_query d). make_matches lw q b}"
proof -
  have rows: "set (query_rows p d) = {r \<in> set (Books d). row_matches d p r}" if "QLimit p \<le> 0" for p
    using mset_eq_setD [OF order_rows_mset [of "QOrder p" "filter (row_matches d p) (Books d)"]] that
    by (simp add: query_rows_def limit_rows_def)
  have "row_matches d empty_query r" for r by (simp add: row_matches_def empty_query_def)
  then show ?thesis
    using row_matches_full [OF assms(1)] assms(3) rows [OF assms(2)] rows [of empty_query]
    by (auto simp: search_full empty_query_def)
qed

theorem matcher_agrees_with_search_witness:
  "set (search (empty_query\<lparr>QTags := [''x'']\<rparr>) sample_db) = {b \<in> set (search empty_query sample_db). make_matches (map ascii_fold) (empty_query\<lparr>QTags := [''x'']\<rparr>) b}"
  by (rule matcher_agrees_with_search) (simp_all add: lower_ok_def title_plain_def empty_query_def)

section \<open>Entries in the order of their numbers\<close>

lemma digits_val_Cons: "digits_val (c # s) = (byte c - 48) * 10 ^ length s + digits_val s"
proof -
  have "foldl (\<lambda>n c. 10 * n + (byte c - 48)) k s = k * 10 ^ length s + foldl (\<lambda>n c. 10 * n + (byte c - 48)) 0 s" for k
  proof (induction s arbitrary: k rule: rev_induct)
    case (snoc c s)
    show ?case by (simp add: snoc [of k])
  qed simp
  from this [of "byte c - 48"] show ?thesis by (simp add: digits_val_def)
qed

lemma digits_val_bound: "list_all is_digit s \<Longrightarrow> digits_val s < 10 ^ length s"
proof (induction s)
  case (Cons c s)
  then have "byte c - 48 \<le> 9" "digits_val s < 10 ^ length s" by (auto simp: is_digit_def)
  then have "(byte c - 48) * 10 ^ length s + digits_val s < 9 * 10 ^ length s + 10 ^ length s"
    using mult_le_mono1 [of "byte c - 48" 9 "10 ^ length s"] by linarith
  then show ?case by (simp add: digits_val_Cons)
qed (simp add: digits_val_def)

lemma byte_less: "byte c < byte e \<Longrightarrow> c < (e :: char)"
  by (simp add: byte_def less_char_def)

lemma digits_order:
  assumes "length s = length t" "list_all is_digit s" "list_all is_digit t" "digits_val s < digits_val t"
  shows "s < t"
  using assms
proof (induction s t rule: list_induct2)
  case (Cons c s e t)
  have v: "digits_val s < 10 ^ length t" "digits_val t < 10 ^ length t"
    using digits_val_bound [of s] digits_val_bound [of t] Cons by simp_all
  have "byte c \<le> byte e"
  proof (rule ccontr)
    assume "\<not> byte c \<le> byte e"
    moreover have "48 \<le> byte e" using Cons.prems(2) by (simp add: is_digit_def)
    ultimately have "Suc (byte e - 48) \<le> byte c - 48" by linarith
    then have "Suc (byte e - 48) * 10 ^ length t \<le> (byte c - 48) * 10 ^ length t" by (rule mult_le_mono1)
    then show False using Cons.prems(3) Cons.hyps v by (simp add: digits_val_Cons)
  qed
  then consider "byte c < byte e" | "c = e" by (metis byte_def le_neq_implies_less of_char_eq_iff)
  then show ?case
  proof cases
    case 1
    then show ?thesis using byte_less by simp
  next
    case 2
    then show ?thesis using Cons by (simp add: digits_val_Cons)
  qed
qed simp

lemma length_dec_nat: "n < 10 ^ k \<Longrightarrow> 0 < k \<Longrightarrow> length (dec_nat n) \<le> k"
proof (induction n arbitrary: k rule: dec_nat.induct)
  case (1 n)
  show ?case
  proof (cases "n < 10")
    case False
    then have "1 < k" using "1.prems" by (cases "k = 1") auto
    then obtain j where j: "k = Suc j" "0 < j" by (cases k) auto
    then have "n div 10 < 10 ^ j" using "1.prems" by (simp add: less_mult_imp_div_less mult.commute)
    then show ?thesis using "1.IH" [OF False _ j(2)] j False by (subst dec_nat.simps) simp
  qed (use "1.prems" in \<open>simp add: dec_nat.simps [of n]\<close>)
qed

lemma zeros_val: "digits_val (replicate k (CHR ''0'') @ s) = digits_val s"
  by (induction k) (simp_all add: digits_val_Cons byte_def)

lemma dec_nat_bound: "n < 10 ^ length (dec_nat n)"
  using digits_val_bound [of "dec_nat n"] by (simp add: list_all_iff dec_nat_digits)

text \<open>The padding makes numbers up to the largest one compare as strings the way they compare as numbers.\<close>

lemma pad_format_digits:
  assumes "0 \<le> n" "n \<le> m"
  shows "list_all is_digit (pad_format (pad_set m) n)" "digits_val (pad_format (pad_set m) n) = nat n"
    "length (pad_format (pad_set m) n) = max 1 (pad_set m)"
proof -
  have d: "list_all is_digit (dec_nat k)" for k by (simp add: list_all_iff dec_nat_digits)
  have z: "list_all is_digit (replicate k (CHR ''0''))" for k by (simp add: list_all_iff is_digit_def byte_def)
  have "m \<ge> 10 \<Longrightarrow> length (dec_nat (nat n)) \<le> length (dec_nat (nat m))"
    using assms dec_nat_bound [of "nat m"] by (intro length_dec_nat) auto
  moreover have "m < 10 \<Longrightarrow> length (dec_int n) = 1" using assms by (simp add: dec_int_def dec_nat.simps [of "nat n"])
  ultimately show "length (pad_format (pad_set m) n) = max 1 (pad_set m)"
    using assms by (auto simp: pad_format_def pad_set_def zero_pad_def Let_def dec_int_def Suc_le_eq)
  show "list_all is_digit (pad_format (pad_set m) n)" "digits_val (pad_format (pad_set m) n) = nat n"
    using assms d z by (auto simp: pad_format_def zero_pad_def Let_def dec_int_def zeros_val)
qed

lemma less_append: "length s = length t \<Longrightarrow> s < t \<Longrightarrow> s @ x < t @ (y :: string)"
  by (induction s t rule: list_induct2) auto

text \<open>In \<^verbatim>\<open>by-id\<close> the names of the books, compared as strings the way clients list them, come in the order
  of the ids, whatever the titles are.\<close>

theorem id_entries_in_order:
  assumes "0 \<le> MID (Meta b)" "MID (Meta b) < MID (Meta c)" "MID (Meta c) \<le> m"
  shows "id_entry_name (pad_set m) b < id_entry_name (pad_set m) c"
proof -
  have "pad_format (pad_set m) (MID (Meta b)) < pad_format (pad_set m) (MID (Meta c))"
    using assms by (intro digits_order) (simp_all add: pad_format_digits)
  moreover have "length (pad_format (pad_set m) (MID (Meta b))) = length (pad_format (pad_set m) (MID (Meta c)))"
    using assms by (simp add: pad_format_digits)
  ultimately show ?thesis unfolding id_entry_name_def by (intro less_append)
qed

theorem id_entries_in_order_witness:
  "id_entry_name (pad_set 100) (sample_book\<lparr>Meta := (Meta sample_book)\<lparr>MID := 9\<rparr>\<rparr>) <
   id_entry_name (pad_set 100) (sample_book\<lparr>Meta := (Meta sample_book)\<lparr>MID := 10\<rparr>\<rparr>)"
  by (rule id_entries_in_order) simp_all

end
