(* ===== verification/Search_Dir.thy ===== *)
theory Search_Dir
  imports Served
begin

text \<open>
  \<^verbatim>\<open>internal/fs/views/view_search.go\<close>: the search handles a client gets from \<^verbatim>\<open>search/clone\<close>, and how abandoned ones
  are reclaimed. A handle's results are the registry's view of the key \<open>SearchView i\<close>. The directory of the 9P
  library is the parameter \<open>hops\<close> with the handles' names as nodes. Go walks the map of handles in any order,
  here the order of \<open>SdHandles\<close>. \<open>now\<close> is the clock; each operation holds the lock of the directory.
\<close>

datatype view_key = TreeView string | SearchView int

record search_handle =
  HQueryText :: string
  HLastQuery :: time

record 'e search_dir =
  SdDir :: 'e
  SdHandles :: "(int \<times> search_handle) list"
  SdNext :: int
  SdTtl :: int
  SdMax :: int

type_synonym ('e, 'd) searches = "'e search_dir \<times> (view_key, 'd view) registry"

definition new_search_dir :: "(string, 'e) dir_ops \<Rightarrow> int \<Rightarrow> int \<Rightarrow> 'e search_dir" where
  "new_search_dir hops ttl m =
     \<lparr>SdDir = DAdd hops id ''clone'' (DNew hops), SdHandles = [], SdNext = 1, SdTtl = ttl, SdMax = m\<rparr>"

definition remove_handle :: "(string, 'e) dir_ops \<Rightarrow> int \<Rightarrow> ('e, 'd) searches \<Rightarrow> ('e, 'd) searches" where
  "remove_handle hops i s = (case s of (sd, r) \<Rightarrow>
     (case map_of (SdHandles sd) i of
        None \<Rightarrow> (sd, r)
      | Some _ \<Rightarrow> (sd\<lparr>SdDir := DDel hops id (dec_int i) (SdDir sd), SdHandles := AList.delete i (SdHandles sd)\<rparr>,
          remove_view (SearchView i) r)))"

definition remove_handles :: "(string, 'e) dir_ops \<Rightarrow> int list \<Rightarrow> ('e, 'd) searches \<Rightarrow> ('e, 'd) searches" where
  "remove_handles hops is s = foldl (\<lambda>s i. remove_handle hops i s) s is"

definition expired :: "time \<Rightarrow> 'e search_dir \<Rightarrow> int list" where
  "expired now sd = (if SdTtl sd > 0 then map fst (filter (\<lambda>(i, h). now - HLastQuery h > SdTtl sd) (SdHandles sd)) else [])"

definition evicted :: "int \<Rightarrow> 'e search_dir \<Rightarrow> int list" where
  "evicted headroom sd =
     (let n = int (length (SdHandles sd)) in
      if SdMax sd > 0 \<and> n + headroom > SdMax sd
      then map fst (take (nat (n + headroom - SdMax sd)) (sort_key (\<lambda>(i, h). HLastQuery h) (SdHandles sd)))
      else [])"

definition cleanup_locked :: "(string, 'e) dir_ops \<Rightarrow> time \<Rightarrow> int \<Rightarrow> ('e, 'd) searches \<Rightarrow> ('e, 'd) searches" where
  "cleanup_locked hops now headroom s =
     (let s = remove_handles hops (expired now (fst s)) s
      in remove_handles hops (evicted headroom (fst s)) s)"

definition allocate_handle :: "(string, 'e) dir_ops \<Rightarrow> (book_node, 'd) dir_ops \<Rightarrow> time \<Rightarrow> ('e, 'd) searches \<Rightarrow> int \<times> ('e, 'd) searches" where
  "allocate_handle hops ops now s =
     (case cleanup_locked hops now 1 s of (sd, r) \<Rightarrow>
       (let i = SdNext sd in
        (i, sd\<lparr>SdNext := i + 1, SdHandles := AList.update i \<lparr>HQueryText = [], HLastQuery = now\<rparr> (SdHandles sd),
               SdDir := DAdd hops id (dec_int i) (SdDir sd)\<rparr>,
            add_view (served_ops ops) (SearchView i) (ResultsView (new_results ops)) r)))"

text \<open>What a write to a handle's \<^verbatim>\<open>ctl\<close> does when its fid closes: close the handle, or run the query.\<close>

definition run_query :: "(book_node, 'd) dir_ops \<Rightarrow> (string \<Rightarrow> string) \<Rightarrow> time \<Rightarrow> int \<Rightarrow> query \<Rightarrow> string \<Rightarrow> ('e, 'd) searches \<Rightarrow> ('e, 'd) searches" where
  "run_query ops lw now i q txt s = (case s of (sd, r) \<Rightarrow>
     (sd\<lparr>SdHandles := AList.map_entry i (\<lambda>h. h\<lparr>HQueryText := txt, HLastQuery := now\<rparr>) (SdHandles sd)\<rparr>,
      execute_search ops lw (SearchView i) q r))"

definition search_ctl_close :: "(string, 'e) dir_ops \<Rightarrow> (book_node, 'd) dir_ops \<Rightarrow> (string \<Rightarrow> string) \<Rightarrow> time \<Rightarrow> int \<Rightarrow> write_buffer \<Rightarrow> word64 \<Rightarrow>
    ('e, 'd) searches \<Rightarrow> query_error option \<times> write_buffer \<times> ('e, 'd) searches" where
  "search_ctl_close hops ops lw now i wb fid s = (case commit_text wb fid of
      (None, wb) \<Rightarrow> (None, wb, s)
    | (Some txt, wb) \<Rightarrow>
        if txt = ''close'' then (None, wb, remove_handle hops i s)
        else (case parse_query txt of
            Inl e \<Rightarrow> (Some e, wb, s)
          | Inr q \<Rightarrow> (None, wb, run_query ops lw now i q txt s)))"

section \<open>The clone file\<close>

text \<open>A fid that opened the file gets one handle, at its first read; 0 stands for none yet.\<close>

definition clone_open :: "word64 \<Rightarrow> (word64 \<rightharpoonup> int) \<Rightarrow> (word64 \<rightharpoonup> int)" where
  "clone_open fid m = (if m fid = None then m(fid \<mapsto> 0) else m)"

definition clone_read :: "(string, 'e) dir_ops \<Rightarrow> (book_node, 'd) dir_ops \<Rightarrow> time \<Rightarrow> word64 \<Rightarrow> word64 \<Rightarrow> word64 \<Rightarrow>
    (word64 \<rightharpoonup> int) \<times> ('e, 'd) searches \<Rightarrow> (vfile_error + bytes) \<times> (word64 \<rightharpoonup> int) \<times> ('e, 'd) searches" where
  "clone_read hops ops now fid offset n ms = (case ms of (m, s) \<Rightarrow>
     (case m fid of
        None \<Rightarrow> (Inl NotOpen, m, s)
      | Some i \<Rightarrow>
          (case (if i = 0 then (case allocate_handle hops ops now s of (j, s) \<Rightarrow> (j, m(fid \<mapsto> j), s)) else (i, m, s)) of
             (i, m, s) \<Rightarrow> (clamp_read (dec_int i @ [CHR 0x0A]) offset n, m, s))))"

definition clone_close :: "word64 \<Rightarrow> (word64 \<rightharpoonup> int) \<Rightarrow> (word64 \<rightharpoonup> int)" where
  "clone_close fid m = m(fid := None)"

section \<open>The handles\<close>

definition handle_ids :: "('e, 'd) searches \<Rightarrow> int list" where
  "handle_ids s = map fst (SdHandles (fst s))"

definition view_keys :: "('e, 'd) searches \<Rightarrow> view_key list" where
  "view_keys s = map fst (RgViews (snd s))"

text \<open>The handles are those of the registry's search views, each once, and have been given out before.\<close>

definition handles_ok :: "('e, 'd) searches \<Rightarrow> bool" where
  "handles_ok s \<longleftrightarrow> distinct (handle_ids s) \<and> distinct (view_keys s) \<and> (\<forall>i \<in> set (handle_ids s). i < SdNext (fst s)) \<and>
     (\<forall>i. SearchView i \<in> set (view_keys s) \<longleftrightarrow> i \<in> set (handle_ids s))"

lemma keys_remove_first: "map fst (remove_first k vs) = remove1 k (map fst vs)"
  by (induction k vs rule: remove_first.induct) auto

lemma remove_handle_ok:
  assumes "handles_ok s"
  shows "handles_ok (remove_handle hops i s)" "handle_ids (remove_handle hops i s) = filter (\<lambda>j. j \<noteq> i) (handle_ids s)"
    "SdNext (fst (remove_handle hops i s)) = SdNext (fst s)" "SdMax (fst (remove_handle hops i s)) = SdMax (fst s)"
    "SdTtl (fst (remove_handle hops i s)) = SdTtl (fst s)" "RgBooks (snd (remove_handle hops i s)) = RgBooks (snd s)"
proof -
  obtain sd r where s: "s = (sd, r)" by (cases s)
  show ids: "handle_ids (remove_handle hops i s) = filter (\<lambda>j. j \<noteq> i) (handle_ids s)"
    by (auto simp: s remove_handle_def handle_ids_def delete_keys removeAll_filter_not_eq map_of_eq_None_iff filter_id_conv
        split: option.split intro!: filter_cong [OF refl])
  show nx: "SdNext (fst (remove_handle hops i s)) = SdNext (fst s)" "SdMax (fst (remove_handle hops i s)) = SdMax (fst s)"
    "SdTtl (fst (remove_handle hops i s)) = SdTtl (fst s)" "RgBooks (snd (remove_handle hops i s)) = RgBooks (snd s)"
    by (auto simp: s remove_handle_def remove_view_def split: option.split)
  have keys: "view_keys (remove_handle hops i s) = (if i \<in> set (handle_ids s) then remove1 (SearchView i) (view_keys s) else view_keys s)"
  proof (cases "map_of (SdHandles sd) i")
    case None
    then have "i \<notin> fst ` set (SdHandles sd)" by (simp add: map_of_eq_None_iff)
    then show ?thesis by (simp add: s remove_handle_def handle_ids_def view_keys_def None)
  next
    case (Some h)
    then have "i \<in> fst ` set (SdHandles sd)" by (metis domI dom_map_of_conv_image_fst)
    then show ?thesis using Some by (simp add: s remove_handle_def handle_ids_def view_keys_def remove_view_def keys_remove_first)
  qed
  show "handles_ok (remove_handle hops i s)"
    using assms by (auto simp: handles_ok_def ids keys nx)
qed

lemma remove_handles_ok:
  assumes "handles_ok s"
  shows "handles_ok (remove_handles hops is s) \<and> handle_ids (remove_handles hops is s) = filter (\<lambda>j. j \<notin> set is) (handle_ids s) \<and>
    SdNext (fst (remove_handles hops is s)) = SdNext (fst s) \<and> SdMax (fst (remove_handles hops is s)) = SdMax (fst s) \<and>
    RgBooks (snd (remove_handles hops is s)) = RgBooks (snd s)"
  using assms
proof (induction "is" arbitrary: s)
  case (Cons i "is")
  note r = remove_handle_ok [OF Cons.prems, of hops i]
  have "filter (\<lambda>j. j \<notin> set is) (filter (\<lambda>j. j \<noteq> i) (handle_ids s)) = filter (\<lambda>j. j \<notin> set (i # is)) (handle_ids s)"
    by (auto intro!: filter_cong)
  then show ?case using Cons.IH [OF r(1)] r by (simp add: remove_handles_def)
qed (simp add: remove_handles_def)

text \<open>What an eviction leaves.\<close>

lemma filter_notin_length:
  assumes "distinct xs" "distinct ys" "set ys \<subseteq> set xs"
  shows "length (filter (\<lambda>x. x \<notin> set ys) xs) = length xs - length ys"
proof -
  have "length (filter (\<lambda>x. x \<notin> set ys) xs) = card (set xs - set ys)"
    using distinct_card [of "filter (\<lambda>x. x \<notin> set ys) xs"] assms(1) by (simp add: set_diff_eq)
  also have "\<dots> = length xs - length ys" using assms by (simp add: card_Diff_subset distinct_card)
  finally show ?thesis .
qed

lemma evicted_length:
  assumes "handles_ok s" "SdMax (fst s) > 0" "0 \<le> n" "n \<le> 1"
  shows "int (length (filter (\<lambda>j. j \<notin> set (evicted n (fst s))) (handle_ids s))) + n \<le> max (SdMax (fst s)) n"
proof (cases "int (length (SdHandles (fst s))) + n > SdMax (fst s)")
  case False
  then show ?thesis using assms by (simp add: evicted_def Let_def handle_ids_def)
next
  case True
  let ?hs = "SdHandles (fst s)" and ?k = "nat (int (length (SdHandles (fst s))) + n - SdMax (fst s))"
  let ?sorted = "sort_key (\<lambda>(i, h). HLastQuery h) ?hs"
  have ev: "evicted n (fst s) = map fst (take ?k ?sorted)" using True assms(2) by (simp add: evicted_def Let_def)
  have d: "distinct (map fst ?hs)" using assms(1) by (simp add: handles_ok_def handle_ids_def)
  then have "inj_on fst (set ?hs)" "distinct ?hs" by (simp_all add: distinct_map)
  then have "distinct (map fst ?sorted)" by (simp add: distinct_map)
  then have de: "distinct (evicted n (fst s))" by (simp add: ev take_map [symmetric])
  have sub: "set (evicted n (fst s)) \<subseteq> set (handle_ids s)" by (auto simp: ev handle_ids_def dest!: in_set_takeD)
  have "length (evicted n (fst s)) = ?k" using assms True by (simp add: ev)
  then have "length (filter (\<lambda>j. j \<notin> set (evicted n (fst s))) (handle_ids s)) = length ?hs - ?k"
    using filter_notin_length [OF d [folded handle_ids_def] de sub] by (simp add: handle_ids_def)
  then show ?thesis using True assms by simp
qed

text \<open>C29: the search handles stay bounded. Cleaning up or allocating keeps the handles those of the registry's
  search views; with a cap set, at most that many are left after either, and an allocation always gives a new
  handle. Whatever is reclaimed, no book leaves the registry.\<close>

theorem search_handles_bounded:
  assumes "handles_ok s" "allocate_handle hops ops now s = (i, s')"
  shows "handles_ok s' \<and> i \<notin> set (handle_ids s) \<and> i \<in> set (handle_ids s') \<and> set (handle_ids s') \<subseteq> insert i (set (handle_ids s)) \<and>
    (SdMax (fst s) > 0 \<longrightarrow> int (length (handle_ids s')) \<le> SdMax (fst s)) \<and> RgBooks (snd s') = RgBooks (snd s) \<and>
    (let c = cleanup_locked hops now 0 s in
       handles_ok c \<and> set (handle_ids c) \<subseteq> set (handle_ids s) \<and> (SdMax (fst s) > 0 \<longrightarrow> int (length (handle_ids c)) \<le> SdMax (fst s)))"
proof -
  let ?s1 = "remove_handles hops (expired now (fst s)) s"
  note r1 = remove_handles_ok [OF assms(1), of hops "expired now (fst s)"]
  have clean: "handles_ok (cleanup_locked hops now n s) \<and>
      handle_ids (cleanup_locked hops now n s) = filter (\<lambda>j. j \<notin> set (evicted n (fst ?s1))) (handle_ids ?s1) \<and>
      SdNext (fst (cleanup_locked hops now n s)) = SdNext (fst s) \<and> RgBooks (snd (cleanup_locked hops now n s)) = RgBooks (snd s)" for n
    using remove_handles_ok [OF conjunct1 [OF r1], of hops "evicted n (fst ?s1)"] r1
    by (simp add: cleanup_locked_def Let_def)
  have len: "SdMax (fst s) > 0 \<Longrightarrow> int (length (handle_ids (cleanup_locked hops now n s))) + n \<le> max (SdMax (fst s)) n"
    if "0 \<le> n" "n \<le> 1" for n
    using evicted_length [OF conjunct1 [OF r1] _ that] r1 clean [of n] by simp
  have sub: "set (handle_ids (cleanup_locked hops now n s)) \<subseteq> set (handle_ids s)" for n
    using r1 clean [of n] by auto
  obtain sd r where c: "cleanup_locked hops now 1 s = (sd, r)" by (cases "cleanup_locked hops now 1 s")
  have i: "i = SdNext sd" and s': "s' = (sd\<lparr>SdNext := i + 1, SdHandles := AList.update i \<lparr>HQueryText = [], HLastQuery = now\<rparr> (SdHandles sd),
      SdDir := DAdd hops id (dec_int i) (SdDir sd)\<rparr>, add_view (served_ops ops) (SearchView i) (ResultsView (new_results ops)) r)"
    using assms(2) by (auto simp: allocate_handle_def c Let_def)
  have ok: "handles_ok (sd, r)" and nx: "SdNext sd = SdNext (fst s)" and bk: "RgBooks r = RgBooks (snd s)" using clean [of 1] by (simp_all add: c)
  have new: "i \<notin> set (handle_ids s)" using assms(1) i nx by (auto simp: handles_ok_def)
  then have new1: "i \<notin> set (map fst (SdHandles sd))" using sub [of 1] by (auto simp: c handle_ids_def)
  have ids: "handle_ids s' = handle_ids (sd, r) @ [i]" using new1 by (simp add: s' handle_ids_def update_keys)
  have keys: "view_keys s' = view_keys (sd, r) @ [SearchView i]" by (simp add: s' view_keys_def add_view_def)
  have "handles_ok s'" using ok new1 i
    by (auto simp: handles_ok_def ids keys) (auto simp: s' handle_ids_def)
  moreover have "SdMax (fst s) > 0 \<Longrightarrow> int (length (handle_ids s')) \<le> SdMax (fst s)" using len [of 1] by (simp add: ids c)
  moreover have "RgBooks (snd s') = RgBooks (snd s)" by (simp add: s' add_view_def bk)
  moreover have "i \<in> set (handle_ids s')" "set (handle_ids s') \<subseteq> insert i (set (handle_ids s))"
    using sub [of 1] by (auto simp: ids c)
  ultimately show ?thesis using new clean [of 0] len [of 0] sub [of 0] by (simp add: Let_def)
qed

theorem search_handles_bounded_witness:
  "handles_ok (snd (allocate_handle list_dir list_dir 5 (new_search_dir list_dir 0 1, new_registry)))"
  using search_handles_bounded [where hops = list_dir and ops = list_dir and now = 5 and
      s = "(new_search_dir list_dir 0 1, new_registry)" and
      i = "fst (allocate_handle list_dir list_dir 5 (new_search_dir list_dir 0 1, new_registry))" and
      s' = "snd (allocate_handle list_dir list_dir 5 (new_search_dir list_dir 0 1, new_registry))"]
  by (simp add: handles_ok_def handle_ids_def view_keys_def new_search_dir_def new_registry_def)

end
