(* ===== verification/Book_Files.thy ===== *)
theory Book_Files
  imports Book_Fields Layout
begin

text \<open>
  \<^verbatim>\<open>internal/fs/book\<close>: the directory of one book and its files. What the constructors are given is a parameter
  of each operation: \<open>book_of\<close> reads the directory's current snapshot, \<open>edt\<close> is the library's edit, \<open>cont\<close> opens
  the epub, each over an arbitrary state \<open>'w\<close>. No pointer to a snapshot is ever nil once the directory exists, so the
  branches for it are left out.
\<close>

datatype file_error = FileReadOnly | FieldText field_text_error | Underlying err

section \<open>A field's file\<close>

record field_file =
  FfReads :: snapshots
  FfWrites :: write_buffer
  FfTruncated :: "word64 \<rightharpoonup> bool"

definition max_field_file_size :: word64 where "max_field_file_size = 1048576"

definition new_field_file :: field_file where
  "new_field_file = \<lparr>FfReads = Map.empty, FfWrites = new_write_buffer max_field_file_size, FfTruncated = Map.empty\<rparr>"

definition field_content :: "('w \<Rightarrow> string) \<Rightarrow> 'w \<Rightarrow> (err + bytes option) \<times> 'w" where
  "field_content show_field w = (Inr (Some (show_field w @ [nl])), w)"

definition field_length :: "('w \<Rightarrow> string) \<Rightarrow> 'w \<Rightarrow> word64" where
  "field_length show_field w = of_nat (length (show_field w) + 1)"

definition field_open :: "('w \<Rightarrow> string) \<Rightarrow> field_file \<Rightarrow> word64 \<Rightarrow> bool \<Rightarrow> 'w \<Rightarrow> vfile_error option \<times> field_file" where
  "field_open show_field f fid otrunc w = (case snapshot_open (field_content show_field) (FfReads f) fid w of
      ((Some e, reads), _) \<Rightarrow> (Some e, f\<lparr>FfReads := reads\<rparr>)
    | ((None, reads), _) \<Rightarrow> (None, f\<lparr>FfReads := reads, FfTruncated := (FfTruncated f)(fid \<mapsto> otrunc)\<rparr>))"

definition field_read :: "field_file \<Rightarrow> word64 \<Rightarrow> word64 \<Rightarrow> word64 \<Rightarrow> vfile_error + bytes" where
  "field_read f fid offset n = snapshot_read (FfReads f) fid offset n"

text \<open>What a first write builds on: the content the fid opened, unless it was opened to be truncated.\<close>

definition field_seed :: "field_file \<Rightarrow> word64 \<Rightarrow> (unit \<Rightarrow> bytes) option" where
  "field_seed f fid = (if FfTruncated f fid = Some True then None
     else (case snapshot (FfReads f) fid of
         (b, True) \<Rightarrow> Some (\<lambda>_. case b of Some b \<Rightarrow> b | None \<Rightarrow> [])
       | (_, False) \<Rightarrow> None))"

definition field_write :: "field_file \<Rightarrow> word64 \<Rightarrow> word64 \<Rightarrow> bytes \<Rightarrow> (vfile_error + 32 word) \<times> field_file" where
  "field_write f fid offset dat = (case buffer_write (FfWrites f) fid offset dat (field_seed f fid) of
     (r, wb) \<Rightarrow> (r, f\<lparr>FfWrites := wb\<rparr>))"

definition field_close :: "(string \<Rightarrow> 'w \<Rightarrow> (file_error + unit) \<times> 'w) option \<Rightarrow> field_file \<Rightarrow> word64 \<Rightarrow> 'w \<Rightarrow>
    (file_error + unit) \<times> field_file \<times> 'w" where
  "field_close set_field f fid w =
     (let f = f\<lparr>FfTruncated := (FfTruncated f)(fid := None), FfReads := snapshot_close (FfReads f) fid\<rparr> in
      case commit (FfWrites f) fid of
        (None, wb) \<Rightarrow> (Inr (), f\<lparr>FfWrites := wb\<rparr>, w)
      | (Some dat, wb) \<Rightarrow>
          (case set_field of
             None \<Rightarrow> (Inl FileReadOnly, f\<lparr>FfWrites := wb\<rparr>, w)
           | Some st \<Rightarrow> (case st (trim_newlines dat) w of (r, w) \<Rightarrow> (r, f\<lparr>FfWrites := wb\<rparr>, w))))"

section \<open>What the directory gives a field's file\<close>

definition set_field :: "('w \<Rightarrow> book) \<Rightarrow> (int \<Rightarrow> edits \<Rightarrow> 'w \<Rightarrow> (err + book) \<times> 'w) \<Rightarrow> field \<Rightarrow> string \<Rightarrow> 'w \<Rightarrow> (file_error + unit) \<times> 'w" where
  "set_field book_of edt fld s w = (case FEdits fld s of
      Inl e \<Rightarrow> (Inl (FieldText e), w)
    | Inr e \<Rightarrow> (case edt (MID (Meta (book_of w))) e w of
        (Inl er, w) \<Rightarrow> (Inl (Underlying er), w)
      | (Inr _, w) \<Rightarrow> (Inr (), w)))"

section \<open>Cover, epub and package document\<close>

definition content_bytes :: "('w \<Rightarrow> book) \<Rightarrow> (int \<Rightarrow> 'w \<Rightarrow> (err + reader) \<times> 'w) \<Rightarrow> (reader \<Rightarrow> err + bytes) \<Rightarrow> 'w \<Rightarrow> (err + bytes option) \<times> 'w" where
  "content_bytes book_of cont sel w = (case cont (MID (Meta (book_of w))) w of
      (Inl e, w) \<Rightarrow> (Inl e, w)
    | (Inr r, w) \<Rightarrow> ((case sel r of Inl e \<Rightarrow> Inl e | Inr b \<Rightarrow> Inr (Some b)), w))"

record cover_file =
  CfReads :: snapshots
  CfWrites :: write_buffer

definition max_cover_file_size :: word64 where "max_cover_file_size = 33554432"

definition new_cover_file :: cover_file where
  "new_cover_file = \<lparr>CfReads = Map.empty, CfWrites = new_write_buffer max_cover_file_size\<rparr>"

definition cover_open :: "'d env \<Rightarrow> ('w \<Rightarrow> book) \<Rightarrow> (int \<Rightarrow> 'w \<Rightarrow> (err + reader) \<times> 'w) \<Rightarrow> cover_file \<Rightarrow> word64 \<Rightarrow> 'w \<Rightarrow>
    (vfile_error option \<times> cover_file) \<times> 'w" where
  "cover_open env book_of cont f fid w = (case snapshot_open (content_bytes book_of cont (reader_cover env)) (CfReads f) fid w of
      ((e, reads), w) \<Rightarrow> ((e, f\<lparr>CfReads := reads\<rparr>), w))"

definition cover_length :: "book \<Rightarrow> word64" where
  "cover_length b = of_int (CoverSize (Bib b))"

definition cover_write :: "cover_file \<Rightarrow> word64 \<Rightarrow> word64 \<Rightarrow> bytes \<Rightarrow> (vfile_error + 32 word) \<times> cover_file" where
  "cover_write f fid offset dat = (case buffer_write (CfWrites f) fid offset dat None of (r, wb) \<Rightarrow> (r, f\<lparr>CfWrites := wb\<rparr>))"

definition cover_close :: "('w \<Rightarrow> book) \<Rightarrow> (int \<Rightarrow> edits \<Rightarrow> 'w \<Rightarrow> (err + book) \<times> 'w) \<Rightarrow> cover_file \<Rightarrow> word64 \<Rightarrow> 'w \<Rightarrow>
    (err + unit) \<times> cover_file \<times> 'w" where
  "cover_close book_of edt f fid w =
     (let f = f\<lparr>CfReads := snapshot_close (CfReads f) fid\<rparr> in
      case commit (CfWrites f) fid of
        (None, wb) \<Rightarrow> (Inr (), f\<lparr>CfWrites := wb\<rparr>, w)
      | (Some dat, wb) \<Rightarrow> (case edt (MID (Meta (book_of w))) (no_edits\<lparr>EdCover := Some dat\<rparr>) w of
            (Inl e, w) \<Rightarrow> (Inl e, f\<lparr>CfWrites := wb\<rparr>, w)
          | (Inr _, w) \<Rightarrow> (Inr (), f\<lparr>CfWrites := wb\<rparr>, w)))"

definition opf_open :: "'d env \<Rightarrow> ('w \<Rightarrow> book) \<Rightarrow> (int \<Rightarrow> 'w \<Rightarrow> (err + reader) \<times> 'w) \<Rightarrow> snapshots \<Rightarrow> word64 \<Rightarrow> 'w \<Rightarrow>
    (vfile_error option \<times> snapshots) \<times> 'w" where
  "opf_open env book_of cont reads fid w = snapshot_open (content_bytes book_of cont (reader_opf env)) reads fid w"

definition opf_length :: "book \<Rightarrow> word64" where
  "opf_length b = of_int (OpfSize (Bib b))"

definition epub_open :: "('w \<Rightarrow> book) \<Rightarrow> (int \<Rightarrow> 'w \<Rightarrow> (err + reader) \<times> 'w) \<Rightarrow> readers \<Rightarrow> word64 \<Rightarrow> 'w \<Rightarrow>
    (vfile_error option \<times> readers) \<times> 'w" where
  "epub_open book_of cont fids fid w = readat_open (\<lambda>w. cont (MID (Meta (book_of w))) w) fids fid w"

text \<open>The name and the length the epub's entry has at the moment.\<close>

definition epub_stat :: "book \<Rightarrow> string \<times> word64" where
  "epub_stat b = (loc_filename (Loc b), of_int (EpubSize b))"

section \<open>The directory\<close>

datatype child = IdFile bytes | EpubNode | OpfNode | EditableField field | ReadOnlyField "book \<Rightarrow> string" | CoverNode

definition new_book_dir :: "(string \<Rightarrow> float64 option) \<Rightarrow> (float64 \<Rightarrow> string) \<Rightarrow> book \<Rightarrow> (string \<times> child) list" where
  "new_book_dir pf ff b =
     [(''id'', IdFile (dec_int (MID (Meta b)) @ [nl])), (loc_filename (Loc b), EpubNode), (''opf'', OpfNode)] @
     map (\<lambda>(n, f). (n, EditableField f)) (field_table pf ff) @
     [(''pubdate'', ReadOnlyField (\<lambda>b. Pubdate (Bib b))), (''identifiers'', ReadOnlyField (\<lambda>b. format_identifiers (Identifiers (Bib b))))] @
     (if CoverPath (Bib b) \<noteq> [] then [(''cover'' @ ext_path (CoverPath (Bib b)), CoverNode)] else [])"

section \<open>A client replacing a field\<close>

fun field_write_chunks :: "field_file \<Rightarrow> word64 \<Rightarrow> nat \<Rightarrow> bytes list \<Rightarrow> vfile_error option \<times> field_file" where
  "field_write_chunks f fid pos [] = (None, f)"
| "field_write_chunks f fid pos (c # cs) = (case field_write f fid (of_nat pos) c of
      (Inl e, f) \<Rightarrow> (Some e, f)
    | (Inr _, f) \<Rightarrow> field_write_chunks f fid (pos + length c) cs)"

lemma field_write_chunks_buffer:
  "field_write_chunks f fid pos cs = (case write_chunks (FfWrites f) fid pos cs (field_seed f fid) of
     (e, wb) \<Rightarrow> (e, f\<lparr>FfWrites := wb\<rparr>))"
proof (induction cs arbitrary: f pos)
  case (Cons c cs)
  have "field_seed (f\<lparr>FfWrites := wb\<rparr>) fid = field_seed f fid" for wb by (simp add: field_seed_def)
  then show ?case using Cons by (auto simp: field_write_def split: prod.split sum.split)
qed simp

text \<open>Reading an open field file from the start gives the field's value and a newline, as many bytes as its
  length says, whatever happens to the book after the open.\<close>

theorem field_reads_value:
  assumes "length (show_field w) + 1 < 2 ^ 31"
  shows "\<exists>f'. field_open show_field f fid otrunc w = (None, f') \<and>
    field_read f' fid 0 (field_length show_field w) = Inr (show_field w @ [nl])"
proof -
  have l: "unat (field_length show_field w) = length (show_field w) + 1"
    using assms by (simp add: field_length_def unat_of_nat take_bit_nat_eq_self del: of_nat_add of_nat_Suc)
  then have "clamp_read (show_field w @ [nl]) 0 (field_length show_field w) = Inr (show_field w @ [nl])"
    using assms clamp_read_slices [of "show_field w @ [nl]" "field_length show_field w" 0] by simp
  then show ?thesis by (simp add: field_open_def field_content_def snapshot_open_def field_read_def snapshot_read_def)
qed

theorem field_reads_value_witness:
  "\<exists>f'. field_open (\<lambda>w. w) new_field_file 1 False ''Dune'' = (None, f') \<and>
    field_read f' 1 0 (field_length (\<lambda>w. w) ''Dune'') = Inr (''Dune'' @ [nl])"
  using field_reads_value [of "\<lambda>w. w" "''Dune''" new_field_file 1 False] by simp



section \<open>Names in the directory\<close>

lemma after_last_dot: "CHR ''.'' \<notin> set x \<Longrightarrow> takeWhile (\<lambda>c. c \<noteq> CHR ''.'') (rev (u @ CHR ''.'' # x)) = rev x"
  by (auto simp: takeWhile_append2 takeWhile_tail)

lemma last_dot_unique:
  assumes "CHR ''.'' \<notin> set x" "u @ CHR ''.'' # x = v @ CHR ''.'' # y" "CHR ''.'' \<notin> set y"
  shows "x = y"
  using after_last_dot [OF assms(1), of u] after_last_dot [OF assms(3), of v] assms(2) by (metis rev_is_rev_conv)

lemma ext_path_shape: "ext_path s = [] \<or> (\<exists>x. ext_path s = CHR ''.'' # x \<and> CHR ''.'' \<notin> set x)"
  by (auto simp: ext_path_def Let_def dest: set_takeWhileD)

lemma cover_not_epub:
  assumes "suffix ''.epub'' f" "ext_path c \<noteq> ''.epub''"
  shows "''cover'' @ ext_path c \<noteq> f"
proof
  assume f: "''cover'' @ ext_path c = f"
  obtain u where u: "f = u @ CHR ''.'' # ''epub''" using assms(1) by (auto simp: suffix_def)
  from ext_path_shape [of c] show False
  proof
    assume "ext_path c = []"
    with f u have "CHR ''.'' \<in> set ''cover''" by (metis append_Nil2 in_set_conv_decomp)
    then show False by simp
  next
    assume "\<exists>x. ext_path c = CHR ''.'' # x \<and> CHR ''.'' \<notin> set x"
    then obtain x where x: "ext_path c = CHR ''.'' # x" "CHR ''.'' \<notin> set x" by blast
    have "''cover'' @ CHR ''.'' # x = u @ CHR ''.'' # ''epub''" using f u x(1) by simp
    then have "x = ''epub''" by (rule last_dot_unique [OF x(2)]) simp
    with x(1) assms(2) show False by simp
  qed
qed

text \<open>The entries of a book's directory have different names, so each file is reached by its own; only a cover whose
  extension is \<^verbatim>\<open>.epub\<close> could take the place of the epub.\<close>

theorem book_dir_names_distinct:
  assumes "Loc b = layout (Authors (Bib b)) (Title (Bib b)) (MID (Meta b))" "ext_path (CoverPath (Bib b)) \<noteq> ''.epub''"
  shows "distinct (map fst (new_book_dir pf ff b))"
proof -
  let ?f = "loc_filename (Loc b)"
  have suf: "suffix ''.epub'' ?f" by (auto simp: assms(1) layout_filename epub_filename_def Let_def suffix_def)
  have nf: "?f \<noteq> x" if "\<not> suffix ''.epub'' x" for x using suf that by blast
  have fixed: "x \<notin> set (map fst (field_table pf ff))" if "take 5 x = ''cover'' \<or> x \<in> {''id'', ''opf'', ''pubdate'', ''identifiers''}" for x
    using that by (auto simp: field_table_def)
  have ff: "?f \<notin> set (map fst (field_table pf ff))" "distinct (map fst (field_table pf ff))"
    using nf by (auto simp: field_table_def suffix_def)
  have cover: "''cover'' @ ext_path (CoverPath (Bib b)) \<noteq> ?f"
    using cover_not_epub [OF suf] assms(2) by simp
  have m: "map (fst \<circ> (\<lambda>(n, f). (n, EditableField f))) (field_table pf ff) = map fst (field_table pf ff)" by auto
  have sx: "\<not> suffix ''.epub'' ''id''" "\<not> suffix ''.epub'' ''opf''" "\<not> suffix ''.epub'' ''pubdate''" "\<not> suffix ''.epub'' ''identifiers''"
    by (simp_all add: suffix_def)
  show ?thesis
    using nf [OF sx(1)] nf [OF sx(2)] nf [OF sx(3)] nf [OF sx(4)] ff cover
      fixed [of "''id''"] fixed [of "''opf''"] fixed [of "''pubdate''"] fixed [of "''identifiers''"]
      fixed [of "''cover'' @ ext_path (CoverPath (Bib b))"]
    by (auto simp: new_book_dir_def m simp del: set_map)
qed

theorem book_dir_names_distinct_witness:
  "distinct (map fst (new_book_dir (\<lambda>_. None) (\<lambda>_. ''0'') (shown_book\<lparr>Loc := layout (Authors (Bib shown_book)) ''T'' 1\<rparr>)))"
proof -
  have e: "ext_path ''c.png'' \<noteq> ''.epub''" by code_simp
  show ?thesis by (rule book_dir_names_distinct) (simp_all add: e, simp_all add: shown_book_def e)
qed

end
