(* ===== verification/Inbox.thy ===== *)
theory Inbox
  imports Book_Files Library_Safe Views
begin

text \<open>
  \<^verbatim>\<open>internal/fs/inbox\<close>: the write-only directory whose files are uploads. A file created in it is opened once, takes
  writes from the fid that opened it and files a book when it closes. The directory of the 9P library is the
  parameter \<open>iops\<close> with the files' numbers as nodes; taking a node out of it clears the node's parent. The mutex of a
  file makes each operation atomic.
\<close>

text \<open>\<^verbatim>\<open>os.File.WriteAt\<close>: the bytes land at the offset, over a hole of zeros if the file is shorter.\<close>

definition write_over :: "bytes \<Rightarrow> nat \<Rightarrow> bytes \<Rightarrow> bytes" where
  "write_over old off dat = (if dat = [] then old
     else take off (old @ replicate (off - length old) (CHR 0x00)) @ dat @ drop (off + length dat) old)"

definition os_write_at :: "string \<Rightarrow> bytes \<Rightarrow> int \<Rightarrow> (int, 'z) io" where
  "os_write_at s b off = (if off < 0 then fail_io Einval else syscall (\<lambda>w. case node_at (comps s) (FS w) of
      Some (File old _) \<Rightarrow> (Inr (int (length b)),
        w\<lparr>FS := put_node (comps s) (File (write_over old (nat off) b) (Clock w)) (FS w), Clock := Clock w + 1\<rparr>)
    | _ \<Rightarrow> (Inl Enoent, w)))"

datatype inbox_error = AlreadyOpen | NotOpenedHere | IngestError err

record inbox_file =
  IName :: string
  IFid :: word64
  IHandle :: "string option"
  IParent :: bool

record 'e inbox =
  InDir :: 'e
  InFiles :: "(nat \<times> inbox_file) list"

definition inbox_name :: "'e inbox \<Rightarrow> nat \<Rightarrow> string" where
  "inbox_name b n = (case map_of (InFiles b) n of Some f \<Rightarrow> IName f | None \<Rightarrow> [])"

definition new_inbox :: "(nat, 'e) dir_ops \<Rightarrow> 'e inbox" where
  "new_inbox iops = \<lparr>InDir = DNew iops, InFiles = []\<rparr>"

definition delete_child :: "(nat, 'e) dir_ops \<Rightarrow> string \<Rightarrow> 'e inbox \<Rightarrow> 'e inbox" where
  "delete_child iops name b =
     (let nm = inbox_name b in
      b\<lparr>InFiles := (case map_of (DChildren iops nm (InDir b)) name of
            Some m \<Rightarrow> AList.map_entry m (\<lambda>f. f\<lparr>IParent := False\<rparr>) (InFiles b) | None \<Rightarrow> InFiles b),
        InDir := DDel iops nm name (InDir b)\<rparr>)"

definition inbox_create :: "(nat, 'e) dir_ops \<Rightarrow> string \<Rightarrow> 'e inbox \<Rightarrow> nat \<times> 'e inbox" where
  "inbox_create iops name b =
     (let n = length (InFiles b); b = delete_child iops name b;
          b = b\<lparr>InFiles := InFiles b @ [(n, \<lparr>IName = name, IFid = 0, IHandle = None, IParent = True\<rparr>)]\<rparr>
      in (n, b\<lparr>InDir := DAdd iops (inbox_name b) n (InDir b)\<rparr>))"

definition inbox_open :: "library \<Rightarrow> inbox_file \<Rightarrow> word64 \<Rightarrow> world \<Rightarrow> (inbox_error option \<times> inbox_file) \<times> world" where
  "inbox_open l f fid w =
     (if IHandle f \<noteq> None then ((Some AlreadyOpen, f), w)
      else (case create_ingest l w of
          (Inl e, w) \<Rightarrow> ((Some (IngestError e), f), w)
        | (Inr p, w) \<Rightarrow> ((None, f\<lparr>IHandle := Some p, IFid := fid\<rparr>), w)))"

definition inbox_write :: "inbox_file \<Rightarrow> word64 \<Rightarrow> word64 \<Rightarrow> bytes \<Rightarrow> world \<Rightarrow> (inbox_error + 32 word) \<times> world" where
  "inbox_write f fid offset dat w = (case IHandle f of
      None \<Rightarrow> (Inl NotOpenedHere, w)
    | Some p \<Rightarrow> if IFid f \<noteq> fid then (Inl NotOpenedHere, w)
        else (case os_write_at p dat (sint offset) w of
            (Inl e, w) \<Rightarrow> (Inl (IngestError e), w)
          | (Inr n, w) \<Rightarrow> (Inr (of_int n), w)))"

definition teardown :: "inbox_file \<Rightarrow> string option \<times> inbox_file" where
  "teardown f = (IHandle f, f\<lparr>IHandle := None, IFid := 0\<rparr>)"

definition inbox_close :: "'d env \<Rightarrow> library \<Rightarrow> string \<Rightarrow> (nat, 'e) dir_ops \<Rightarrow> nat \<Rightarrow> 'e inbox \<Rightarrow> world \<Rightarrow>
    (inbox_error option \<times> 'e inbox) \<times> world" where
  "inbox_close env l k iops n b w = (case map_of (InFiles b) n of
      None \<Rightarrow> ((None, b), w)
    | Some f \<Rightarrow> (case teardown f of (h, f') \<Rightarrow>
        (let b = b\<lparr>InFiles := AList.update n f' (InFiles b)\<rparr> in
         case h of
           None \<Rightarrow> ((None, b), w)
         | Some p \<Rightarrow>
             (let b = (if IParent f' then delete_child iops (IName f') b else b) in
              case ingest env l k p w of
                (Inl e, w) \<Rightarrow> ((Some (IngestError e), b), w)
              | (Inr _, w) \<Rightarrow> ((None, b), w)))))"

section \<open>An upload in chunks\<close>

fun upload :: "inbox_file \<Rightarrow> word64 \<Rightarrow> nat \<Rightarrow> bytes list \<Rightarrow> world \<Rightarrow> inbox_error option \<times> world" where
  "upload f fid pos [] w = (None, w)"
| "upload f fid pos (c # cs) w = (case inbox_write f fid (of_nat pos) c w of
      (Inl e, w) \<Rightarrow> (Some e, w)
    | (Inr _, w) \<Rightarrow> upload f fid (pos + length c) cs w)"

lemma write_over_append: "write_over old (length old) dat = old @ dat"
  by (simp add: write_over_def)

lemma sint_of_small: "n < 2 ^ 63 \<Longrightarrow> sint (of_nat n :: word64) = int n"
  by (simp add: sint_uint uint_nat unat_of_nat take_bit_nat_eq_self signed_take_bit_int_eq_self)

lemma upload_content:
  assumes "IHandle f = Some p" "IFid f = fid" "upload f fid (length old) cs w = (None, w')"
    "node_at (comps p) (FS w) = Some (File old t)" "comps p \<noteq> []" "length old + length (concat cs) < 2 ^ 63"
  shows "\<exists>t'. node_at (comps p) (FS w') = Some (File (old @ concat cs) t')"
  using assms(3-6)
proof (induction cs arbitrary: old w t)
  case (Cons c cs)
  have off: "sint (of_nat (length old) :: word64) = int (length old)" using Cons.prems(4) by (simp add: sint_of_small)
  obtain r w1 where w1: "os_write_at p c (int (length old)) w = (r, w1)" by (cases "os_write_at p c (int (length old)) w")
  have n1: "\<exists>t'. node_at (comps p) (FS w1) = Some (File (old @ c) t')" if "r = Inr n" for n
    using w1 that Cons.prems(2) assms(5)
    by (auto simp: os_write_at_def syscall_def node_at_put write_over_append split: if_splits list.splits fate.splits option.splits node.splits)
  show ?case
  proof (cases r)
    case (Inl e)
    then show ?thesis using Cons.prems(1) w1 assms(1,2) by (simp add: inbox_write_def off)
  next
    case (Inr n)
    then have "upload f fid (length (old @ c)) cs w1 = (None, w')"
      using Cons.prems(1) w1 assms(1,2) by (simp add: inbox_write_def off)
    moreover obtain t' where "node_at (comps p) (FS w1) = Some (File (old @ c) t')" using n1 [OF Inr] by blast
    ultimately show ?thesis using Cons.IH [of "old @ c" w1 t'] Cons.prems(3,4) by simp
  qed
qed auto

lemma upload_name_plain:
  assumes "is_temp [] ''.epub'' n"
  shows "plain n"
proof -
  obtain k where n: "n = dec_nat k @ ''.epub''" using assms by (auto simp: is_temp_def)
  have "slash \<notin> set (dec_nat k)" using dec_nat_digits [of slash k] by (auto simp: is_digit_def byte_def)
  moreover have "length n > 5" using dec_nat_ne [of k] by (simp add: n del: dec_nat_ne)
  ultimately show ?thesis by (auto simp: plain_def n)
qed

text \<open>C23: the bytes of an upload reach the library whole. After a client opened an inbox file and wrote an epub to it in
  any chunks from front to back, the file the library ingests at the close holds exactly those bytes, and
  the result of the close is the ingest's. Until then nobody else gets at the upload: a second open and a write
  from another fid are refused and change nothing.\<close>

theorem upload_ingested_whole:
  assumes "IHandle f = None" "inbox_open l f fid w = ((None, f1), w1)" "upload f1 fid 0 cs w1 = (None, w2)"
    "length (concat cs) < 2 ^ 63" "map_of (InFiles b) n = Some f1"
  shows "\<exists>p t b'. IHandle f1 = Some p \<and> node_at (comps p) (FS w2) = Some (File (concat cs) t) \<and>
    inbox_close env l k iops n b w2 =
      (case ingest env l k p w2 of (Inl e, w) \<Rightarrow> ((Some (IngestError e), b'), w) | (Inr _, w) \<Rightarrow> ((None, b'), w)) \<and>
    (\<forall>fid' w. inbox_open l f1 fid' w = ((Some AlreadyOpen, f1), w)) \<and>
    (\<forall>fid' off dat w. fid' \<noteq> fid \<longrightarrow> inbox_write f1 fid' off dat w = (Inl NotOpenedHere, w))"
proof -
  obtain p where p: "create_ingest l w = (Inr p, w1)" "f1 = f\<lparr>IHandle := Some p, IFid := fid\<rparr>"
    using assms(1,2) by (auto simp: inbox_open_def split: prod.splits sum.splits)
  from create_temp_Inr [OF p(1) [unfolded create_ingest_def]] obtain m where
    m: "is_temp [] ''.epub'' m" "p = join_path [InboxTemp l, m]" "FS w1 = put_node (comps (InboxTemp l) @ [m]) (File [] (Clock w)) (FS w)"
    by blast
  have cp: "comps p = comps (InboxTemp l) @ [m]"
    unfolding m(2) comps_def by (rule comps_join_one [OF upload_name_plain [OF m(1)]])
  have "node_at (comps p) (FS w1) = Some (File [] (Clock w))" by (simp add: m(3) cp node_at_put)
  from upload_content [of f1 p fid "[]" cs w1 w2, OF _ _ _ this] assms(3,4) obtain t
    where t: "node_at (comps p) (FS w2) = Some (File (concat cs) t)" by (auto simp: p(2) cp)
  have "\<exists>b'. inbox_close env l k iops n b w2 =
      (case ingest env l k p w2 of (Inl e, w) \<Rightarrow> ((Some (IngestError e), b'), w) | (Inr _, w) \<Rightarrow> ((None, b'), w))"
    using assms(5) by (auto simp: inbox_close_def teardown_def p(2) Let_def)
  with t show ?thesis by (auto simp: p(2) inbox_open_def inbox_write_def)
qed

definition sample_file :: inbox_file where
  "sample_file = \<lparr>IName = ''dune.epub'', IFid = 0, IHandle = None, IParent = True\<rparr>"

theorem upload_ingested_whole_witness:
  "\<exists>f1 w1 w2. inbox_open sample_library sample_file 7 (sample_world [] sample_db) = ((None, f1), w1) \<and>
     upload f1 7 0 [''PK'', ''!''] w1 = (None, w2) \<and> (\<exists>p t. IHandle f1 = Some p \<and> node_at (comps p) (FS w2) = Some (File ''PK!'' t))"
proof -
  let ?f1 = "sample_file\<lparr>IHandle := Some ''/i/0.epub'', IFid := 7\<rparr>"
  have c: "comps ''/i'' = [''i'']" "comps ''/i/0.epub'' = [''i'', ''0.epub'']" "join_path [''/i'', ''0.epub''] = ''/i/0.epub''"
    unfolding comps_def by code_simp+
  have z: "dec_nat 0 = ''0''" by code_simp
  have t: "temp_name [] ''.epub'' [''i''] (FS (sample_world [] sample_db)) = Some ''0.epub''"
    unfolding temp_name_def
    by (subst temp_from.simps) (simp add: sample_world_def node_at_def z Let_def)
  obtain w1 where o: "inbox_open sample_library sample_file 7 (sample_world [] sample_db) = ((None, ?f1), w1)"
    and n1: "node_at [''i'', ''0.epub''] (FS w1) = Some (File [] 7)" and a1: "Alive w1" "Fates w1 = []"
    using t by (simp add: inbox_open_def create_ingest_def os_create_temp_def syscall_def sample_library_def sample_file_def c Let_def)
      (simp add: sample_world_def node_at_def put_node_def c)
  have s: "sint (2 :: word64) = 2" "sint (0 :: word64) = 0" by simp_all
  obtain w2 where u: "upload ?f1 7 0 [''PK'', ''!''] w1 = (None, w2)"
    using n1 a1 by (simp add: inbox_write_def os_write_at_def syscall_def c node_at_put s)
  from upload_ingested_whole [OF _ o u, of "\<lparr>InDir = (), InFiles = [(0, ?f1)]\<rparr>" 0] o u show ?thesis
    by (auto simp: sample_file_def)
qed

end
