(* ===== verification/Urls.thy ===== *)
theory Urls
  imports Prelude
begin

text \<open>
  What the catalog uses of \<^verbatim>\<open>net/url\<close>: escaping a string for a query or a path segment, reading a query, and that
  the one undoes the other. Everything works on bytes.
\<close>

section \<open>Escaping\<close>

definition hex_char :: "nat \<Rightarrow> char" where
  "hex_char n = char_of (if n < 10 then 48 + n else 55 + n)"

definition unhex :: "char \<Rightarrow> nat option" where
  "unhex c = (if 48 \<le> byte c \<and> byte c \<le> 57 then Some (byte c - 48)
     else if 97 \<le> byte c \<and> byte c \<le> 102 then Some (byte c - 87)
     else if 65 \<le> byte c \<and> byte c \<le> 70 then Some (byte c - 55) else None)"

definition percent :: char where "percent = CHR 0x25"
definition plus :: char where "plus = CHR 0x2B"
definition space :: char where "space = CHR 0x20"

text \<open>Letters, digits and four marks stand for themselves everywhere.\<close>

definition unreserved :: "char \<Rightarrow> bool" where
  "unreserved c \<longleftrightarrow> 48 \<le> byte c \<and> byte c \<le> 57 \<or> 65 \<le> byte c \<and> byte c \<le> 90 \<or> 97 \<le> byte c \<and> byte c \<le> 122 \<or>
     c \<in> set ''-_.~''"

definition escaped_byte :: "char \<Rightarrow> string" where
  "escaped_byte c = [percent, hex_char (byte c div 16), hex_char (byte c mod 16)]"

definition query_escape_char :: "char \<Rightarrow> string" where
  "query_escape_char c = (if unreserved c then [c] else if c = space then [plus] else escaped_byte c)"

definition query_escape :: "string \<Rightarrow> string" where
  "query_escape s = concat (map query_escape_char s)"

definition path_escape :: "string \<Rightarrow> string" where
  "path_escape s = concat (map (\<lambda>c. if unreserved c \<or> c \<in> set ''$&+=:@'' then [c] else escaped_byte c) s)"

fun query_unescape :: "string \<Rightarrow> string option" where
  "query_unescape [] = Some []"
| "query_unescape (c # cs) =
     (if c = percent then
        (case cs of
           a # b # ds \<Rightarrow> (case (unhex a, unhex b) of
               (Some x, Some y) \<Rightarrow> map_option ((#) (char_of (16 * x + y))) (query_unescape ds)
             | _ \<Rightarrow> None)
         | _ \<Rightarrow> None)
      else map_option ((#) (if c = plus then space else c)) (query_unescape cs))"

text \<open>\<^verbatim>\<open>url.ParseQuery\<close>, dropping what does not parse, and the first value of a key.\<close>

definition query_pair :: "string \<Rightarrow> (string \<times> string) option" where
  "query_pair s = (if CHR '';'' \<in> set s \<or> s = [] then None
     else (case cut (CHR ''='') s of (k, v, _) \<Rightarrow>
       (case (query_unescape k, query_unescape v) of (Some k, Some v) \<Rightarrow> Some (k, v) | _ \<Rightarrow> None)))"

definition parse_query_string :: "string \<Rightarrow> (string \<times> string) list" where
  "parse_query_string s = pick query_pair (split_on (CHR ''&'') s)"

definition query_value :: "string \<Rightarrow> string \<Rightarrow> string" where
  "query_value k s = (case map_of (parse_query_string s) k of Some v \<Rightarrow> v | None \<Rightarrow> [])"

text \<open>\<^verbatim>\<open>url.Values.Encode\<close> of one key with one value.\<close>

definition encode_value :: "string \<Rightarrow> string \<Rightarrow> string" where
  "encode_value k v = query_escape k @ ''='' @ query_escape v"

section \<open>Reading back\<close>

lemma byte_bound: "byte c < 256"
  by (simp add: byte_def)

lemma byte_char_of: "n < 256 \<Longrightarrow> byte (char_of n) = n"
  by (simp add: byte_def)

lemma char_of_byte [simp]: "char_of (byte c) = c"
  by (simp add: byte_def)

lemma unhex_hex: "n < 16 \<Longrightarrow> unhex (hex_char n) = Some n"
  by (auto simp: unhex_def hex_char_def byte_char_of)

lemma hex_unreserved: "n < 16 \<Longrightarrow> unreserved (hex_char n)"
  by (auto simp: unreserved_def hex_char_def byte_char_of)

lemma marks_reserved: "\<not> unreserved percent" "\<not> unreserved plus" "\<not> unreserved space" "\<not> unreserved (CHR ''&'')"
  "\<not> unreserved (CHR ''='')" "\<not> unreserved (CHR '';'')" "\<not> unreserved (CHR ''?'')"
  by (simp_all add: unreserved_def byte_def percent_def plus_def space_def)

lemma unescape_escaped_byte: "query_unescape (escaped_byte c @ s) = map_option ((#) c) (query_unescape s)"
proof -
  have "byte c div 16 < 16" "byte c mod 16 < 16" using byte_bound [of c] by simp_all
  then have "unhex (hex_char (byte c div 16)) = Some (byte c div 16)" "unhex (hex_char (byte c mod 16)) = Some (byte c mod 16)"
    by (simp_all add: unhex_hex)
  then show ?thesis by (simp add: escaped_byte_def)
qed

lemma query_unescape_escape_append: "query_unescape (query_escape v @ s) = map_option ((@) v) (query_unescape s)"
proof (induction v)
  case (Cons c v)
  have "query_unescape (query_escape_char c @ r) = map_option ((#) c) (query_unescape r)" for r
    using marks_reserved by (auto simp: query_escape_char_def unescape_escaped_byte plus_def percent_def space_def)
  then show ?case using Cons by (simp add: query_escape_def option.map_comp o_def)
qed (simp add: query_escape_def option.map_ident)

lemma query_unescape_escape: "query_unescape (query_escape v) = Some v"
  using query_unescape_escape_append [of v "[]"] by simp

lemma query_escape_chars: "c \<in> set (query_escape v) \<Longrightarrow> unreserved c \<or> c = plus \<or> c = percent"
  using byte_bound
  by (fastforce simp: query_escape_def query_escape_char_def escaped_byte_def less_mult_imp_div_less intro: hex_unreserved split: if_splits)

lemma query_escape_no_mark: "c \<in> set ''&=;?'' \<Longrightarrow> c \<notin> set (query_escape v)"
  using query_escape_chars [of c v] marks_reserved by (auto simp: plus_def percent_def)

lemma query_escape_plain: "list_all unreserved k \<Longrightarrow> query_escape k = k"
  by (induction k) (simp_all add: query_escape_def query_escape_char_def)

text \<open>A value put into a query is read back, whatever bytes it holds.\<close>

lemma query_value_encode: "query_value k (encode_value k v) = v"
proof -
  have "CHR ''&'' \<notin> set (encode_value k v)"
    using query_escape_no_mark [of "CHR ''&''" k] query_escape_no_mark [of "CHR ''&''" v] by (simp add: encode_value_def)
  then have "split_on (CHR ''&'') (encode_value k v) = [encode_value k v]" by (rule split_on_no_sep)
  moreover have "query_pair (encode_value k v) = Some (k, v)"
    using query_escape_no_mark [of "CHR '';''" k] query_escape_no_mark [of "CHR '';''" v] query_escape_no_mark [of "CHR ''=''" k]
      cut_sep [of "CHR ''=''" "query_escape k" "query_escape v"]
    by (simp add: query_pair_def encode_value_def query_unescape_escape)
  ultimately show ?thesis by (simp add: query_value_def parse_query_string_def)
qed

end
