(* ===== verification/Opds.thy ===== *)
theory Opds
  imports Urls Library Query
begin

text \<open>
  \<^verbatim>\<open>internal/opds\<close>: the read-only catalog over HTTP. The feed library (\<^verbatim>\<open>ophymx/opds\<close>) is not part of the
  repository: a feed and a publication are here the arguments the code hands to it, and the paths its router serves
  are the parameters of \<open>http_paths\<close>. \<^verbatim>\<open>net/http\<close>'s file serving is the constructor \<open>ServeContent\<close> of a
  response; lower case, the dates of \<^verbatim>\<open>time.Parse\<close>, \<^verbatim>\<open>strconv.ParseFloat\<close> and content types are parameters of \<open>site\<close>.
\<close>

section \<open>Addresses\<close>

definition opds_prefix :: string where "opds_prefix = ''/opds''"

definition content_base :: string where "content_base = opds_prefix @ ''/content/''"

definition cover_base :: string where "cover_base = opds_prefix @ ''/cover/''"

definition media_type_epub :: string where "media_type_epub = ''application/epub+zip''"

definition value_param :: string where "value_param = ''value''"

definition urn :: "string \<Rightarrow> string" where
  "urn s = ''urn:ebookfs:'' @ s"

definition feed_urn :: "string \<Rightarrow> string \<Rightarrow> string" where
  "feed_urn kind_id value = (if value = [] then urn (''feed:'' @ kind_id) else urn (''feed:'' @ kind_id @ '':'' @ value))"

record http_paths =
  FeedPath :: "string \<Rightarrow> string \<Rightarrow> string"
  PublicationPath :: "string \<Rightarrow> string \<Rightarrow> string"
  SearchPath :: "string \<Rightarrow> string"

definition feed_path :: "http_paths \<Rightarrow> string \<Rightarrow> string \<Rightarrow> string" where
  "feed_path h kind_id value = (let p = FeedPath h opds_prefix kind_id in
     if value = [] then p else p @ ''?'' @ encode_value value_param value)"

definition publication_path :: "http_paths \<Rightarrow> string \<Rightarrow> string" where
  "publication_path h i = PublicationPath h opds_prefix i"

definition content_path :: "string \<Rightarrow> string \<Rightarrow> string" where
  "content_path i filename = content_base @ i @ ''/'' @ path_escape filename"

definition cover_path :: "string \<Rightarrow> string" where
  "cover_path i = cover_base @ i"

section \<open>Kinds\<close>

definition page_size :: int where "page_size = 50"

definition recent_feed_limit :: int where "recent_feed_limit = page_size"

definition kind_author :: string where "kind_author = ''author''"

datatype rel = RelSubsection | RelSortNew | RelSelf | AcquireOpenAccess

datatype media = MediaTypeAcquisition | MediaTypeNavigation | MediaTypeEntry

record kind =
  KId :: string
  KTitle :: string
  KRel :: rel
  KList :: "facet list wio option"
  KQuery :: "string \<Rightarrow> query"

definition status_facets :: "facet list wio" where
  "status_facets = return_io (map (\<lambda>s. \<lparr>FName = s, FCount = 0\<rparr>) statuses)"

definition kinds :: "kind list" where
  "kinds =
    [\<lparr>KId = ''all'', KTitle = ''All Books'', KRel = RelSubsection, KList = None, KQuery = \<lambda>_. empty_query\<rparr>,
     \<lparr>KId = ''recent'', KTitle = ''Recently Added'', KRel = RelSortNew, KList = None,
       KQuery = \<lambda>_. empty_query\<lparr>QOrder := OrderDateAdded, QLimit := recent_feed_limit\<rparr>\<rparr>,
     \<lparr>KId = kind_author, KTitle = ''Authors'', KRel = RelSubsection, KList = Some lib_authors, KQuery = \<lambda>v. empty_query\<lparr>QAuthors := [v]\<rparr>\<rparr>,
     \<lparr>KId = ''series'', KTitle = ''Series'', KRel = RelSubsection, KList = Some lib_series, KQuery = \<lambda>v. empty_query\<lparr>QSeries := [v]\<rparr>\<rparr>,
     \<lparr>KId = ''tag'', KTitle = ''Tags'', KRel = RelSubsection, KList = Some lib_tags, KQuery = \<lambda>v. empty_query\<lparr>QTags := [v]\<rparr>\<rparr>,
     \<lparr>KId = ''status'', KTitle = ''Reading Status'', KRel = RelSubsection, KList = Some status_facets, KQuery = \<lambda>v. empty_query\<lparr>QStatus := [v]\<rparr>\<rparr>]"

definition lookup_kind :: "string \<Rightarrow> kind option" where
  "lookup_kind i = find (\<lambda>k. KId k = i) kinds"

definition kind_media_type :: "kind \<Rightarrow> media" where
  "kind_media_type k = (if KList k = None then MediaTypeAcquisition else MediaTypeNavigation)"

section \<open>Publications\<close>

record opds_author =
  OaName :: string
  OaSortAs :: string
  OaURI :: string

record publication =
  PbURN :: string
  PbTitle :: string
  PbUpdated :: time
  PbSummary :: string
  PbSelf :: string
  PbSortAs :: string
  PbAuthors :: "opds_author list"
  PbContributors :: "string list"
  PbLanguage :: "string option"
  PbPublisher :: string
  PbRights :: string
  PbSubjects :: "string list"
  PbPublished :: "time option"
  PbIdentifiers :: "string list"
  PbTags :: "string list"
  PbSeries :: "(string \<times> float64) option"
  PbCover :: "(string \<times> string) option"
  PbAcquire :: "rel \<times> string \<times> string"

record site =
  SPaths :: http_paths
  SBase :: string
  SLower :: "string \<Rightarrow> string"
  STimeParse :: "string \<Rightarrow> string \<Rightarrow> time option"
  SFloat :: "string \<Rightarrow> float64 option"
  SMimeByExt :: "string \<Rightarrow> string"
  SDetect :: "bytes \<Rightarrow> string"
  SDisposition :: "string \<Rightarrow> string"

definition published :: "site \<Rightarrow> string \<Rightarrow> time option" where
  "published st s = (case pick (\<lambda>layout. STimeParse st layout s)
       [''2006-01-02T15:04:05Z07:00'', ''2006-01-02T15:04:05'', ''2006-01-02'', ''2006-01'', ''2006''] of
     [] \<Rightarrow> None | t # _ \<Rightarrow> Some t)"

definition series_position :: "site \<Rightarrow> string \<Rightarrow> float64" where
  "series_position st i = (case SFloat st i of Some f \<Rightarrow> f | None \<Rightarrow> Fin 0)"

definition identifier_urn :: "site \<Rightarrow> string \<Rightarrow> string \<Rightarrow> string" where
  "identifier_urn st scheme value =
     (if SLower st scheme \<in> {''isbn'', ''issn''} then ''urn:'' @ SLower st scheme @ '':'' @ value
      else if SLower st scheme = [] then value
      else scheme @ '':'' @ value)"

definition to_publication :: "site \<Rightarrow> book \<Rightarrow> string \<Rightarrow> publication" where
  "to_publication st b filename =
     (let i = dec_int (MID (Meta b)); ids = Identifiers (Bib b) in
      \<lparr>PbURN = urn (''book:'' @ i), PbTitle = Title (Bib b), PbUpdated = DateModified (Meta b), PbSummary = Description (Bib b),
       PbSelf = publication_path (SPaths st) i, PbSortAs = SortTitle (Bib b),
       PbAuthors = map (\<lambda>a. \<lparr>OaName = AName a, OaSortAs = ASortName a, OaURI = feed_path (SPaths st) kind_author (AName a)\<rparr>) (Authors (Bib b)),
       PbContributors = map CName (Contributors (Bib b)),
       PbLanguage = (if Language (Bib b) \<noteq> [] then Some (Language (Bib b)) else None),
       PbPublisher = Publisher (Bib b), PbRights = Rights (Bib b), PbSubjects = Subjects (Bib b),
       PbPublished = published st (Pubdate (Bib b)),
       PbIdentifiers = map (\<lambda>s. identifier_urn st s (case map_of ids s of Some v \<Rightarrow> v | None \<Rightarrow> [])) (sort (map fst ids)),
       PbTags = Tags (Meta b),
       PbSeries = (case Series (Bib b) of Some s \<Rightarrow> Some (SName s, series_position st (SIndex s)) | None \<Rightarrow> None),
       PbCover = (if CoverPath (Bib b) \<noteq> [] then Some (cover_path i, SMimeByExt st (ext_path (CoverPath (Bib b)))) else None),
       PbAcquire = (AcquireOpenAccess, content_path i filename, media_type_epub)\<rparr>)"

section \<open>Feeds\<close>

record nav_entry =
  NTitle :: string
  NHref :: string
  NMedia :: media
  NRel :: rel
  NContent :: string

record feed =
  FdURN :: string
  FdTitle :: string
  FdNav :: "nav_entry list"
  FdBooks :: "publication list"
  FdPage :: "(int \<times> int \<times> int) option"
  FdPaged :: "(string \<times> int \<times> bool) option"

definition new_feed :: "string \<Rightarrow> string \<Rightarrow> feed" where
  "new_feed u t = \<lparr>FdURN = u, FdTitle = t, FdNav = [], FdBooks = [], FdPage = None, FdPaged = None\<rparr>"

datatype opds_error = OpdsNotFound | OpdsFailed err | OpdsPanic

definition opds_root :: "site \<Rightarrow> feed" where
  "opds_root st = (new_feed (urn ''catalog'') ''ebookfs'')
     \<lparr>FdNav := map (\<lambda>k. \<lparr>NTitle = KTitle k, NHref = feed_path (SPaths st) (KId k) [], NMedia = kind_media_type k, NRel = KRel k, NContent = []\<rparr>) kinds\<rparr>"

definition nav_content :: "int \<Rightarrow> string" where
  "nav_content n = (if n > 0 then (if n = 1 then ''1 book'' else dec_int n @ '' books'') else [])"

definition nav_feed :: "site \<Rightarrow> kind \<Rightarrow> facet list \<Rightarrow> feed" where
  "nav_feed st k vs = (new_feed (feed_urn (KId k) []) (KTitle k))
     \<lparr>FdNav := map (\<lambda>v. \<lparr>NTitle = FName v, NHref = feed_path (SPaths st) (KId k) (FName v), NMedia = MediaTypeAcquisition,
        NRel = RelSubsection, NContent = nav_content (FCount v)\<rparr>) vs\<rparr>"

text \<open>Go's \<open>int\<close> has 64 bits and wraps.\<close>

definition wrap_int :: "int \<Rightarrow> int" where
  "wrap_int n = (n + 2 ^ 63) mod 2 ^ 64 - 2 ^ 63"

text \<open>Slicing with a negative bound panics.\<close>

definition page :: "site \<Rightarrow> feed \<Rightarrow> string \<Rightarrow> int \<Rightarrow> book list \<Rightarrow> opds_error + feed" where
  "page st f base_href req_page books =
     (let pg = max req_page 1; n = int (length books);
          start = min (wrap_int (wrap_int (pg - 1) * page_size)) n;
          end = min (wrap_int (start + page_size)) n
      in if start < 0 \<or> end < start then Inl OpdsPanic
         else Inr (f\<lparr>FdBooks := FdBooks f @ map (\<lambda>b. to_publication st b (loc_filename (Loc b)))
                 (take (nat (end - start)) (drop (nat start) books)),
               FdPage := Some (n, page_size, start + 1), FdPaged := Some (base_href, pg, end < n)\<rparr>))"

definition book_feed :: "site \<Rightarrow> kind \<Rightarrow> string \<Rightarrow> int \<Rightarrow> world \<Rightarrow> (opds_error + feed) \<times> world" where
  "book_feed st k value pg w = (case lib_search (KQuery k value) w of
      (Inl e, w) \<Rightarrow> (Inl (OpdsFailed e), w)
    | (Inr books, w) \<Rightarrow>
        (page st (new_feed (feed_urn (KId k) value) (if value \<noteq> [] then value else KTitle k))
          (feed_path (SPaths st) (KId k) value) pg books, w))"

text \<open>A feed request: the feed's id, its page and the query string of the URL.\<close>

definition opds_feed :: "site \<Rightarrow> string \<Rightarrow> int \<Rightarrow> string \<Rightarrow> world \<Rightarrow> (opds_error + feed) \<times> world" where
  "opds_feed st i pg qs w = (case lookup_kind i of
      None \<Rightarrow> (Inl OpdsNotFound, w)
    | Some k \<Rightarrow> (let value = query_value value_param qs in
        (case KList k of
           Some ls \<Rightarrow> if value = [] then (case ls w of
               (Inl e, w) \<Rightarrow> (Inl (OpdsFailed e), w)
             | (Inr vs, w) \<Rightarrow> (Inr (nav_feed st k vs), w))
             else book_feed st k value pg w
         | None \<Rightarrow> if value \<noteq> [] then (Inl OpdsNotFound, w) else book_feed st k value pg w)))"

section \<open>Books\<close>

definition lookup_book :: "string \<Rightarrow> book wio" where
  "lookup_book i = (case parse_int64 i of None \<Rightarrow> fail_io (BookNotFound 0) | Some n \<Rightarrow> get n)"

definition is_not_found :: "err \<Rightarrow> bool" where
  "is_not_found e = (case e of BookNotFound _ \<Rightarrow> True | BadEpub m \<Rightarrow> m = ''no cover in epub'' | _ \<Rightarrow> False)"

definition opds_publication :: "site \<Rightarrow> string \<Rightarrow> world \<Rightarrow> (opds_error + publication) \<times> world" where
  "opds_publication st i w = (case lookup_book i w of
      (Inl e, w) \<Rightarrow> (Inl (if is_not_found e then OpdsNotFound else OpdsFailed e), w)
    | (Inr b, w) \<Rightarrow> (Inr (to_publication st b (loc_filename (Loc b))), w))"

section \<open>Searching\<close>

record search_request =
  SrTerms :: string
  SrTitle :: string
  SrAuthor :: string
  SrPage :: int

definition search_query :: "search_request \<Rightarrow> query" where
  "search_query r = empty_query\<lparr>QTitles := filter (\<lambda>t. t \<noteq> []) (map trim_space [SrTerms r, SrTitle r]),
     QAuthors := filter (\<lambda>t. t \<noteq> []) [trim_space (SrAuthor r)]\<rparr>"

definition opds_search :: "site \<Rightarrow> search_request \<Rightarrow> world \<Rightarrow> (opds_error + feed) \<times> world" where
  "opds_search st r w = (let q = search_query r in
     if QTitles q = [] \<and> QAuthors q = [] then (Inl OpdsNotFound, w)
     else (case lib_search q w of
         (Inl e, w) \<Rightarrow> (Inl (OpdsFailed e), w)
       | (Inr books, w) \<Rightarrow> (page st (new_feed (urn ''search'') (''Search: '' @ join '' '' (QTitles q @ QAuthors q)))
            (SearchPath (SPaths st) opds_prefix) (SrPage r) books, w)))"

definition search_description :: "site \<Rightarrow> string \<times> string \<times> string" where
  "search_description st = (''ebookfs'', ''Search the ebookfs library by title or author'',
     SBase st @ SearchPath (SPaths st) opds_prefix @ ''?q={searchTerms}&author={author?}&title={title?}'')"

section \<open>Downloads\<close>

datatype http_response =
    ServeContent string "string option" string time bytes
  | Copied string "string option" bytes
  | HttpNotFound | HttpInternal

definition http_error :: "err \<Rightarrow> http_response" where
  "http_error e = (if is_not_found e then HttpNotFound else HttpInternal)"

definition by_book_id :: "(book \<Rightarrow> http_response wio) \<Rightarrow> string \<Rightarrow> world \<Rightarrow> http_response \<times> world" where
  "by_book_id serve i w = (case bind_io (lookup_book i) serve w of
      (Inl e, w) \<Rightarrow> (http_error e, w)
    | (Inr r, w) \<Rightarrow> (r, w))"

definition serve_epub :: "'d env \<Rightarrow> library \<Rightarrow> site \<Rightarrow> book \<Rightarrow> http_response wio" where
  "serve_epub env l st b = bind_io (lib_content env l (MID (Meta b))) (\<lambda>rd.
     let name = loc_filename (Loc b); sz = EpubSize b; disp = Some (SDisposition st name) in
     return_io (if sz > 0 then ServeContent media_type_epub disp name (DateModified (Meta b)) (reader_read_at rd (nat sz) 0)
       else Copied media_type_epub disp (reader_read_at rd (2 ^ 63 - 1) 0)))"

definition serve_cover :: "'d env \<Rightarrow> library \<Rightarrow> site \<Rightarrow> book \<Rightarrow> http_response wio" where
  "serve_cover env l st b = bind_io (lib_content env l (MID (Meta b))) (\<lambda>rd.
     bind_io (from_res (reader_cover env rd)) (\<lambda>img.
     return_io (ServeContent (SDetect st img) None [] (DateModified (Meta b)) img)))"

text \<open>The catalog strips the trailing slashes of its base address.\<close>

definition new_handler_base :: "string \<Rightarrow> string" where
  "new_handler_base base = rev (dropWhile (\<lambda>c. c = slash) (rev base))"

end
