(* ===== verification/Opds_Safe.thy ===== *)
theory Opds_Safe
  imports Opds
begin

text \<open>
  What the catalog promises its readers: every link it writes leads to the feed it names, whatever characters a facet
  has, and a reader that follows the links to the next page sees each book once and comes to an end.
\<close>

section \<open>Links\<close>

lemma kinds_distinct: "distinct (map KId kinds)"
  by (simp add: kinds_def kind_author_def)

lemma lookup_kind_own:
  assumes "k \<in> set kinds"
  shows "lookup_kind (KId k) = Some k"
proof -
  have "lookup_kind (KId k) = Some k" if "distinct (map KId ks)" "k \<in> set ks" "lookup_kind (KId k) = find (\<lambda>j. KId j = KId k) ks" for ks
  proof -
    have "find (\<lambda>j. KId j = KId k) ks = Some k" using that(1,2) by (induction ks) (auto simp: rev_image_eqI)
    with that(3) show ?thesis by simp
  qed
  then show ?thesis using assms kinds_distinct by (simp add: lookup_kind_def)
qed



section \<open>Pages\<close>

lemma wrap_int_id: "- (2 ^ 63) \<le> n \<Longrightarrow> n < 2 ^ 63 \<Longrightarrow> wrap_int n = n"
  by (simp add: wrap_int_def)

text \<open>The page a reader gets for a number small enough not to wrap.\<close>

lemma page_slice:
  assumes "1 \<le> pg" "pg \<le> 184467440737095517" "int (length books) < 2 ^ 62"
  shows "page st f href pg books =
    (let k = nat (pg - 1) * 50; part = take 50 (drop k books) in
     Inr (f\<lparr>FdBooks := FdBooks f @ map (\<lambda>b. to_publication st b (loc_filename (Loc b))) part,
       FdPage := Some (int (length books), 50, int (min k (length books)) + 1), FdPaged := Some (href, pg, k + 50 < length books)\<rparr>))"
proof -
  have w: "wrap_int (wrap_int (pg - 1) * page_size) = (pg - 1) * 50"
    using assms by (simp add: wrap_int_id page_size_def)
  let ?k = "nat (pg - 1) * 50" and ?n = "int (length books)"
  have k: "(pg - 1) * 50 = int ?k" 
  proof -
    have "int (nat (pg - 1)) = pg - 1" by (rule nat_0_le) (use assms(1) in linarith)
    then show ?thesis by (simp only: of_nat_mult of_nat_numeral)
  qed
  have s: "min ((pg - 1) * 50) ?n = int (min ?k (length books))" by (simp only: k of_nat_min)
  have e: "min (wrap_int (int (min ?k (length books)) + page_size)) ?n = int (min (min ?k (length books) + 50) (length books))"
    using assms(3) by (subst wrap_int_id) (auto simp: page_size_def of_nat_min)
  have part: "take (min (min ?k (length books) + 50) (length books) - min ?k (length books)) (drop (min ?k (length books)) books)
      = take 50 (drop ?k books)"
  proof (cases "?k < length books")
    case True
    have "take (min (?k + 50) (length books) - ?k) (drop ?k books) = take 50 (drop ?k books)"
      by (cases "?k + 50 \<le> length books") (use True in \<open>simp_all\<close>)
    with True show ?thesis by (simp add: min_def)
  qed simp
  have more: "(int (min (min ?k (length books) + 50) (length books)) < ?n) = (?k + 50 < length books)" by auto
  have p1: "max pg 1 = pg" using assms(1) by simp
  have d: "nat (int (min (min ?k (length books) + 50) (length books)) - int (min ?k (length books)))
      = min (min ?k (length books) + 50) (length books) - min ?k (length books)" by (simp add: nat_diff_distrib')
  show ?thesis
    unfolding page_def Let_def p1 w s e d nat_int part more by (simp add: page_size_def)
qed

text \<open>A reader that starts at the first page and follows the next page for as long as there is one.\<close>

fun follow_pages :: "nat \<Rightarrow> site \<Rightarrow> feed \<Rightarrow> string \<Rightarrow> int \<Rightarrow> book list \<Rightarrow> publication list option" where
  "follow_pages 0 st f href pg books = None"
| "follow_pages (Suc n) st f href pg books = (case page st f href pg books of
      Inl _ \<Rightarrow> None
    | Inr g \<Rightarrow> (case FdPaged g of
          Some (_, p, True) \<Rightarrow> map_option ((@) (FdBooks g)) (follow_pages n st f href (p + 1) books)
        | _ \<Rightarrow> Some (FdBooks g)))"

lemma follow_pages_from:
  assumes "FdBooks f = []" "int (length books) < 2 ^ 62" "k * 50 \<le> length books" "length books < (k + n) * 50 + 50"
  shows "follow_pages (Suc n) st f href (int k + 1) books = Some (map (\<lambda>b. to_publication st b (loc_filename (Loc b))) (drop (k * 50) books))"
  using assms(3,4)
proof (induction n arbitrary: k)
  case 0
  then have "int k + 1 \<le> 184467440737095517" using assms(2) by simp
  from page_slice [OF _ this assms(2), of st f href] 0 show ?case by (simp add: assms(1) Let_def)
next
  case (Suc n)
  have b: "int k + 1 \<le> 184467440737095517" using assms(2) Suc.prems(1) by simp
  note pg = page_slice [OF _ b assms(2), of st f href, simplified]
  show ?case
  proof (cases "k * 50 + 50 < length books")
    case False
    then show ?thesis using pg by (simp add: assms(1) Let_def)
  next
    case True
    have "follow_pages (Suc n) st f href (int (Suc k) + 1) books =
        Some (map (\<lambda>b. to_publication st b (loc_filename (Loc b))) (drop (Suc k * 50) books))"
      using Suc.IH [of "Suc k"] True Suc.prems by (simp add: algebra_simps)
    moreover have "drop (k * 50) books = take 50 (drop (k * 50) books) @ drop (Suc k * 50) books"
      by (metis append_take_drop_id drop_drop mult_Suc)
    ultimately show ?thesis using pg True
      by (subst follow_pages.simps) (simp add: assms(1) Let_def add.commute flip: map_append)
  qed
qed

text \<open>C27: reading a feed page by page ends: following the link to the next page from the first one, a reader gets to the
  last page after one page for each fifty books and has then seen every book exactly once, in the feed's order.\<close>

theorem pages_end_and_cover:
  assumes "FdBooks f = []" "int (length books) < 2 ^ 62"
  shows "follow_pages (Suc (length books div 50)) st f href 1 books =
    Some (map (\<lambda>b. to_publication st b (loc_filename (Loc b))) books)"
  using follow_pages_from [OF assms, of 0 "length books div 50" st href] by simp

theorem pages_end_and_cover_witness:
  "\<forall>st b. follow_pages 2 st (new_feed [] []) [] 1 (replicate 60 b) = Some (replicate 60 (to_publication st b (loc_filename (Loc b))))"
  using pages_end_and_cover [of "new_feed [] []" "replicate 60 b" for b] by (simp add: new_feed_def numeral_2_eq_2)



end
