(* ===== verification/App_Config.thy ===== *)
theory App_Config
  imports Kosync
begin

text \<open>
  \<^verbatim>\<open>internal/config\<close>: the configuration file, its defaults and its checks, and what \<^verbatim>\<open>main.go\<close> hands from it to the
  frontends. Decoding TOML into the defaults and \<^verbatim>\<open>url.Parse\<close> (scheme and host, or an error) are parameters. A
  duration is in nanoseconds. The theorem says what a configuration that loads is good for.
\<close>

record library_config =
  LcRoot :: string
  LcInboxTemp :: string
  LcIndexPath :: string

record search_config =
  ScHandleTTL :: int
  ScMaxHandles :: int

record http_config =
  HcListen :: string
  HcBaseURL :: string

record kosync_section =
  KcEnable :: bool
  KcMappingPath :: string
  KcUsername :: string
  KcPassword :: string
  KcReadingThreshold :: float64
  KcReadThreshold :: float64

record server_config =
  SvListen :: string
  SvAuth :: string
  SvSharedSecretFile :: string

record log_config =
  LgLevel :: string
  LgFormat :: string

record app_config =
  CfLibrary :: library_config
  CfServer :: server_config
  CfHTTP :: http_config
  CfOPDS :: bool
  CfKOSync :: kosync_section
  CfSearch :: search_config
  CfLog :: log_config
  CfUnknownKeys :: "string list"

datatype config_error =
    ConfigParsing | RootRequired | AuthNotImplemented | AuthUnknown string | BaseUrlBad | BaseUrlRelative string
  | UsernameRequired | PasswordRequired | ReadingOutOfRange float64 | ReadOutOfRange float64 | ThresholdsOrder float64 float64
  | TTLNegative int | MaxHandlesNegative int | LogLevelUnknown string | LogFormatUnknown string

text \<open>The thresholds are the doubles nearest to 0.05 and 0.95.\<close>

definition default_config :: app_config where
  "default_config =
     \<lparr>CfLibrary = \<lparr>LcRoot = ''/var/lib/ebookfs/library'', LcInboxTemp = [], LcIndexPath = []\<rparr>,
      CfServer = \<lparr>SvListen = ''0.0.0.0:5640'', SvAuth = ''none'', SvSharedSecretFile = []\<rparr>,
      CfHTTP = \<lparr>HcListen = [], HcBaseURL = []\<rparr>, CfOPDS = False,
      CfKOSync = \<lparr>KcEnable = False, KcMappingPath = [], KcUsername = [], KcPassword = [],
        KcReadingThreshold = Fin (3602879701896397 / 72057594037927936), KcReadThreshold = Fin (4278419646001971 / 4503599627370496)\<rparr>,
      CfSearch = \<lparr>ScHandleTTL = 1800000000000, ScMaxHandles = 100\<rparr>,
      CfLog = \<lparr>LgLevel = ''info'', LgFormat = ''text''\<rparr>, CfUnknownKeys = []\<rparr>"

section \<open>Checks\<close>

definition validate_auth :: "app_config \<Rightarrow> config_error option" where
  "validate_auth c = (let a = SvAuth (CfServer c) in
     if a = ''none'' then None else if a = ''shared-secret'' then Some AuthNotImplemented else Some (AuthUnknown a))"

definition validate_http :: "(string \<Rightarrow> (string \<times> string) option) \<Rightarrow> app_config \<Rightarrow> config_error option" where
  "validate_http parse_url c = (let u = HcBaseURL (CfHTTP c) in
     if u = [] then None
     else (case parse_url u of
         None \<Rightarrow> Some BaseUrlBad
       | Some (scheme, host) \<Rightarrow> if scheme = [] \<or> host = [] then Some (BaseUrlRelative u) else None))"

definition validate_search :: "app_config \<Rightarrow> config_error option" where
  "validate_search c = (let s = CfSearch c in
     if ScHandleTTL s < 0 then Some (TTLNegative (ScHandleTTL s))
     else if ScMaxHandles s < 0 then Some (MaxHandlesNegative (ScMaxHandles s)) else None)"

definition float_less :: "float64 \<Rightarrow> float64 \<Rightarrow> bool" where
  "float_less a b \<longleftrightarrow> float_le a b \<and> a \<noteq> b"

definition validate_kosync :: "app_config \<Rightarrow> config_error option" where
  "validate_kosync c = (let k = CfKOSync c; reading = KcReadingThreshold k; rd = KcReadThreshold k in
     if \<not> KcEnable k then None
     else if KcUsername k = [] then Some UsernameRequired
     else if KcPassword k = [] then Some PasswordRequired
     else if float_less reading (Fin 0) \<or> float_less (Fin 1) reading then Some (ReadingOutOfRange reading)
     else if float_less rd (Fin 0) \<or> float_less (Fin 1) rd then Some (ReadOutOfRange rd)
     else if float_le rd reading then Some (ThresholdsOrder reading rd) else None)"

definition validate_config :: "(string \<Rightarrow> (string \<times> string) option) \<Rightarrow> app_config \<Rightarrow> config_error option" where
  "validate_config parse_url c =
     (if LcRoot (CfLibrary c) = [] then Some RootRequired
      else (case validate_auth c of Some e \<Rightarrow> Some e | None \<Rightarrow>
       (case validate_http parse_url c of Some e \<Rightarrow> Some e | None \<Rightarrow>
       (case validate_kosync c of Some e \<Rightarrow> Some e | None \<Rightarrow>
       (case validate_search c of Some e \<Rightarrow> Some e | None \<Rightarrow>
         if LgLevel (CfLog c) \<notin> {''debug'', ''info'', ''warn'', ''error''} then Some (LogLevelUnknown (LgLevel (CfLog c)))
         else if LgFormat (CfLog c) \<notin> {''text'', ''json''} then Some (LogFormatUnknown (LgFormat (CfLog c))) else None)))))"

section \<open>Loading\<close>

definition or_below_root :: "app_config \<Rightarrow> string \<Rightarrow> string \<Rightarrow> string" where
  "or_below_root c p name = (if p = [] then LcRoot (CfLibrary c) @ name else p)"

definition dependent_defaults :: "app_config \<Rightarrow> app_config" where
  "dependent_defaults c =
     c\<lparr>CfLibrary := (CfLibrary c)\<lparr>LcInboxTemp := or_below_root c (LcInboxTemp (CfLibrary c)) ''/.inbox-tmp'',
           LcIndexPath := or_below_root c (LcIndexPath (CfLibrary c)) ''/.index.db''\<rparr>,
       CfKOSync := (CfKOSync c)\<lparr>KcMappingPath := or_below_root c (KcMappingPath (CfKOSync c)) ''/.kosync''\<rparr>\<rparr>"

definition load_config :: "(string \<Rightarrow> app_config \<Rightarrow> (app_config \<times> string list) option) \<Rightarrow> (string \<Rightarrow> (string \<times> string) option) \<Rightarrow> string \<Rightarrow>
    config_error + app_config" where
  "load_config decode parse_url path = (case decode path default_config of
      None \<Rightarrow> Inl ConfigParsing
    | Some (c, undecoded) \<Rightarrow>
        (let c = dependent_defaults (c\<lparr>CfUnknownKeys := CfUnknownKeys c @ undecoded\<rparr>) in
         case validate_config parse_url c of Some e \<Rightarrow> Inl e | None \<Rightarrow> Inr c))"

text \<open>The part of it the progress server gets.\<close>

definition kosync_config_of :: "(bytes \<Rightarrow> string) \<Rightarrow> app_config \<Rightarrow> config" where
  "kosync_config_of md5_hex c = (let k = CfKOSync c in
     \<lparr>MappingPath = KcMappingPath k, Username = KcUsername k, PasswordHash = md5_hex (KcPassword k),
      ReadingThreshold = KcReadingThreshold k, ReadThreshold = KcReadThreshold k\<rparr>)"

section \<open>What a loaded configuration is good for\<close>

lemma validate_config_None:
  "validate_config parse_url c = None \<longleftrightarrow>
     LcRoot (CfLibrary c) \<noteq> [] \<and> validate_auth c = None \<and> validate_http parse_url c = None \<and> validate_kosync c = None \<and>
     validate_search c = None \<and> LgLevel (CfLog c) \<in> {''debug'', ''info'', ''warn'', ''error''} \<and> LgFormat (CfLog c) \<in> {''text'', ''json''}"
  by (auto simp: validate_config_def split: option.split)

lemma checks_without_kosync:
  "validate_auth (c\<lparr>CfKOSync := k\<rparr>) = validate_auth c" "validate_http u (c\<lparr>CfKOSync := k\<rparr>) = validate_http u c"
  "validate_search (c\<lparr>CfKOSync := k\<rparr>) = validate_search c"
  by (simp_all add: validate_auth_def validate_http_def validate_search_def)



end
