(* ===== verification/Frontends.thy ===== *)
theory Frontends
  imports App_Config
begin

text \<open>
  \<^verbatim>\<open>internal/frontend\<close> and the part of \<^verbatim>\<open>main.go\<close> that registers the frontends: one HTTP listener shared by prefix,
  and a run that ends when any frontend does. A frontend is its name; what happens while the program runs (which
  event wakes the runner, what each shutdown answers, which frontends stop before the deadline and how) is an
  argument of \<open>run_frontends\<close>, so a theorem over it covers every schedule. \<^verbatim>\<open>net/http\<close>'s router is \<open>mux_match\<close>: a
  pattern that ends in a slash matches what it is a prefix of, any other only itself, and the longest match wins.
\<close>

record http_frontend =
  HfName :: string
  HfPrefix :: string
  HfStrip :: bool

record runner =
  RnFrontends :: "string list"
  RnHttp :: "http_frontend list"
  RnPrefixes :: "(string \<times> string) list"
  RnListen :: string

datatype register_error = ListenNotConfigured string | DuplicatePrefix string string

definition new_runner :: "string \<Rightarrow> runner" where
  "new_runner listen = \<lparr>RnFrontends = [], RnHttp = [], RnPrefixes = [], RnListen = listen\<rparr>"

definition register :: "string \<Rightarrow> runner \<Rightarrow> runner" where
  "register f r = r\<lparr>RnFrontends := RnFrontends r @ [f]\<rparr>"

definition register_http :: "http_frontend \<Rightarrow> runner \<Rightarrow> register_error + runner" where
  "register_http fe r =
     (if RnListen r = [] then Inl (ListenNotConfigured (HfName fe))
      else (case map_of (RnPrefixes r) (HfPrefix fe) of
          Some existing \<Rightarrow> Inl (DuplicatePrefix (HfPrefix fe) existing)
        | None \<Rightarrow> Inr (r\<lparr>RnPrefixes := (HfPrefix fe, HfName fe) # RnPrefixes r, RnHttp := RnHttp r @ [fe]\<rparr>)))"

section \<open>Routing\<close>

datatype route = Handled http_frontend | Stripped http_frontend | Redirected string

definition frontend_routes :: "http_frontend \<Rightarrow> (string \<times> route) list" where
  "frontend_routes fe =
     (if HfStrip fe then [(HfPrefix fe, Redirected (HfPrefix fe @ ''/'')), (HfPrefix fe @ ''/'', Stripped fe)]
      else [(HfPrefix fe, Handled fe), (HfPrefix fe @ ''/'', Handled fe)])"

definition http_handler :: "runner \<Rightarrow> (string \<times> route) list" where
  "http_handler r = concat (map frontend_routes (RnHttp r))"

definition pattern_matches :: "string \<Rightarrow> string \<Rightarrow> bool" where
  "pattern_matches p path \<longleftrightarrow> p = path \<or> p \<noteq> [] \<and> last p = slash \<and> prefix p path"

definition mux_match :: "(string \<times> route) list \<Rightarrow> string \<Rightarrow> route option" where
  "mux_match rs path = (case filter (\<lambda>(p, _). pattern_matches p path) rs of
      [] \<Rightarrow> None
    | m # ms \<Rightarrow> Some (snd (foldl (\<lambda>a b. if length (fst b) > length (fst a) then b else a) m ms)))"

section \<open>Running\<close>

text \<open>What wakes the runner: the context, a frontend that stops serving, or the HTTP server.\<close>

datatype wake = CtxDone | FrontendExit string "err option" | HttpExit "err option"

datatype run_error =
    StoppedEarly string | ServeFailed string err | HttpServer err | HttpShutdown err | Stopping string err | StillRunning int

definition exit_wrapped :: "string \<Rightarrow> err option \<Rightarrow> run_error list" where
  "exit_wrapped name e = (case e of None \<Rightarrow> [] | Some e \<Rightarrow> [ServeFailed name e])"

definition exit_early :: "string \<Rightarrow> err option \<Rightarrow> run_error list" where
  "exit_early name e = (if e = None then [StoppedEarly name] else exit_wrapped name e)"

text \<open>The frontends that still run, awaited one by one until the deadline.\<close>

fun await_exits :: "nat \<Rightarrow> (string \<times> err option) list \<Rightarrow> run_error list" where
  "await_exits 0 _ = []"
| "await_exits (Suc n) [] = [StillRunning (int (Suc n))]"
| "await_exits (Suc n) ((name, e) # es) = exit_wrapped name e @ await_exits n es"

definition stop_all :: "(string \<Rightarrow> err option) \<Rightarrow> string list \<Rightarrow> run_error list" where
  "stop_all stop names = concat (map (\<lambda>f. case stop f of None \<Rightarrow> [] | Some e \<Rightarrow> [Stopping f e]) names)"

definition run_frontends :: "runner \<Rightarrow> wake \<Rightarrow> err option \<Rightarrow> (string \<Rightarrow> err option) \<Rightarrow> (string \<times> err option) list \<Rightarrow> run_error list" where
  "run_frontends r wk http_stop stop exits =
     (let (errs, running) = (case wk of
            CtxDone \<Rightarrow> ([], length (RnFrontends r))
          | FrontendExit n e \<Rightarrow> (exit_early n e, length (RnFrontends r) - 1)
          | HttpExit e \<Rightarrow> (case e of None \<Rightarrow> [] | Some e \<Rightarrow> [HttpServer e], length (RnFrontends r)))
      in errs @
         (if RnHttp r \<noteq> [] then (case http_stop of None \<Rightarrow> [] | Some e \<Rightarrow> [HttpShutdown e]) else []) @
         stop_all stop (map HfName (RnHttp r)) @ stop_all stop (RnFrontends r) @
         await_exits running exits)"

section \<open>The program\<close>

definition opds_frontend :: http_frontend where
  "opds_frontend = \<lparr>HfName = ''OPDS'', HfPrefix = ''/opds'', HfStrip = False\<rparr>"

definition kosync_frontend :: http_frontend where
  "kosync_frontend = \<lparr>HfName = ''kosync'', HfPrefix = ''/sync'', HfStrip = True\<rparr>"

definition register_frontends :: "app_config \<Rightarrow> register_error + runner" where
  "register_frontends c =
     bind_res (let r = register ''9P'' (new_runner (HcListen (CfHTTP c))) in
               if CfOPDS c then register_http opds_frontend r else Inr r) (\<lambda>r.
     if KcEnable (CfKOSync c) then register_http kosync_frontend r else Inr r)"

section \<open>Requests reach the frontend of their prefix\<close>

lemma foldl_longest:
  assumes "x \<in> set (m # ms)" "\<And>y. y \<in> set (m # ms) \<Longrightarrow> y \<noteq> x \<Longrightarrow> length (fst y) < length (fst x)"
  shows "foldl (\<lambda>a b. if length (fst b) > length (fst a) then b else a) m ms = x"
  using assms
proof (induction ms arbitrary: m)
  case (Cons n ms)
  let ?m = "if length (fst n) > length (fst m) then n else m"
  have "x \<in> set (?m # ms)"
    using Cons.prems(1) Cons.prems(2) [of m] Cons.prems(2) [of n] by (cases "m = x"; cases "n = x") auto
  moreover have "y \<in> set (?m # ms) \<Longrightarrow> y \<noteq> x \<Longrightarrow> length (fst y) < length (fst x)" for y
    using Cons.prems(2) [of y] by (auto split: if_splits)
  ultimately show ?case using Cons.IH [of ?m] by simp
qed simp

lemma mux_match_longest:
  assumes "(p, t) \<in> set rs" "pattern_matches p path"
    "\<And>q u. (q, u) \<in> set rs \<Longrightarrow> pattern_matches q path \<Longrightarrow> (q, u) \<noteq> (p, t) \<Longrightarrow> length q < length p"
  shows "mux_match rs path = Some t"
proof -
  let ?ms = "filter (\<lambda>(p, _). pattern_matches p path) rs"
  have "(p, t) \<in> set ?ms" using assms(1,2) by simp
  then obtain m ms where m: "?ms = m # ms" by (cases ?ms) auto
  have "foldl (\<lambda>a b. if length (fst b) > length (fst a) then b else a) m ms = (p, t)"
  proof (rule foldl_longest)
    show "(p, t) \<in> set (m # ms)" using \<open>(p, t) \<in> set ?ms\<close> by (simp add: m)
    show "length (fst y) < length (fst (p, t))" if "y \<in> set (m # ms)" "y \<noteq> (p, t)" for y
      using assms(3) [of "fst y" "snd y"] that unfolding m [symmetric] by (cases y) auto
  qed
  then show ?thesis by (simp add: mux_match_def m)
qed

text \<open>A runner as registrations leave it.\<close>

definition runner_ok :: "runner \<Rightarrow> bool" where
  "runner_ok r \<longleftrightarrow> distinct (map HfPrefix (RnHttp r)) \<and> set (map fst (RnPrefixes r)) = set (map HfPrefix (RnHttp r))"

lemma runner_ok_new: "runner_ok (new_runner l)"
  by (simp add: runner_ok_def new_runner_def)

lemma runner_ok_register: "runner_ok r \<Longrightarrow> runner_ok (register f r)"
  by (simp add: runner_ok_def register_def)

lemma register_http_Inr:
  "register_http fe r = Inr r' \<Longrightarrow> HfPrefix fe \<notin> set (map fst (RnPrefixes r)) \<and>
     r' = r\<lparr>RnPrefixes := (HfPrefix fe, HfName fe) # RnPrefixes r, RnHttp := RnHttp r @ [fe]\<rparr>"
  by (simp add: register_http_def map_of_eq_None_iff split: if_splits option.splits)

lemma runner_ok_register_http:
  assumes "runner_ok r" "register_http fe r = Inr r'"
  shows "runner_ok r'"
proof -
  note r' = register_http_Inr [OF assms(2)]
  have "HfPrefix fe \<notin> set (map HfPrefix (RnHttp r))" using r' assms(1) unfolding runner_ok_def by blast
  then show ?thesis using r' assms(1) by (simp add: runner_ok_def)
qed

lemma handler_routes:
  "(q, u) \<in> set (http_handler r) \<Longrightarrow> \<exists>g \<in> set (RnHttp r). q = HfPrefix g \<or> q = HfPrefix g @ ''/'' \<and> u = (if HfStrip g then Stripped g else Handled g)"
  by (auto simp: http_handler_def frontend_routes_def split: if_splits)

lemma handled_below:
  assumes "runner_ok r" "fe \<in> set (RnHttp r)"
    and "\<And>g. g \<in> set (RnHttp r) \<Longrightarrow> g \<noteq> fe \<Longrightarrow> \<not> prefix (HfPrefix fe @ ''/'') (HfPrefix g)"
  shows "mux_match (http_handler r) (HfPrefix fe @ slash # rest) = Some (if HfStrip fe then Stripped fe else Handled fe)"
proof (rule mux_match_longest)
  let ?p = "HfPrefix fe @ ''/''" and ?path = "HfPrefix fe @ slash # rest"
  show "(?p, if HfStrip fe then Stripped fe else Handled fe) \<in> set (http_handler r)"
    using assms(2) by (auto simp: http_handler_def frontend_routes_def intro!: bexI [of _ fe])
  show "pattern_matches ?p ?path" by (simp add: pattern_matches_def)
  fix q u
  assume q: "(q, u) \<in> set (http_handler r)" "pattern_matches q ?path" "(q, u) \<noteq> (?p, if HfStrip fe then Stripped fe else Handled fe)"
  obtain g where g: "g \<in> set (RnHttp r)" "q = HfPrefix g \<or> q = HfPrefix g @ ''/'' \<and> u = (if HfStrip g then Stripped g else Handled g)"
    using handler_routes [OF q(1)] by blast
  have pq: "prefix q ?path" "prefix ?p ?path" using q(2) by (auto simp: pattern_matches_def prefix_def)
  show "length q < length ?p"
  proof (rule ccontr)
    assume "\<not> length q < length ?p"
    then have pre: "prefix ?p q" using prefix_length_prefix [OF pq(2,1)] by simp
    have "g = fe"
    proof (cases "prefix ?p (HfPrefix g)")
      case True
      with assms(3) [OF g(1)] show ?thesis by blast
    next
      case False
      then have "HfPrefix g = HfPrefix fe" using g(2) pre by (auto simp: prefix_snoc)
      with assms(1,2) g(1) show ?thesis by (metis runner_ok_def distinct_map inj_onD)
    qed
    with g(2) pre q(3) show False by (auto dest: prefix_length_le)
  qed
qed

lemma registered_frontends:
  assumes "register_frontends c = Inr r"
  shows "runner_ok r" "RnFrontends r = [''9P'']"
    "RnHttp r = (if CfOPDS c then [opds_frontend] else []) @ (if KcEnable (CfKOSync c) then [kosync_frontend] else [])"
proof -
  have ok: "runner_ok (register ''9P'' (new_runner l))" for l by (rule runner_ok_register [OF runner_ok_new])
  show "runner_ok r"
    using assms runner_ok_register_http [OF ok, of opds_frontend] runner_ok_register_http ok
    by (fastforce simp: register_frontends_def Let_def bind_res_Inr split: if_splits)
  show "RnFrontends r = [''9P'']"
    "RnHttp r = (if CfOPDS c then [opds_frontend] else []) @ (if KcEnable (CfKOSync c) then [kosync_frontend] else [])"
    using assms
    by (auto simp: register_frontends_def Let_def bind_res_Inr register_http_def register_def new_runner_def split: if_splits option.splits)
qed



section \<open>How a run ends\<close>

lemma await_exits_Nil: "await_exits n es = [] \<longleftrightarrow> n \<le> length es \<and> (\<forall>x \<in> set (take n es). snd x = None)"
  by (induction n es rule: await_exits.induct) (auto simp: exit_wrapped_def split: option.split)

lemma stop_all_Nil: "stop_all stop ns = [] \<longleftrightarrow> (\<forall>n \<in> set ns. stop n = None)"
  by (auto simp: stop_all_def split: option.split)

lemma run_ok_iff:
  "run_frontends r wk http_stop stop exits = [] \<longleftrightarrow>
      (wk = CtxDone \<or> wk = HttpExit None) \<and> (RnHttp r \<noteq> [] \<longrightarrow> http_stop = None) \<and>
      (\<forall>n \<in> set (map HfName (RnHttp r) @ RnFrontends r). stop n = None) \<and>
      length (RnFrontends r) \<le> length exits \<and> (\<forall>x \<in> set (take (length (RnFrontends r)) exits). snd x = None)"
proof (cases wk)
  case (FrontendExit n e)
  have "exit_early n e \<noteq> []" by (simp add: exit_early_def exit_wrapped_def split: option.split)
  then show ?thesis by (simp add: run_frontends_def FrontendExit)
qed (auto simp: run_frontends_def await_exits_Nil stop_all_Nil split: option.split)

lemma run_reports_stop:
  assumes "n \<in> set (map HfName (RnHttp r) @ RnFrontends r)" "stop n = Some e"
  shows "Stopping n e \<in> set (run_frontends r wk http_stop stop exits)"
proof -
  have "Stopping n e \<in> set (stop_all stop ns)" if "n \<in> set ns" for ns
    using that assms(2) by (force simp: stop_all_def)
  then have "Stopping n e \<in> set (stop_all stop (map HfName (RnHttp r))) \<union> set (stop_all stop (RnFrontends r))"
    using assms(1) unfolding set_append by blast
  then show ?thesis unfolding run_frontends_def Let_def split_def set_append by blast
qed

text \<open>C32: a run reports success only when nothing went wrong: it was asked to stop, every shutdown worked and every
  frontend stopped without an error before the deadline. A frontend that stops serving on its own is an error
  even when it gives none, and every failure of a shutdown is reported.\<close>

theorem run_reports_failures:
  "(run_frontends r wk http_stop stop exits = [] \<longleftrightarrow>
      (wk = CtxDone \<or> wk = HttpExit None) \<and> (RnHttp r \<noteq> [] \<longrightarrow> http_stop = None) \<and>
      (\<forall>n \<in> set (map HfName (RnHttp r) @ RnFrontends r). stop n = None) \<and>
      length (RnFrontends r) \<le> length exits \<and> (\<forall>x \<in> set (take (length (RnFrontends r)) exits). snd x = None)) \<and>
    (\<forall>n e. n \<in> set (map HfName (RnHttp r) @ RnFrontends r) \<and> stop n = Some e \<longrightarrow>
      Stopping n e \<in> set (run_frontends r wk http_stop stop exits))"
  using run_ok_iff [of r wk http_stop stop exits] run_reports_stop [of _ r stop] by blast

theorem run_reports_failures_witness:
  "Stopping ''9P'' Eio \<in> set (run_frontends (register ''9P'' (new_runner [])) CtxDone None (\<lambda>_. Some Eio) [(''9P'', None)])"
  using run_reports_failures [of "register ''9P'' (new_runner [])" CtxDone None "\<lambda>_. Some Eio" "[(''9P'', None)]"]
  by (simp add: register_def)

end
