(* ===== verification/Served_Tree.thy ===== *)
theory Served_Tree
  imports Search_Dir Ctl_Safe
begin

text \<open>
  \<^verbatim>\<open>internal/fs/server.go\<close>: the whole served tree. Every view is made and registered before the books are loaded; the
  group listings and the listing by id are added here to the lists of the theory \<open>Views\<close> as one type of views, so
  that one registry drives them all. Registering the registry as a hook of the library, which makes it follow the
  library's events, and starting the listener are not modelled.
\<close>

section \<open>Views of every kind\<close>

definition list_children :: "(book_node, 'd) dir_ops \<Rightarrow> 'd book_list child_ops" where
  "list_children ops = \<lparr>ChNew = new_book_list ops, ChView = \<lparr>VAdd = bl_add ops, VRemove = bl_remove ops\<rparr>,
     ChEmpty = (\<lambda>B c. length (DChildren ops (list_name B) (BLDir c)) = 0)\<rparr>"

definition new_series_list :: "(book_node, 'd) dir_ops \<Rightarrow> 'd series_list" where
  "new_series_list ops = \<lparr>SLDir = DNew ops, SLChildren = [], SLPad = 0\<rparr>"

definition series_children :: "(book_node, 'd) dir_ops \<Rightarrow> 'd series_list child_ops" where
  "series_children ops = \<lparr>ChNew = new_series_list ops, ChView = \<lparr>VAdd = series_add ops, VRemove = series_remove ops\<rparr>,
     ChEmpty = (\<lambda>B c. length (DChildren ops (series_node_name (SLPad c) B) (SLDir c)) = 0)\<rparr>"

definition new_by_id :: "(book_node, 'd) dir_ops \<Rightarrow> 'd by_id_dir" where
  "new_by_id ops = \<lparr>BIDir = DNew ops, BIMax = 0, BIPad = 0\<rparr>"

definition new_keyed :: "(string, 'e) dir_ops \<Rightarrow> ('e, 'c) keyed_dir" where
  "new_keyed gops = \<lparr>KDDir = DNew gops, KDChildren = []\<rparr>"

datatype group = ByAuthor | ByTag | ByStatus

fun group_keys :: "group \<Rightarrow> book \<Rightarrow> string list" where
  "group_keys ByAuthor = author_keys"
| "group_keys ByTag = tag_keys"
| "group_keys ByStatus = status_keys"

datatype ('d, 'e) tree_view =
    ListView "'d view" | ByIdView "'d by_id_dir" | GroupView group "('e, 'd book_list) keyed_dir"
  | SeriesView "('e, 'd series_list) keyed_dir"

fun tree_add :: "(book_node, 'd) dir_ops \<Rightarrow> (string, 'e) dir_ops \<Rightarrow> snapshots_of \<Rightarrow> int \<Rightarrow> ('d, 'e) tree_view \<Rightarrow> ('d, 'e) tree_view" where
  "tree_add ops gops B i (ListView v) = ListView (view_add ops B i v)"
| "tree_add ops gops B i (ByIdView v) = ByIdView (by_id_add ops B i v)"
| "tree_add ops gops B i (GroupView g v) = GroupView g (keyed_add gops (list_children ops) (group_keys g) B i v)"
| "tree_add ops gops B i (SeriesView v) = SeriesView (keyed_add gops (series_children ops) series_keys B i v)"

fun tree_remove :: "(book_node, 'd) dir_ops \<Rightarrow> (string, 'e) dir_ops \<Rightarrow> snapshots_of \<Rightarrow> int \<Rightarrow> ('d, 'e) tree_view \<Rightarrow> ('d, 'e) tree_view" where
  "tree_remove ops gops B i (ListView v) = ListView (view_remove ops B i v)"
| "tree_remove ops gops B i (ByIdView v) = ByIdView (by_id_remove ops B i v)"
| "tree_remove ops gops B i (GroupView g v) = GroupView g (keyed_remove gops (list_children ops) (group_keys g) B i v)"
| "tree_remove ops gops B i (SeriesView v) = SeriesView (keyed_remove gops (series_children ops) series_keys B i v)"

definition tree_ops :: "(book_node, 'd) dir_ops \<Rightarrow> (string, 'e) dir_ops \<Rightarrow> ('d, 'e) tree_view view_ops" where
  "tree_ops ops gops = \<lparr>VAdd = tree_add ops gops, VRemove = tree_remove ops gops\<rparr>"

section \<open>The server\<close>

record fs_config =
  FcListen :: string
  FcSearchTTL :: int
  FcSearchMaxHandles :: int

record ('d, 'e) served =
  SvdRegistry :: "(string, ('d, 'e) tree_view) registry"
  SvdRoot :: "string list"
  SvdLog :: command_log
  SvdSearch :: "'e search_dir"
  SvdAddress :: string

definition tree_views :: "(book_node, 'd) dir_ops \<Rightarrow> (string, 'e) dir_ops \<Rightarrow> (string \<times> ('d, 'e) tree_view) list" where
  "tree_views ops gops =
    [(''books'', ListView (BooksView (new_book_list ops))), (''by-author'', GroupView ByAuthor (new_keyed gops)),
     (''by-id'', ByIdView (new_by_id ops)), (''by-series'', SeriesView (new_keyed gops)),
     (''by-tag'', GroupView ByTag (new_keyed gops)), (''by-status'', GroupView ByStatus (new_keyed gops)),
     (''recent'', ListView (RecentView (new_recent ops)))]"

definition root_names :: "string list" where
  "root_names = [''inbox'', ''books'', ''by-author'', ''by-id'', ''by-series'', ''by-tag'', ''by-status'', ''recent'', ''stats'',
     ''ctl'', ''log'', ''help'', ''search'']"

definition new_server :: "(book_node, 'd) dir_ops \<Rightarrow> (string, 'e) dir_ops \<Rightarrow> fs_config \<Rightarrow> ('d, 'e) served wio" where
  "new_server ops gops cfg =
     (let r = foldl (\<lambda>r (k, v). add_view (tree_ops ops gops) k v r) new_registry (tree_views ops gops) in
      bind_io (lib_search empty_query) (\<lambda>books.
      return_io \<lparr>SvdRegistry = load (tree_ops ops gops) books r, SvdRoot = root_names, SvdLog = new_command_log 100,
        SvdSearch = new_search_dir gops (FcSearchTTL cfg) (FcSearchMaxHandles cfg), SvdAddress = FcListen cfg\<rparr>))"

section \<open>Loading the books\<close>

context book_view
begin

text \<open>Loading books of new ids keeps every view the listing of the books of the registry.\<close>

lemma load_ok:
  assumes "\<And>B S B'. allowed B S \<Longrightarrow> (\<And>i. i \<in> S \<Longrightarrow> B' i = B i) \<Longrightarrow> allowed B' S"
    and "reg_ok r" "distinct (map (\<lambda>b. MID (Meta b)) bs)" "set (reg_ids r) \<inter> (\<lambda>b. MID (Meta b)) ` set bs = {}"
    and "\<And>i. i \<in> set (reg_ids r) \<Longrightarrow> B i = snap r i" "\<And>b. b \<in> set bs \<Longrightarrow> B (MID (Meta b)) = b"
    and "allowed B (set (reg_ids r) \<union> (\<lambda>b. MID (Meta b)) ` set bs)"
  shows "reg_ok (load ops bs r) \<and> set (reg_ids (load ops bs r)) = set (reg_ids r) \<union> (\<lambda>b. MID (Meta b)) ` set bs \<and>
    (\<forall>i \<in> set (reg_ids (load ops bs r)). snap (load ops bs r) i = B i)"
  using assms(2-)
proof (induction bs arbitrary: r)
  case Nil
  then show ?case by (simp add: load_def)
next
  case (Cons b bs)
  let ?i = "MID (Meta b)" and ?r = "reg_ingested ops b r"
  have new: "?i \<notin> set (reg_ids r)" using Cons.prems(3) by auto
  note books = ingested_books [OF new]
  have "allowed B (insert ?i (set (reg_ids r)))" by (rule smaller [OF Cons.prems(6)]) auto
  then have "allowed ((snap r)(?i := b)) (insert ?i (set (reg_ids r)))"
    by (rule assms(1)) (use Cons.prems(4,5) in auto)
  then have ok: "reg_ok ?r" by (rule ingested_ok [OF Cons.prems(1) new])
  have "reg_ok (load ops bs ?r) \<and> set (reg_ids (load ops bs ?r)) = set (reg_ids ?r) \<union> (\<lambda>b. MID (Meta b)) ` set bs \<and>
    (\<forall>i \<in> set (reg_ids (load ops bs ?r)). snap (load ops bs ?r) i = B i)"
  proof (rule Cons.IH [OF ok])
    show "distinct (map (\<lambda>b. MID (Meta b)) bs)" using Cons.prems(2) by simp
    show "set (reg_ids ?r) \<inter> (\<lambda>b. MID (Meta b)) ` set bs = {}"
      unfolding books(4) using Cons.prems(2,3) by auto
    show "B i = snap ?r i" if "i \<in> set (reg_ids ?r)" for i
      using that Cons.prems(4) [of i] Cons.prems(5) [of b] unfolding books(4,5) by auto
    show "B (MID (Meta c)) = c" if "c \<in> set bs" for c using that Cons.prems(5) by simp
    show "allowed B (set (reg_ids ?r) \<union> (\<lambda>b. MID (Meta b)) ` set bs)" using Cons.prems(6) unfolding books(4) by simp
  qed
  moreover have "load ops (b # bs) r = load ops bs ?r" by (simp add: load_def reg_ingested_def)
  ultimately show ?case using books(4) by simp
qed

end

text \<open>The lists keep the laws of a view; the listings by group and by id are only carried along.\<close>

fun tree_files :: "(book_node, 'd) dir_ops \<Rightarrow> ('d \<Rightarrow> book_node set) \<Rightarrow> snapshots_of \<Rightarrow> ('d, 'e) tree_view \<Rightarrow> int set \<Rightarrow> bool" where
  "tree_files ops nodes B (ListView v) S = view_files ops nodes B v S"
| "tree_files ops nodes B v S = True"

interpretation tree: book_view "tree_ops ops gops" names_free "tree_files ops nodes"
  for ops :: "(book_node, 'd) dir_ops" and gops :: "(string, 'e) dir_ops" and nodes :: "'d \<Rightarrow> book_node set"
proof
  show "tree_files ops nodes B (VAdd (tree_ops ops gops) B i v) (insert i S)"
    if "tree_files ops nodes B v S" "i \<notin> S" "names_free B (insert i S)" for B v S i
    using that served.add [of ops nodes B _ S i] by (cases v) (simp_all add: tree_ops_def served_ops_def)
  show "tree_files ops nodes B (VRemove (tree_ops ops gops) B i v) (S - {i})"
    if "tree_files ops nodes B v S" "i \<in> S" for B v S i
    using that served.remove [of ops nodes B _ S i] by (cases v) (simp_all add: tree_ops_def served_ops_def)
  show "tree_files ops nodes B' v S" if "tree_files ops nodes B v S" "\<And>i. i \<in> S \<Longrightarrow> B' i = B i" for B v S B'
    using that served.frame [of ops nodes B _ S B'] by (cases v) auto
qed (rule names_free_subset)

section \<open>What is served after a start\<close>

lemma shown_id: "book_id (shown d r) = RID r"
  by (simp add: shown_def to_book_def book_id_def Let_def)

lemma search_all:
  assumes "db_ok d"
  shows "distinct (map book_id (search empty_query d)) \<and> book_id ` set (search empty_query d) = dom (abs_index d)"
proof -
  have all: "filter (row_matches d empty_query) (Books d) = Books d"
    by (simp add: filter_id_conv row_matches_def empty_query_def)
  have rows: "mset (query_rows empty_query d) = mset (Books d)"
    by (simp add: query_rows_def all limit_rows_def order_rows_mset) (simp add: empty_query_def order_rows_mset)
  have "map book_id (search empty_query d) = map book_id (map bare (search empty_query d))" by simp
  then have ids: "map book_id (search empty_query d) = map RID (query_rows empty_query d)"
    unfolding search_shown [OF assms] by (simp add: shown_id)
  have "mset (map RID (query_rows empty_query d)) = mset (map RID (Books d))" by (simp add: rows)
  moreover have "distinct (map RID (Books d))" using assms by (simp add: db_ok_def book_ids_def)
  ultimately have "distinct (map RID (query_rows empty_query d))" by (metis mset_eq_imp_distinct_iff)
  moreover have "RID ` set (query_rows empty_query d) = dom (abs_index d)"
    using mset_eq_setD [OF rows] row_of_in [OF assms]
    by (auto simp: abs_index_shown [OF assms] row_of_def map_of_SomeD find_Some_iff dom_def image_iff find_None_iff)
  ultimately show ?thesis using ids by (metis list.set_map)
qed

lemma tree_views_start:
  assumes "static_dir_ok ops nodes" "(k, v) \<in> set (tree_views ops gops)"
  shows "tree_files ops nodes B v {}"
  using assms(2) new_view_files [OF assms(1), of "BooksView (new_book_list ops)" B] new_view_files [OF assms(1), of "RecentView (new_recent ops)" B]
  by (auto simp: tree_views_def)

lemma empty_views_ok:
  assumes "static_dir_ok ops nodes" "set vs \<subseteq> set (tree_views ops gops)" "tree.reg_ok ops nodes r" "reg_ids r = []"
  shows "tree.reg_ok ops nodes (foldl (\<lambda>r (k, v). add_view (tree_ops ops gops) k v r) r vs) \<and>
    reg_ids (foldl (\<lambda>r (k, v). add_view (tree_ops ops gops) k v r) r vs) = []"
  using assms(2-)
proof (induction vs arbitrary: r)
  case (Cons kv vs)
  obtain k v where kv: "kv = (k, v)" by (cases kv)
  have "tree.reg_ok ops nodes (add_view (tree_ops ops gops) k v r)"
    by (rule tree.add_view_ok [OF Cons.prems(2)])
      (use Cons.prems tree_views_start [OF assms(1)] in \<open>auto simp: kv names_free_def\<close>)
  moreover have "reg_ids (add_view (tree_ops ops gops) k v r) = []" using Cons.prems(3) by (simp add: add_view_def reg_ids_def)
  ultimately show ?case using Cons.IH Cons.prems(1) by (simp add: kv)
qed simp

lemma views_start:
  assumes "reg_ids r = []"
  shows "RgViews (foldl (\<lambda>r (k, v). add_view ops k v r) r vs) = RgViews r @ vs"
  using assms by (induction vs arbitrary: r) (auto simp: add_view_def fill_view_def reg_ids_def)

text \<open>A load keeps the views, each changed by additions only.\<close>

lemma add_views: "RgViews (add_locked ops b r) = map (\<lambda>(k, v). (k, VAdd ops (snap (dir_locked b r)) (MID (Meta b)) v)) (RgViews r)"
  by (simp add: add_locked_def Let_def each_view_def dir_locked_def split: option.split)

lemma loaded_keys: "map fst (RgViews (load ops bs r)) = map fst (RgViews r)"
proof (induction bs arbitrary: r)
  case (Cons b bs)
  have "map fst (RgViews (load ops (b # bs) r)) = map fst (RgViews (load ops bs (add_locked ops b r)))" by (simp add: load_def)
  also have "\<dots> = map fst (RgViews r)" unfolding Cons.IH add_views by (simp add: case_prod_unfold)
  finally show ?case .
qed (simp add: load_def)

lemma loaded_view:
  assumes "\<And>B i v. P v \<Longrightarrow> P (VAdd ops B i v)" "(k, v) \<in> set (RgViews r)" "P v"
  shows "\<exists>u. (k, u) \<in> set (RgViews (load ops bs r)) \<and> P u"
  using assms(2,3)
proof (induction bs arbitrary: r v)
  case (Cons b bs)
  let ?u = "VAdd ops (snap (dir_locked b r)) (MID (Meta b)) v"
  have "(k, ?u) \<in> set (RgViews (add_locked ops b r))" using Cons.prems(1) by (force simp: add_views)
  from Cons.IH [OF this assms(1) [OF Cons.prems(2)]] show ?case by (simp add: load_def)
qed (auto simp: load_def)

lemma loaded_kind:
  "(k, ListView (BooksView v)) \<in> set (RgViews r) \<Longrightarrow> \<exists>l. (k, ListView (BooksView l)) \<in> set (RgViews (load (tree_ops ops gops) bs r))"
  "(k, ListView (RecentView c)) \<in> set (RgViews r) \<Longrightarrow> \<exists>l. (k, ListView (RecentView l)) \<in> set (RgViews (load (tree_ops ops gops) bs r))"
proof -
  assume k: "(k, ListView (BooksView v)) \<in> set (RgViews r)"
  have "\<exists>u. (k, u) \<in> set (RgViews (load (tree_ops ops gops) bs r)) \<and> (\<exists>l. u = ListView (BooksView l))"
    by (rule loaded_view [OF _ k]) (auto simp: tree_ops_def)
  then show "\<exists>l. (k, ListView (BooksView l)) \<in> set (RgViews (load (tree_ops ops gops) bs r))" by blast
next
  assume k: "(k, ListView (RecentView c)) \<in> set (RgViews r)"
  have "\<exists>u. (k, u) \<in> set (RgViews (load (tree_ops ops gops) bs r)) \<and> (\<exists>l. u = ListView (RecentView l))"
    by (rule loaded_view [OF _ k]) (auto simp: tree_ops_def)
  then show "\<exists>l. (k, ListView (RecentView l)) \<in> set (RgViews (load (tree_ops ops gops) bs r))" by blast
qed

definition found_books :: "db \<Rightarrow> snapshots_of" where
  "found_books d i = the (map_of (map (\<lambda>b. (book_id b, b)) (search empty_query d)) i)"


lemma sample_served: "names_free (found_books sample_db) (dom (abs_index sample_db))"
proof -
  have "book_id ` set (search empty_query sample_db) = {1}" by code_simp
  then have "dom (abs_index sample_db) = {1}" using search_all [of sample_db] sample_db_ok(1) by (simp add: index_ok_def)
  moreover have "names_free (found_books sample_db) {1}" by code_simp
  ultimately show ?thesis by simp
qed


end
