(* ===== verification/Spec2Isabelle.thy ===== *)
theory Spec2Isabelle
  imports Naming Layout Edits Query Drift Index_Search Ctl_Safe Search_Dir Inbox Opds_Safe Frontends Served_Tree
begin

text \<open>
  A model of ebookfs, a library of epub files served as a file tree. The program is a store (a tree
  of book directories), an index (an SQLite database derived from the store), a facade that keeps the
  two agreeing (\<^verbatim>\<open>pkg/library\<close>), and frontends on top of it.

  Theories, bottom up.
  \<^item> \<open>Prelude\<close>: results as sums, strings as Go sees them (UTF-8 runes, trimming, splitting, decimal numbers).
  \<^item> \<open>Naming\<close>: \<^verbatim>\<open>internal/util/naming\<close>. \<open>Paths\<close>: what the code uses of \<^verbatim>\<open>path/filepath\<close>.
  \<^item> \<open>Book\<close>, \<open>Edits\<close>: \<^verbatim>\<open>internal/book\<close>. \<open>Layout\<close>: \<^verbatim>\<open>pkg/library/internal/store/path.go\<close>.
  \<^item> \<open>Drift\<close>: \<^verbatim>\<open>pkg/library/internal/drift\<close>. \<open>Query\<close>: \<^verbatim>\<open>index/query.go\<close> and \<^verbatim>\<open>internal/fs/textfmt\<close>.
  \<^item> \<open>Entity_Links\<close>, \<open>Db\<close>: the tables of \<^verbatim>\<open>schema.sql\<close> and one function per statement of \<^verbatim>\<open>dbsqlc\<close>.
  \<^item> \<open>Index\<close>: \<^verbatim>\<open>pkg/library/internal/index\<close>; \<open>Index_Correct\<close>, \<open>Index_Refine\<close>, \<open>Index_Ops\<close> and
    \<open>Index_Search\<close> prove it: the invariant of the schema, that writes are updates of a map from ids to
    books, operations and rebuilds, and what a search returns.
\<close>

end
